(* ===== verification/Go_Prelude.thy ===== *)
theory Go_Prelude
  imports Main "HOL-Library.Word"
begin

text \<open>
  What every component of the exporter shares: the ways a Go function can end, procedures
  that thread a receiver (a reader, a command block) through a chain of calls with
  \<open>if err != nil { return err }\<close> after each of them, byte slices with Go's bounds checks,
  little-endian integers, and Go strings.

  \<^item> A Go function that returns \<open>(T, error)\<close> has the result type \<open>exit + 'a\<close>:
    \<open>Inl (Err e)\<close> is a returned error, \<open>Inl (Panic p)\<close> a run-time panic, and
    \<open>Inl OutOfFuel\<close> is not an outcome of the code: it marks a recursion of the model that
    was given too small a bound, and the components prove that it does not occur.
  \<^item> A method with a pointer receiver that is written to is a \<open>proc\<close>: it takes the
    receiver's state and returns the result together with the state it leaves, also when it
    fails.
\<close>

section \<open>Outcomes\<close>

text \<open>
  The error values: the sentinels of package nvlist, \<open>io.EOF\<close>, a kernel error number, an
  error made by \<open>fmt.Errorf\<close> without a cause (its format string, and its argument when that is
  a string), one made with \<open>%w\<close> around a cause, and the errors of strconv. Callers compare with \<open>==\<close>, so a
  wrapped \<open>io.EOF\<close> is not \<open>io.EOF\<close>; the constructors keep them apart.
\<close>

datatype error =
    EOF
  | ErrInvalidEncoding
  | ErrInvalidEndianess
  | ErrInvalidData
  | ErrInvalidValue
  | ErrUnsupportedType
  | ErrSyntax
  | ErrRange
  | Errno nat
  | OSError string
  | Errorf string
  | ErrorfArg string string
  | Wrapf string error

datatype panic =
    IndexOutOfRange
  | SliceBounds
  | DivideByZero
  | NilDereference
  | MakeSliceLen
  | UnsafeRead
  | ReflectAssign
  | NilMapWrite

datatype exit = Err error | Panic panic | OutOfFuel

type_synonym ('s, 'a) proc = "'s \<Rightarrow> (exit + 'a) \<times> 's"

text \<open>A result that is neither a panic nor an exhausted bound: a value or a returned error.\<close>

fun returns :: "exit + 'a \<Rightarrow> bool" where
  "returns (Inr a) = True"
| "returns (Inl (Err e)) = True"
| "returns (Inl (Panic p)) = False"
| "returns (Inl OutOfFuel) = False"

section \<open>Procedures\<close>

definition ret :: "'a \<Rightarrow> ('s, 'a) proc" where
  "ret a s = (Inr a, s)"

definition fail :: "error \<Rightarrow> ('s, 'a) proc" where
  "fail e s = (Inl (Err e), s)"

definition panics :: "panic \<Rightarrow> ('s, 'a) proc" where
  "panics p s = (Inl (Panic p), s)"

text \<open>Reading the receiver: a value, or a computation on it that may fail.\<close>

definition gets :: "('s \<Rightarrow> 'a) \<Rightarrow> ('s, 'a) proc" where
  "gets f s = (Inr (f s), s)"

definition query :: "('s \<Rightarrow> exit + 'a) \<Rightarrow> ('s, 'a) proc" where
  "query f s = (f s, s)"

definition modify :: "('s \<Rightarrow> 's) \<Rightarrow> ('s, unit) proc" where
  "modify f s = (Inr (), f s)"

text \<open>Sequencing: the second procedure runs when the first one returned no error.\<close>

definition bindE :: "('s, 'a) proc \<Rightarrow> ('a \<Rightarrow> ('s, 'b) proc) \<Rightarrow> ('s, 'b) proc" where
  "bindE m f s = (case m s of (Inl e, s') \<Rightarrow> (Inl e, s') | (Inr a, s') \<Rightarrow> f a s')"

text \<open>The loop \<open>for range n\<close> whose body returns only an error.\<close>

primrec repeatE :: "nat \<Rightarrow> ('s, unit) proc \<Rightarrow> ('s, unit) proc" where
  "repeatE 0 m = ret ()"
| "repeatE (Suc n) m = bindE m (\<lambda>_. repeatE n m)"

text \<open>A \<open>for range n\<close> loop that collects what its body returns, in order.\<close>

primrec collectE :: "nat \<Rightarrow> ('s, 'a) proc \<Rightarrow> ('s, 'a list) proc" where
  "collectE 0 m = ret []"
| "collectE (Suc n) m = bindE m (\<lambda>x. bindE (collectE n m) (\<lambda>xs. ret (x # xs)))"

text \<open>The loop \<open>for _, x := range xs\<close> whose body returns only an error.\<close>

primrec forE :: "'x list \<Rightarrow> ('x \<Rightarrow> ('s, unit) proc) \<Rightarrow> ('s, unit) proc" where
  "forE [] f = ret ()"
| "forE (x # xs) f = bindE (f x) (\<lambda>_. forE xs f)"

text \<open>A procedure on one part of a larger state.\<close>

definition on_part :: "('s \<Rightarrow> 't) \<Rightarrow> ('t \<Rightarrow> 's \<Rightarrow> 's) \<Rightarrow> ('t, 'a) proc \<Rightarrow> ('s, 'a) proc" where
  "on_part part put m s = (case m (part s) of (r, x) \<Rightarrow> (r, put x s))"

text \<open>An error is wrapped, \<open>fmt.Errorf("msg: %w", err)\<close>, or replaced by one without a cause.\<close>

definition wrapE :: "string \<Rightarrow> ('s, 'a) proc \<Rightarrow> ('s, 'a) proc" where
  "wrapE msg m s =
     (case m s of (Inl (Err e), s') \<Rightarrow> (Inl (Err (Wrapf msg e)), s') | r \<Rightarrow> r)"

definition replaceE :: "error \<Rightarrow> ('s, 'a) proc \<Rightarrow> ('s, 'a) proc" where
  "replaceE e' m s = (case m s of (Inl (Err e), s') \<Rightarrow> (Inl (Err e'), s') | r \<Rightarrow> r)"

named_theorems proc_simps \<open>one-step equations of the procedure combinators\<close>

lemma ret_apply [proc_simps]: "ret a s = (Inr a, s)"
  by (simp add: ret_def)

lemma fail_apply [proc_simps]: "fail e s = (Inl (Err e), s)"
  by (simp add: fail_def)

lemma panics_apply [proc_simps]: "panics p s = (Inl (Panic p), s)"
  by (simp add: panics_def)

lemma gets_apply [proc_simps]: "gets f s = (Inr (f s), s)"
  by (simp add: gets_def)

lemma query_apply [proc_simps]: "query f s = (f s, s)"
  by (simp add: query_def)

lemma modify_apply [proc_simps]: "modify f s = (Inr (), f s)"
  by (simp add: modify_def)

text \<open>Symbolic execution: a bind whose first procedure is known to succeed or to fail.\<close>

lemma bindE_Inr: "m s = (Inr a, s') \<Longrightarrow> bindE m f s = f a s'"
  by (simp add: bindE_def)

lemma bindE_Inl: "m s = (Inl e, s') \<Longrightarrow> bindE m f s = (Inl e, s')"
  by (simp add: bindE_def)

lemma bindE_ret [proc_simps]: "bindE (ret a) f s = f a s"
  by (simp add: bindE_def proc_simps)

lemma bindE_fail [proc_simps]: "bindE (fail e) f s = (Inl (Err e), s)"
  by (simp add: bindE_def proc_simps)

lemma bindE_panics [proc_simps]: "bindE (panics p) f s = (Inl (Panic p), s)"
  by (simp add: bindE_def proc_simps)

lemma bindE_gets [proc_simps]: "bindE (gets g) f s = f (g s) s"
  by (simp add: bindE_def proc_simps)

lemma bindE_modify [proc_simps]: "bindE (modify h) f s = f () (h s)"
  by (simp add: bindE_def proc_simps)

lemma bindE_if [proc_simps]: "bindE (if b then m else m') f = (if b then bindE m f else bindE m' f)"
  by simp

lemma if_app [proc_simps]: "(if b then f else g) s = (if b then f s else g s)"
  by simp

text \<open>Inversion: how a chain of calls can have ended in a value, or in a failure.\<close>

lemma bindE_eq_Inr_iff:
  "bindE m f s = (Inr b, s') \<longleftrightarrow> (\<exists>a s1. m s = (Inr a, s1) \<and> f a s1 = (Inr b, s'))"
  by (auto simp: bindE_def split: prod.splits sum.splits)

lemma bindE_eq_Inl_iff:
  "bindE m f s = (Inl e, s') \<longleftrightarrow>
     m s = (Inl e, s') \<or> (\<exists>a s1. m s = (Inr a, s1) \<and> f a s1 = (Inl e, s'))"
  by (auto simp: bindE_def split: prod.splits sum.splits)

text \<open>A guard that fails has been passed by every run that succeeded.\<close>

named_theorems guard_simps \<open>guards passed by a run that succeeded\<close>

lemma if_else_Inl [guard_simps]:
  "((if b then r else (Inl e, s)) = (Inr a, s')) \<longleftrightarrow> b \<and> r = (Inr a, s')"
  by simp

lemma if_then_Inl [guard_simps]:
  "((if b then (Inl e, s) else r) = (Inr a, s')) \<longleftrightarrow> \<not> b \<and> r = (Inr a, s')"
  by simp

lemma bindE_InrE:
  assumes "bindE m f s = (Inr b, s')"
  obtains a s1 where "m s = (Inr a, s1)" and "f a s1 = (Inr b, s')"
  using assms by (auto simp: bindE_eq_Inr_iff)

lemma bindE_assoc: "bindE (bindE m f) g = bindE m (\<lambda>a. bindE (f a) g)"
  by (auto simp: bindE_def fun_eq_iff split: prod.splits sum.splits)

lemma bindE_cong [fundef_cong]:
  assumes "m s = m' s'" and "s = s'"
    and "\<And>a t. m' s' = (Inr a, t) \<Longrightarrow> f a t = f' a t"
  shows "bindE m f s = bindE m' f' s'"
  using assms by (auto simp: bindE_def split: prod.splits sum.splits)

lemma bindE_ext [fundef_cong]: "m = m' \<Longrightarrow> (\<And>a. f a = f' a) \<Longrightarrow> bindE m f = bindE m' f'"
  by (metis ext)

lemma repeatE_cong [fundef_cong]: "n = n' \<Longrightarrow> m = m' \<Longrightarrow> repeatE n m = repeatE n' m'"
  by simp

lemma collectE_cong [fundef_cong]: "n = n' \<Longrightarrow> m = m' \<Longrightarrow> collectE n m = collectE n' m'"
  by simp

lemma forE_cong [fundef_cong]:
  assumes "xs = ys" and "\<And>x. x \<in> set ys \<Longrightarrow> f x = g x"
  shows "forE xs f = forE ys g"
  unfolding assms(1) using assms(2) by (induction ys) (auto intro: bindE_ext)

lemma forE_append: "forE (xs @ ys) f s = bindE (forE xs f) (\<lambda>_. forE ys f) s"
  by (induction xs arbitrary: s) (auto simp: bindE_def ret_apply split: prod.splits sum.splits)

text \<open>A loop whose rounds all succeed runs them one after the other.\<close>

lemma forE_fold:
  assumes "\<And>x s. x \<in> set xs \<Longrightarrow> I s \<Longrightarrow> f x s = (Inr (), g x s) \<and> I (g x s)" and "I s"
  shows "forE xs f s = (Inr (), fold g xs s) \<and> I (fold g xs s)"
  using assms by (induction xs arbitrary: s) (auto simp: ret_apply bindE_Inr)

lemma wrapE_eq_Inr_iff [simp]: "wrapE msg m s = (Inr a, s') \<longleftrightarrow> m s = (Inr a, s')"
  by (auto simp: wrapE_def split: prod.splits sum.splits exit.splits)

lemma replaceE_eq_Inr_iff [simp]: "replaceE e m s = (Inr a, s') \<longleftrightarrow> m s = (Inr a, s')"
  by (auto simp: replaceE_def split: prod.splits sum.splits exit.splits)

lemma wrapE_Err: "m s = (Inl (Err e), s') \<Longrightarrow> wrapE msg m s = (Inl (Err (Wrapf msg e)), s')"
  by (simp add: wrapE_def)

lemma replaceE_Err: "m s = (Inl (Err e), s') \<Longrightarrow> replaceE e' m s = (Inl (Err e'), s')"
  by (simp add: replaceE_def)

section \<open>Contracts of procedures\<close>

text \<open>
  Three contracts that are closed under sequencing, so that a chain of calls has them when
  its parts have: never panicking from states that satisfy \<open>I\<close> (which the procedure keeps
  when it succeeds), never failing with \<open>io.EOF\<close>, and moving the state along a reflexive
  and transitive relation whatever the outcome.
\<close>

named_theorems contract_intros \<open>closure rules of the contracts of procedures\<close>

definition safe :: "('s \<Rightarrow> bool) \<Rightarrow> ('s, 'a) proc \<Rightarrow> bool" where
  "safe I m \<longleftrightarrow> (\<forall>s. I s \<longrightarrow>
     (\<forall>p. fst (m s) \<noteq> Inl (Panic p)) \<and> (\<forall>a s'. m s = (Inr a, s') \<longrightarrow> I s'))"

definition moves :: "('s \<Rightarrow> 's \<Rightarrow> bool) \<Rightarrow> ('s, 'a) proc \<Rightarrow> bool" where
  "moves R m \<longleftrightarrow> (\<forall>s. R s (snd (m s)))"

definition no_EOF :: "('s, 'a) proc \<Rightarrow> bool" where
  "no_EOF m \<longleftrightarrow> (\<forall>s. fst (m s) \<noteq> Inl (Err EOF))"

lemma safeD: "safe I m \<Longrightarrow> I s \<Longrightarrow> fst (m s) \<noteq> Inl (Panic p)"
  by (simp add: safe_def)

lemma safeD_inv: "safe I m \<Longrightarrow> I s \<Longrightarrow> m s = (Inr a, s') \<Longrightarrow> I s'"
  by (auto simp: safe_def)

lemma safeI:
  assumes "\<And>s p. I s \<Longrightarrow> fst (m s) \<noteq> Inl (Panic p)"
    and "\<And>s a s'. I s \<Longrightarrow> m s = (Inr a, s') \<Longrightarrow> I s'"
  shows "safe I m"
  using assms by (auto simp: safe_def)

lemma returns_iff: "returns x \<longleftrightarrow> (\<forall>p. x \<noteq> Inl (Panic p)) \<and> x \<noteq> Inl OutOfFuel"
proof (cases x)
  case (Inl e)
  then show ?thesis by (cases e) simp_all
qed simp

lemma safe_bindE [contract_intros]:
  assumes m: "safe I m" and f: "\<And>a. safe I (f a)"
  shows "safe I (bindE m f)"
proof (rule safeI)
  fix s p assume s: "I s"
  show "fst (bindE m f s) \<noteq> Inl (Panic p)"
  proof (cases "m s")
    case (Pair r s1)
    show ?thesis
    proof (cases r)
      case (Inl e)
      with Pair safeD [OF m s] show ?thesis by (simp add: bindE_def)
    next
      case (Inr a)
      with Pair safeD_inv [OF m s] have "I s1" by simp
      with Pair Inr safeD [OF f] show ?thesis by (simp add: bindE_def)
    qed
  qed
next
  fix s b s' assume "I s" and "bindE m f s = (Inr b, s')"
  with m f show "I s'" by (auto simp: bindE_eq_Inr_iff dest: safeD_inv)
qed

lemma safe_basic [contract_intros]:
  "safe I (ret a)" "safe I (fail e)" "safe I (gets g)"
  by (auto simp: safe_def proc_simps)

lemma safe_if [contract_intros]:
  "(b \<Longrightarrow> safe I m) \<Longrightarrow> (\<not> b \<Longrightarrow> safe I m') \<Longrightarrow> safe I (if b then m else m')"
  by simp

lemma safe_modify: "(\<And>s. I s \<Longrightarrow> I (h s)) \<Longrightarrow> safe I (modify h)"
  by (auto simp: safe_def proc_simps)

lemma safe_repeatE [contract_intros]: "safe I m \<Longrightarrow> safe I (repeatE n m)"
  by (induction n) (auto intro: contract_intros)

lemma safe_collectE [contract_intros]: "safe I m \<Longrightarrow> safe I (collectE n m)"
  by (induction n) (auto intro!: contract_intros)

lemma movesD: "moves R m \<Longrightarrow> R s (snd (m s))"
  by (simp add: moves_def)

lemma movesD_eq: "moves R m \<Longrightarrow> m s = (r, s') \<Longrightarrow> R s s'"
  by (metis movesD snd_conv)

lemma moves_bindE [contract_intros]:
  assumes "transp R" and m: "moves R m" and f: "\<And>a. moves R (f a)"
  shows "moves R (bindE m f)"
  unfolding moves_def
proof
  fix s
  show "R s (snd (bindE m f s))"
  proof (cases "m s")
    case (Pair r s1)
    with m have "R s s1" by (rule movesD_eq)
    moreover have "R s1 (snd (f a s1))" for a by (rule movesD [OF f])
    ultimately show ?thesis using Pair \<open>transp R\<close>
      by (auto simp: bindE_def split: sum.splits dest: transpD)
  qed
qed

lemma moves_basic [contract_intros]:
  "reflp R \<Longrightarrow> moves R (ret a)" "reflp R \<Longrightarrow> moves R (fail e)"
  "reflp R \<Longrightarrow> moves R (panics p)" "reflp R \<Longrightarrow> moves R (gets g)"
  "reflp R \<Longrightarrow> moves R (query q)"
  by (auto simp: moves_def proc_simps reflp_def)

lemma moves_if [contract_intros]:
  "moves R m \<Longrightarrow> moves R m' \<Longrightarrow> moves R (if b then m else m')"
  by simp

lemma moves_modify: "(\<And>s. R s (h s)) \<Longrightarrow> moves R (modify h)"
  by (simp add: moves_def proc_simps)

lemma moves_repeatE [contract_intros]:
  "reflp R \<Longrightarrow> transp R \<Longrightarrow> moves R m \<Longrightarrow> moves R (repeatE n m)"
  by (induction n) (auto intro!: contract_intros)

lemma no_EOF_bindE [contract_intros]:
  "no_EOF m \<Longrightarrow> (\<And>a. no_EOF (f a)) \<Longrightarrow> no_EOF (bindE m f)"
  by (auto simp: no_EOF_def bindE_def split: prod.splits sum.splits dest: spec)
     (metis fst_conv)+

lemma no_EOF_basic [contract_intros]:
  "no_EOF (ret a)" "e \<noteq> EOF \<Longrightarrow> no_EOF (fail e)" "no_EOF (panics p)" "no_EOF (gets g)"
  "no_EOF (modify h)"
  by (auto simp: no_EOF_def proc_simps)

lemma no_EOF_if [contract_intros]:
  "no_EOF m \<Longrightarrow> no_EOF m' \<Longrightarrow> no_EOF (if b then m else m')"
  by simp

lemma no_EOF_wrapE [contract_intros]: "no_EOF (wrapE msg m)"
  by (auto simp: no_EOF_def wrapE_def split: prod.split sum.split exit.split)

lemma no_EOF_replaceE [contract_intros]: "e \<noteq> EOF \<Longrightarrow> no_EOF (replaceE e m)"
  by (auto simp: no_EOF_def replaceE_def split: prod.split sum.split exit.split)

lemma moves_wrapE [contract_intros]: "moves R m \<Longrightarrow> moves R (wrapE msg m)"
  by (auto simp: moves_def wrapE_def split: prod.split sum.split exit.split) (metis snd_conv)+

lemma moves_replaceE [contract_intros]: "moves R m \<Longrightarrow> moves R (replaceE e m)"
  by (auto simp: moves_def replaceE_def split: prod.split sum.split exit.split) (metis snd_conv)+

text \<open>Procedures that return from every state: a value or an error.\<close>

definition total :: "('s, 'a) proc \<Rightarrow> bool" where
  "total m \<longleftrightarrow> (\<forall>s. returns (fst (m s)))"

lemma totalD: "total m \<Longrightarrow> returns (fst (m s))"
  by (simp add: total_def)

lemma total_basic [contract_intros]:
  "total (ret a)" "total (fail e)" "total (gets g)" "total (modify h)"
  by (simp_all add: total_def proc_simps)

lemma total_if [contract_intros]: "total m \<Longrightarrow> total m' \<Longrightarrow> total (if b then m else m')"
  by simp

lemma total_bindE [contract_intros]:
  assumes m: "total m" and f: "\<And>a. total (f a)"
  shows "total (bindE m f)"
proof -
  have "returns (fst (bindE m f s))" for s
  proof (cases "m s")
    case (Pair x s1)
    with totalD [OF m, of s] totalD [OF f] show ?thesis
      by (cases x) (auto simp: bindE_def returns_iff)
  qed
  then show ?thesis by (simp add: total_def)
qed

lemma total_wrapE [contract_intros]:
  assumes "total m"
  shows "total (wrapE msg m)"
proof -
  have "returns (fst (wrapE msg m s))" for s
    using totalD [OF assms, of s]
    by (auto simp: wrapE_def split: prod.split sum.split exit.split)
  then show ?thesis by (simp add: total_def)
qed

lemma total_replaceE [contract_intros]:
  assumes "total m"
  shows "total (replaceE e m)"
proof -
  have "returns (fst (replaceE e m s))" for s
    using totalD [OF assms, of s]
    by (auto simp: replaceE_def split: prod.split sum.split exit.split)
  then show ?thesis by (simp add: total_def)
qed

section \<open>Byte slices\<close>

type_synonym byte = "8 word"

text \<open>
  \<open>xs[lo:hi]\<close>. The bounds are Go \<open>int\<close>s. A slice's capacity equals its length here,
  as for the buffers the exporter makes.
\<close>

definition go_slice :: "'a list \<Rightarrow> int \<Rightarrow> int \<Rightarrow> exit + 'a list" where
  "go_slice xs lo hi =
     (if 0 \<le> lo \<and> lo \<le> hi \<and> hi \<le> int (length xs)
      then Inr (take (nat (hi - lo)) (drop (nat lo) xs)) else Inl (Panic SliceBounds))"

definition go_index :: "'a list \<Rightarrow> int \<Rightarrow> exit + 'a" where
  "go_index xs i =
     (if 0 \<le> i \<and> i < int (length xs) then Inr (xs ! nat i) else Inl (Panic IndexOutOfRange))"

lemma go_slice_ok:
  "0 \<le> lo \<Longrightarrow> lo \<le> hi \<Longrightarrow> hi \<le> int (length xs) \<Longrightarrow>
   go_slice xs lo hi = Inr (take (nat (hi - lo)) (drop (nat lo) xs))"
  by (simp add: go_slice_def)

lemma go_slice_middle:
  "go_slice (pre @ mid @ post) (int (length pre)) (int (length pre) + int (length mid)) = Inr mid"
  by (simp add: go_slice_def)

lemma go_index_middle: "go_index (pre @ x # post) (int (length pre)) = Inr x"
  by (simp add: go_index_def)

section \<open>Little-endian integers\<close>

text \<open>
  \<open>binary.NativeEndian\<close> on a little-endian host, which is what the readers are written for:
  they refuse nvlists marked big-endian and read the rest in native order. \<open>le_nat\<close> is the
  value of a run of bytes, \<open>le_bytes\<close> the bytes of a value.
\<close>

primrec le_nat :: "byte list \<Rightarrow> nat" where
  "le_nat [] = 0"
| "le_nat (b # bs) = unat b + 256 * le_nat bs"

primrec le_bytes :: "nat \<Rightarrow> nat \<Rightarrow> byte list" where
  "le_bytes 0 v = []"
| "le_bytes (Suc n) v = word_of_nat (v mod 256) # le_bytes n (v div 256)"

lemma length_le_bytes [simp]: "length (le_bytes n v) = n"
  by (induction n arbitrary: v) simp_all

lemma unat_byte_lt: "unat (b :: byte) < 256"
  using unsigned_less [of b, where ?'a = nat] by simp

lemma le_nat_bound: "le_nat bs < 256 ^ length bs"
proof (induction bs)
  case Nil
  show ?case by simp
next
  case (Cons b bs)
  then have "le_nat bs + 1 \<le> 256 ^ length bs" by simp
  then have "256 * (le_nat bs + 1) \<le> 256 * 256 ^ length bs" by (rule mult_le_mono2)
  with unat_byte_lt [of b] show ?case by simp
qed

lemma le_nat_le_bytes: "le_nat (le_bytes n v) = v mod 256 ^ n"
proof (induction n arbitrary: v)
  case 0
  show ?case by simp
next
  case (Suc n)
  have "unat (word_of_nat (v mod 256) :: byte) = v mod 256"
    by (simp add: unat_of_nat)
  with Suc show ?case
    by (simp add: mod_mult2_eq add.commute)
qed

lemma le_bytes_le_nat: "le_bytes (length bs) (le_nat bs) = bs"
proof (induction bs)
  case Nil
  show ?case by simp
next
  case (Cons b bs)
  have "(unat b + 256 * le_nat bs) mod 256 = unat b"
    and "(unat b + 256 * le_nat bs) div 256 = le_nat bs"
    using unat_byte_lt [of b] by simp_all
  with Cons show ?case by simp
qed

text \<open>
  \<open>binary.NativeEndian.Uint16\<close>, \<open>Uint32\<close> and \<open>Uint64\<close>: the first \<open>n\<close> bytes of the
  slice, and a panic when it is shorter.
\<close>

definition native_uint :: "nat \<Rightarrow> byte list \<Rightarrow> exit + 'a::len word" where
  "native_uint n bs =
     (if length bs < n then Inl (Panic IndexOutOfRange) else Inr (word_of_nat (le_nat (take n bs))))"

text \<open>
  What a fixed-width codec promises, and what follows from it for a run of values. The
  integer codecs of the nvlist format are its instances.
\<close>

primrec chunks :: "nat \<Rightarrow> nat \<Rightarrow> byte list \<Rightarrow> byte list list" where
  "chunks w 0 bs = []"
| "chunks w (Suc n) bs = take w bs # chunks w n (drop w bs)"

lemma length_chunks [simp]: "length (chunks w n bs) = n"
  by (induction n arbitrary: bs) simp_all

locale fixed_width_codec =
  fixes width :: nat
    and enc :: "'v \<Rightarrow> byte list"
    and dec :: "byte list \<Rightarrow> 'v"
  assumes length_enc: "length (enc v) = width"
    and dec_enc: "dec (enc v) = v"
begin

lemma length_concat_enc: "length (concat (map enc vs)) = width * length vs"
  by (induction vs) (simp_all add: length_enc)

lemma decode_run: "map dec (chunks width (length vs) (concat (map enc vs) @ rest)) = vs"
  by (induction vs) (simp_all add: length_enc dec_enc)

lemma enc_inj: "enc v = enc v' \<longleftrightarrow> v = v'"
  by (metis dec_enc)

end

definition word_bytes :: "nat \<Rightarrow> 'a::len word \<Rightarrow> byte list" where
  "word_bytes n w = le_bytes n (unat w)"

definition bytes_word :: "byte list \<Rightarrow> 'a::len word" where
  "bytes_word bs = word_of_nat (le_nat bs)"

lemma length_word_bytes [simp]: "length (word_bytes n w) = n"
  by (simp add: word_bytes_def)

lemma bytes_word_word_bytes:
  "LENGTH('a::len) = 8 * n \<Longrightarrow> bytes_word (word_bytes n (w :: 'a word)) = w"
  using unsigned_less [of w, where ?'a = nat]
  by (simp add: bytes_word_def word_bytes_def le_nat_le_bytes power_mult)

interpretation le16: fixed_width_codec 2 "word_bytes 2 :: 16 word \<Rightarrow> byte list" bytes_word
  by unfold_locales (simp_all add: bytes_word_word_bytes)

interpretation le32: fixed_width_codec 4 "word_bytes 4 :: 32 word \<Rightarrow> byte list" bytes_word
  by unfold_locales (simp_all add: bytes_word_word_bytes)

interpretation le64: fixed_width_codec 8 "word_bytes 8 :: 64 word \<Rightarrow> byte list" bytes_word
  by unfold_locales (simp_all add: bytes_word_word_bytes)

lemma native_uint_bytes_word:
  "length bs = n \<Longrightarrow> native_uint n (bs @ rest) = Inr (bytes_word bs)"
  by (simp add: native_uint_def bytes_word_def)

section \<open>Strings\<close>

text \<open>
  A Go string is a sequence of bytes, and so is a HOL \<open>string\<close>: \<open>char\<close> has 256 values.
  \<open>unsafe.String\<close> over a byte slice is \<open>string_of_bytes\<close>.
\<close>

definition string_of_bytes :: "byte list \<Rightarrow> string" where
  "string_of_bytes bs = map (\<lambda>b. char_of (unat b)) bs"

definition bytes_of_string :: "string \<Rightarrow> byte list" where
  "bytes_of_string s = map (\<lambda>c. word_of_nat (of_char c)) s"

lemma byte_char [simp]: "char_of (unat (word_of_nat (of_char c) :: byte)) = c"
  by (simp add: unat_of_nat)

lemma char_byte [simp]: "word_of_nat (unat (b :: byte) mod 256) = b"
  using unat_byte_lt [of b] by simp

lemma string_of_bytes_of_string [simp]: "string_of_bytes (bytes_of_string s) = s"
  by (simp add: string_of_bytes_def bytes_of_string_def comp_def)

lemma bytes_of_string_of_bytes [simp]: "bytes_of_string (string_of_bytes bs) = bs"
  by (simp add: string_of_bytes_def bytes_of_string_def comp_def map_idI)

lemma length_bytes_of_string [simp]: "length (bytes_of_string s) = length s"
  by (simp add: bytes_of_string_def)

lemma length_string_of_bytes [simp]: "length (string_of_bytes bs) = length bs"
  by (simp add: string_of_bytes_def)

text \<open>Decimal numerals, as \<open>fmt\<close> prints an unsigned integer with \<open>%d\<close> and \<open>%x\<close>.\<close>

definition digit_char :: "nat \<Rightarrow> char" where
  "digit_char d = char_of (if d < 10 then 48 + d else 87 + d)"

fun show_base :: "nat \<Rightarrow> nat \<Rightarrow> string" where
  "show_base b n =
     (if b < 2 \<or> n < b then [digit_char n] else show_base b (n div b) @ [digit_char (n mod b)])"

declare show_base.simps [simp del]

end
