(* ===== verification/NV_Consts.thy ===== *)
theory NV_Consts
  imports Go_Prelude
begin

text \<open>
  zfs/nvlist/consts.go: the type tags of nvpairs. \<open>NVType\<close> is a \<open>uint32\<close>, so a tag
  read from a file can be any 32-bit value; the named ones are numbered by \<open>iota\<close>.
\<close>

type_synonym NVType = "32 word"

definition TypeUnknown :: NVType where
  "TypeUnknown = 0"

definition TypeBoolean :: NVType where
  "TypeBoolean = 1"

definition TypeByte :: NVType where
  "TypeByte = 2"

definition TypeInt16 :: NVType where
  "TypeInt16 = 3"

definition TypeUint16 :: NVType where
  "TypeUint16 = 4"

definition TypeInt32 :: NVType where
  "TypeInt32 = 5"

definition TypeUint32 :: NVType where
  "TypeUint32 = 6"

definition TypeInt64 :: NVType where
  "TypeInt64 = 7"

definition TypeUint64 :: NVType where
  "TypeUint64 = 8"

definition TypeString :: NVType where
  "TypeString = 9"

definition TypeByteArray :: NVType where
  "TypeByteArray = 10"

definition TypeInt16Array :: NVType where
  "TypeInt16Array = 11"

definition TypeUint16Array :: NVType where
  "TypeUint16Array = 12"

definition TypeInt32Array :: NVType where
  "TypeInt32Array = 13"

definition TypeUint32Array :: NVType where
  "TypeUint32Array = 14"

definition TypeInt64Array :: NVType where
  "TypeInt64Array = 15"

definition TypeUint64Array :: NVType where
  "TypeUint64Array = 16"

definition TypeStringArray :: NVType where
  "TypeStringArray = 17"

definition TypeHrtime :: NVType where
  "TypeHrtime = 18"

definition TypeNvlist :: NVType where
  "TypeNvlist = 19"

definition TypeNvlistArray :: NVType where
  "TypeNvlistArray = 20"

definition TypeBooleanValue :: NVType where
  "TypeBooleanValue = 21"

definition TypeInt8 :: NVType where
  "TypeInt8 = 22"

definition TypeUint8 :: NVType where
  "TypeUint8 = 23"

definition TypeBooleanArray :: NVType where
  "TypeBooleanArray = 24"

definition TypeInt8Array :: NVType where
  "TypeInt8Array = 25"

definition TypeUint8Array :: NVType where
  "TypeUint8Array = 26"

definition TypeDouble :: NVType where
  "TypeDouble = 27"

lemmas NVType_defs =
  TypeUnknown_def TypeBoolean_def TypeByte_def TypeInt16_def TypeUint16_def TypeInt32_def
  TypeUint32_def TypeInt64_def TypeUint64_def TypeString_def TypeByteArray_def
  TypeInt16Array_def TypeUint16Array_def TypeInt32Array_def TypeUint32Array_def
  TypeInt64Array_def TypeUint64Array_def TypeStringArray_def TypeHrtime_def TypeNvlist_def
  TypeNvlistArray_def TypeBooleanValue_def TypeInt8_def TypeUint8_def TypeBooleanArray_def
  TypeInt8Array_def TypeUint8Array_def TypeDouble_def

text \<open>\<open>NVType.String\<close>, in the order of the source's \<open>switch\<close>.\<close>

definition NVType_String :: "NVType \<Rightarrow> string" where
  "NVType_String t =
    (if t = TypeBoolean then ''boolean''
     else if t = TypeByte then ''byte''
     else if t = TypeInt16 then ''int16''
     else if t = TypeUint16 then ''uint16''
     else if t = TypeInt32 then ''int32''
     else if t = TypeUint32 then ''uint32''
     else if t = TypeInt64 then ''int64''
     else if t = TypeUint64 then ''uint64''
     else if t = TypeString then ''string''
     else if t = TypeByteArray then ''bytearray''
     else if t = TypeInt16Array then ''int16array''
     else if t = TypeUint16Array then ''uint16array''
     else if t = TypeInt32Array then ''int32array''
     else if t = TypeUint32Array then ''uint32array''
     else if t = TypeInt64Array then ''int64array''
     else if t = TypeUint64Array then ''uint64array''
     else if t = TypeStringArray then ''stringarray''
     else if t = TypeHrtime then ''hrtime''
     else if t = TypeNvlist then ''nvlist''
     else if t = TypeNvlistArray then ''nvlistarray''
     else if t = TypeBooleanValue then ''booleanvalue''
     else if t = TypeInt8 then ''int8''
     else if t = TypeUint8 then ''uint8''
     else if t = TypeBooleanArray then ''booleanarray''
     else if t = TypeInt8Array then ''int8array''
     else if t = TypeUint8Array then ''uint8array''
     else if t = TypeDouble then ''double''
     else ''unknown'')"

text \<open>The tags the constants name.\<close>

definition known_types :: "NVType list" where
  "known_types =
    [TypeUnknown, TypeBoolean, TypeByte, TypeInt16, TypeUint16, TypeInt32, TypeUint32,
     TypeInt64, TypeUint64, TypeString, TypeByteArray, TypeInt16Array, TypeUint16Array,
     TypeInt32Array, TypeUint32Array, TypeInt64Array, TypeUint64Array, TypeStringArray,
     TypeHrtime, TypeNvlist, TypeNvlistArray, TypeBooleanValue, TypeInt8, TypeUint8,
     TypeBooleanArray, TypeInt8Array, TypeUint8Array, TypeDouble]"

lemma known_types_upt: "known_types = map word_of_nat [0..<28]"
  by (simp add: known_types_def NVType_defs upt_conv_Cons)

lemma known_types_iff: "t \<in> set known_types \<longleftrightarrow> unat t < 28"
proof -
  have "unat t < 28 \<Longrightarrow> t \<in> word_of_nat ` {0..<28}"
    by (rule image_eqI [of _ _ "unat t"]) simp_all
  moreover have "unat (word_of_nat n :: NVType) < 28" if "n < 28" for n
    using that by (simp add: unat_of_nat)
  ultimately show ?thesis by (auto simp: known_types_upt)
qed

lemma distinct_known_types: "distinct known_types"
  by (simp add: known_types_def NVType_defs)

lemma NVType_String_inj_known:
  "distinct (map NVType_String known_types)"
  by (simp add: known_types_def NVType_String_def NVType_defs)

lemma NVType_String_unknown: "t \<notin> set known_types \<Longrightarrow> NVType_String t = ''unknown''"
  by (simp add: known_types_def NVType_String_def)

end
