(* ===== verification/Token_Loop.thy ===== *)
theory Token_Loop
  imports Go_Prelude
begin

text \<open>
  The loop with which every consumer of a reader is written, over nvlists and over kstats:

  \<^verbatim>\<open>
  for {
      token, err := r.Next()
      if err != nil {
          if err == io.EOF { break }
          return err
      }
      ... body ...
  }
  \<close>

  \<open>forNext\<close> is that loop over any \<open>Next\<close>. Its accumulator is what the body assigns
  to (a vdev, a property record); the body may call further procedures on the reader, and
  recursive consumers call themselves there. The loop and the recursion are cut off by a bound
  on the number of iterations; the locale below shows, from the one law that \<open>Next\<close> consumes
  input, that any bound above the remaining input is never exhausted and never observed.
\<close>

fun forNext ::
  "('s, 't) proc \<Rightarrow> nat \<Rightarrow> (nat \<Rightarrow> 't \<Rightarrow> 'c \<Rightarrow> ('s, 'c) proc) \<Rightarrow> 'c \<Rightarrow> ('s, 'c) proc" where
  "forNext nxt 0 body c s = (Inl OutOfFuel, s)"
| "forNext nxt (Suc n) body c s =
     (case nxt s of
        (Inl e, s') \<Rightarrow> if e = Err EOF then (Inr c, s') else (Inl e, s')
      | (Inr t, s') \<Rightarrow> bindE (body n t c) (forNext nxt n body) s')"

lemma forNext_cong [fundef_cong]:
  assumes "nxt = nxt'" and "n = n'"
    and "\<And>k t c. k < n' \<Longrightarrow> body k t c = body' k t c"
  shows "forNext nxt n body = forNext nxt' n' body'"
proof -
  have "forNext nxt n body c s = forNext nxt n body' c s" for c s
    using assms(2,3)
  proof (induction n arbitrary: n' c s)
    case 0
    show ?case by simp
  next
    case (Suc n)
    have "forNext nxt n body c s = forNext nxt n body' c s" for c s
      by (rule Suc.IH [OF refl]) (use Suc.prems in simp)
    moreover have "body n = body' n"
      using Suc.prems by (intro ext) simp
    ultimately have "bindE (body n t c) (forNext nxt n body) s' =
        bindE (body' n t c) (forNext nxt n body') s'" for t s'
      by (intro bindE_cong) simp_all
    then show ?case by (simp split: prod.split sum.split)
  qed
  then show ?thesis using assms(1,2) by (intro ext) simp
qed

text \<open>The loop keeps the contracts that \<open>Next\<close> and its body keep.\<close>

lemma safe_forNext:
  assumes nxt: "safe I nxt" and eof: "\<And>s s'. I s \<Longrightarrow> nxt s = (Inl (Err EOF), s') \<Longrightarrow> I s'"
    and body: "\<And>k t c. k < n \<Longrightarrow> safe I (body k t c)"
  shows "safe I (forNext nxt n body c)"
  using body
proof (induction n arbitrary: c)
  case 0
  show ?case by (simp add: safe_def)
next
  case (Suc n)
  have rest: "safe I (bindE (body n t c) (forNext nxt n body))" for t c
    by (intro safe_bindE Suc) auto
  show ?case
  proof (rule safeI)
    fix s p assume s: "I s"
    show "fst (forNext nxt (Suc n) body c s) \<noteq> Inl (Panic p)"
    proof (cases "nxt s")
      case (Pair x s1)
      show ?thesis
      proof (cases x)
        case (Inl e)
        with Pair safeD [OF nxt s, of p] show ?thesis by simp
      next
        case (Inr t)
        with Pair safeD_inv [OF nxt s] have "I s1" by simp
        with Pair Inr safeD [OF rest] show ?thesis by simp
      qed
    qed
  next
    fix s a s' assume s: "I s" and run: "forNext nxt (Suc n) body c s = (Inr a, s')"
    show "I s'"
    proof (cases "nxt s")
      case (Pair x s1)
      show ?thesis
      proof (cases x)
        case (Inl e)
        with Pair run eof [OF s, of s1] show ?thesis by (simp split: if_splits)
      next
        case (Inr t)
        with Pair safeD_inv [OF nxt s] have "I s1" by simp
        with Pair Inr run safeD_inv [OF rest] show ?thesis by simp
      qed
    qed
  qed
qed

lemma moves_forNext:
  assumes R: "reflp R" "transp R" and nxt: "moves R nxt"
    and body: "\<And>k t c. k < n \<Longrightarrow> moves R (body k t c)"
  shows "moves R (forNext nxt n body c)"
  using body
proof (induction n arbitrary: c)
  case 0
  show ?case using R by (simp add: moves_def reflp_def)
next
  case (Suc n)
  have rest: "moves R (bindE (body n t c) (forNext nxt n body))" for t c
    by (intro moves_bindE R Suc) auto
  have "R s (snd (forNext nxt (Suc n) body c s))" for s
  proof (cases "nxt s")
    case (Pair x s1)
    with nxt have "R s s1" by (rule movesD_eq)
    with Pair R movesD [OF rest] show ?thesis
      by (auto split: sum.split dest: transpD)
  qed
  then show ?case by (simp add: moves_def)
qed

section \<open>Bounds that are large enough\<close>

text \<open>
  \<open>settled rem m n s\<close>: with bound \<open>n\<close> the procedure \<open>m\<close>, started in \<open>s\<close>,
  neither exhausts the bound nor gives input back, and a larger bound changes nothing.
\<close>

definition settled :: "('s \<Rightarrow> nat) \<Rightarrow> (nat \<Rightarrow> ('s, 'a) proc) \<Rightarrow> nat \<Rightarrow> 's \<Rightarrow> bool" where
  "settled rem m n s \<longleftrightarrow>
     fst (m n s) \<noteq> Inl OutOfFuel \<and>
     (\<forall>a s'. m n s = (Inr a, s') \<longrightarrow> rem s' \<le> rem s) \<and>
     (\<forall>n'\<ge>n. m n' s = m n s)"

text \<open>A bound above the remaining input settles the procedure; then the bound can be dropped.\<close>

definition bounded_by :: "('s \<Rightarrow> nat) \<Rightarrow> (nat \<Rightarrow> ('s, 'a) proc) \<Rightarrow> bool" where
  "bounded_by rem m \<longleftrightarrow> (\<forall>n s. rem s < n \<longrightarrow> settled rem m n s)"

definition unbounded :: "('s \<Rightarrow> nat) \<Rightarrow> (nat \<Rightarrow> ('s, 'a) proc) \<Rightarrow> ('s, 'a) proc" where
  "unbounded rem m s = m (Suc (rem s)) s"

lemma settledI:
  assumes "fst (m n s) \<noteq> Inl OutOfFuel"
    and "\<And>a s'. m n s = (Inr a, s') \<Longrightarrow> rem s' \<le> rem s"
    and "\<And>n'. n \<le> n' \<Longrightarrow> m n' s = m n s"
  shows "settled rem m n s"
  unfolding settled_def using assms by blast

lemma settledD:
  assumes "settled rem m n s"
  shows "fst (m n s) \<noteq> Inl OutOfFuel" and "n \<le> n' \<Longrightarrow> m n' s = m n s"
    and "m n s = (Inr a, s') \<Longrightarrow> rem s' \<le> rem s"
  using assms unfolding settled_def by blast+

lemma settled_const:
  assumes "fst (m s) \<noteq> Inl OutOfFuel" and "\<And>a s'. m s = (Inr a, s') \<Longrightarrow> rem s' \<le> rem s"
  shows "settled rem (\<lambda>_. m) n s"
  using assms by (intro settledI) simp_all

lemma settled_ret [simp]: "settled rem (\<lambda>n. ret a) n s"
  by (rule settled_const) (simp_all add: proc_simps)

lemma settled_fail [simp]: "settled rem (\<lambda>n. fail e) n s"
  by (rule settled_const) (simp_all add: proc_simps)

lemma settled_gets [simp]: "settled rem (\<lambda>n. gets f) n s"
  by (rule settled_const) (simp_all add: proc_simps)

lemma settled_if:
  "settled rem m n s \<Longrightarrow> settled rem m' n s \<Longrightarrow> settled rem (\<lambda>k. if b then m k else m' k) n s"
  by (cases b) simp_all

lemma settled_bindE:
  assumes m: "settled rem m n s"
    and f: "\<And>a s'. m n s = (Inr a, s') \<Longrightarrow> rem s' \<le> rem s \<Longrightarrow> settled rem (\<lambda>n. f n a) n s'"
  shows "settled rem (\<lambda>n. bindE (m n) (f n)) n s"
proof (cases "m n s")
  case (Pair r s1)
  show ?thesis
  proof (cases r)
    case (Inl e)
    with Pair have run: "m n s = (Inl e, s1)" by simp
    show ?thesis
    proof (rule settledI)
      show "fst (bindE (m n) (f n) s) \<noteq> Inl OutOfFuel"
        using settledD(1) [OF m] run by (simp add: bindE_def)
      show "rem s' \<le> rem s" if "bindE (m n) (f n) s = (Inr b, s')" for b s'
        using that run by (simp add: bindE_def)
      show "bindE (m n') (f n') s = bindE (m n) (f n) s" if "n \<le> n'" for n'
        using settledD(2) [OF m that] run by (simp add: bindE_def)
    qed
  next
    case (Inr a)
    with Pair have run: "m n s = (Inr a, s1)" by simp
    have le: "rem s1 \<le> rem s" using settledD(3) [OF m run] .
    have f1: "settled rem (\<lambda>n. f n a) n s1" using f [OF run le] .
    have more: "m n' s = (Inr a, s1)" if "n \<le> n'" for n'
      using settledD(2) [OF m that] run by simp
    show ?thesis
    proof (rule settledI)
      show "fst (bindE (m n) (f n) s) \<noteq> Inl OutOfFuel"
        using settledD(1) [OF f1] run by (simp add: bindE_def)
      show "rem s' \<le> rem s" if "bindE (m n) (f n) s = (Inr b, s')" for b s'
        using settledD(3) [OF f1, of b s'] that run le by (simp add: bindE_def)
      show "bindE (m n') (f n') s = bindE (m n) (f n) s" if "n \<le> n'" for n'
        using that more run settledD(2) [OF f1 that] by (simp add: bindE_def)
    qed
  qed
qed

lemma settled_repeatE:
  assumes "\<And>s'. rem s' \<le> rem s \<Longrightarrow> settled rem m n s'"
  shows "settled rem (\<lambda>n. repeatE k (m n)) n s"
  using assms
proof (induction k arbitrary: s)
  case 0
  show ?case by (intro settledI) (simp_all add: ret_def)
next
  case (Suc k)
  have rest: "settled rem (\<lambda>n. repeatE k (m n)) n s'" if "rem s' \<le> rem s" for s'
    by (rule Suc.IH, rule Suc.prems) (use that in simp)
  have "settled rem (\<lambda>n. bindE (m n) (\<lambda>_. repeatE k (m n))) n s"
    by (rule settled_bindE) (simp_all add: rest Suc.prems)
  then show ?case by simp
qed

lemma settled_collectE:
  assumes "\<And>s'. rem s' \<le> rem s \<Longrightarrow> settled rem m n s'"
  shows "settled rem (\<lambda>n. collectE k (m n)) n s"
  using assms
proof (induction k arbitrary: s)
  case 0
  show ?case by (intro settledI) (simp_all add: ret_def)
next
  case (Suc k)
  have rest: "settled rem (\<lambda>n. collectE k (m n)) n s'" if "rem s' \<le> rem s" for s'
    by (rule Suc.IH, rule Suc.prems) (use that in simp)
  have "settled rem (\<lambda>n. bindE (collectE k (m n)) (\<lambda>xs. ret (x # xs))) n s'"
    if "rem s' \<le> rem s" for x s'
    by (rule settled_bindE) (simp_all add: rest that)
  then have "settled rem (\<lambda>n. bindE (m n) (\<lambda>x. bindE (collectE k (m n)) (\<lambda>xs. ret (x # xs)))) n s"
    by (rule settled_bindE [rotated]) (simp_all add: Suc.prems)
  then show ?case by simp
qed

lemma bounded_byD: "bounded_by rem m \<Longrightarrow> rem s < n \<Longrightarrow> settled rem m n s"
  by (simp add: bounded_by_def)

lemma unbounded_eq:
  assumes "bounded_by rem m" and "rem s < n"
  shows "m n s = unbounded rem m s"
  using settledD(2) [OF bounded_byD [OF assms(1), of s "Suc (rem s)"], of n] assms(2)
  by (simp add: unbounded_def)

lemma unbounded_terminates: "bounded_by rem m \<Longrightarrow> unbounded rem m s \<noteq> (Inl OutOfFuel, s')"
  using settledD(1) [OF bounded_byD, of rem m s "Suc (rem s)"] by (auto simp: unbounded_def)

lemma unbounded_consumes:
  "bounded_by rem m \<Longrightarrow> unbounded rem m s = (Inr a, s') \<Longrightarrow> rem s' \<le> rem s"
  using settledD(3) [OF bounded_byD, of rem m s "Suc (rem s)"] by (simp add: unbounded_def)

lemma repeatE_unbounded:
  assumes "bounded_by rem m" and "rem s < n"
  shows "repeatE k (m n) s = repeatE k (unbounded rem m) s"
  using assms(2)
proof (induction k arbitrary: s)
  case (Suc k)
  have run: "m n s = unbounded rem m s" using unbounded_eq [OF assms(1) Suc.prems] .
  have "repeatE k (m n) s' = repeatE k (unbounded rem m) s'"
    if "unbounded rem m s = (Inr (), s')" for s'
    using unbounded_consumes [OF assms(1) that] Suc by simp
  with run show ?case by (auto intro!: bindE_cong)
qed simp

lemma collectE_unbounded:
  assumes "bounded_by rem m" and "rem s < n"
  shows "collectE k (m n) s = collectE k (unbounded rem m) s"
  using assms(2)
proof (induction k arbitrary: s)
  case (Suc k)
  have run: "m n s = unbounded rem m s" using unbounded_eq [OF assms(1) Suc.prems] .
  have "collectE k (m n) s' = collectE k (unbounded rem m) s'"
    if "unbounded rem m s = (Inr a, s')" for a s'
    using unbounded_consumes [OF assms(1) that] Suc by simp
  with run show ?case by (auto intro!: bindE_cong)
qed simp

section \<open>Readers\<close>

text \<open>
  The interface between a reader and its consumers: \<open>Next\<close> consumes some input whenever it
  delivers a token, consumes none it did not have when it reports the end, and has no bound of
  its own to exhaust. The clients' lemmas are below; nvlist and kstat readers provide it.
\<close>

locale token_stream =
  fixes nxt :: "('s, 't) proc"
    and rem :: "'s \<Rightarrow> nat"
  assumes next_consumes: "nxt s = (Inr t, s') \<Longrightarrow> rem s' < rem s"
    and next_EOF: "nxt s = (Inl (Err EOF), s') \<Longrightarrow> rem s' \<le> rem s"
    and next_total: "nxt s \<noteq> (Inl OutOfFuel, s')"
begin

lemma settled_forNext:
  assumes "rem s < n"
    and body: "\<And>k t c s'. k < n \<Longrightarrow> rem s' < k \<Longrightarrow> settled rem (\<lambda>k. body k t c) k s'"
  shows "settled rem (\<lambda>n. forNext nxt n body c) n s"
  using assms
proof (induction n arbitrary: c s)
  case 0
  then show ?case by simp
next
  case (Suc n)
  obtain r s1 where run: "nxt s = (r, s1)" by (cases "nxt s")
  show ?case
  proof (cases r)
    case (Inl e)
    have ne: "e \<noteq> OutOfFuel" using run Inl next_total by auto
    show ?thesis
    proof (rule settledI)
      show "fst (forNext nxt (Suc n) body c s) \<noteq> Inl OutOfFuel"
        using run Inl ne by simp
      show "rem s' \<le> rem s" if "forNext nxt (Suc n) body c s = (Inr a, s')" for a s'
        using that run Inl next_EOF by (auto split: if_splits)
      show "forNext nxt n' body c s = forNext nxt (Suc n) body c s" if "Suc n \<le> n'" for n'
        using that run Inl by (cases n') auto
    qed
  next
    case (Inr t)
    have lt: "rem s1 < rem s" using run Inr next_consumes by auto
    with Suc.prems(1) have rem1: "rem s1 < n" by simp
    have "settled rem (\<lambda>n. bindE (body n t c) (forNext nxt n body)) n s1"
    proof (rule settled_bindE)
      show "settled rem (\<lambda>k. body k t c) n s1" using Suc.prems(2) rem1 by simp
      show "settled rem (\<lambda>n. forNext nxt n body c') n s2" if "rem s2 \<le> rem s1" for c' s2
        by (rule Suc.IH) (use that rem1 Suc.prems(2) in auto)
    qed
    then have main: "settled rem (\<lambda>n. bindE (body n t c) (forNext nxt n body)) n s1" .
    have step: "forNext nxt (Suc k) body c s = bindE (body k t c) (forNext nxt k body) s1" for k
      using run Inr by simp
    show ?thesis
    proof (rule settledI)
      show "fst (forNext nxt (Suc n) body c s) \<noteq> Inl OutOfFuel"
        unfolding step by (rule settledD(1) [OF main])
      show "rem s' \<le> rem s" if "forNext nxt (Suc n) body c s = (Inr a, s')" for a s'
        using settledD(3) [OF main that [unfolded step]] lt by simp
      show "forNext nxt n' body c s = forNext nxt (Suc n) body c s" if "Suc n \<le> n'" for n'
      proof -
        obtain k where k: "n' = Suc k" and "n \<le> k" using \<open>Suc n \<le> n'\<close> by (cases n') auto
        then show ?thesis using settledD(2) [OF main \<open>n \<le> k\<close>] by (simp only: step k)
      qed
    qed
  qed
qed

text \<open>
  The loop without its bound: when \<open>step\<close> is the body and \<open>loop\<close> the loop, each run with a
  bound that is large enough where it starts, they satisfy the equation of the source.
\<close>

lemma loop_unfold:
  assumes body: "\<And>k t c s'. rem s' < k \<Longrightarrow> settled rem (\<lambda>k. body k t c) k s'"
    and step: "\<And>t c s. body (Suc (rem s)) t c s = step t c s"
    and loop: "\<And>c s. forNext nxt (Suc (rem s)) body c s = loop c s"
  shows "loop c s =
     (case nxt s of
        (Inl e, s') \<Rightarrow> if e = Err EOF then (Inr c, s') else (Inl e, s')
      | (Inr t, s') \<Rightarrow> bindE (step t c) loop s')"
proof (cases "nxt s")
  case (Pair r s1)
  show ?thesis
  proof (cases r)
    case (Inl e)
    with Pair loop [of s c] show ?thesis by simp
  next
    case (Inr t)
    let ?k = "rem s"
    have lt: "rem s1 < ?k" using Pair Inr next_consumes by simp
    have b: "body ?k t c s1 = step t c s1"
      using settledD(2) [OF body [of s1 "Suc (rem s1)" t c], of ?k] lt step by simp
    have "forNext nxt ?k body c' s2 = loop c' s2" if "step t c s1 = (Inr c', s2)" for c' s2
    proof -
      have "rem s2 \<le> rem s1"
        using settledD(3) [OF body [of s1 "Suc (rem s1)" t c]] that step by simp
      with lt have "Suc (rem s2) \<le> ?k" by simp
      moreover have "settled rem (\<lambda>n. forNext nxt n body c') (Suc (rem s2)) s2"
        by (rule settled_forNext) (auto intro: body)
      ultimately show ?thesis using settledD(2) loop by metis
    qed
    with b have "bindE (body ?k t c) (forNext nxt ?k body) s1 = bindE (step t c) loop s1"
      by (intro bindE_cong) auto
    with Pair Inr loop [of s c] show ?thesis by simp
  qed
qed

text \<open>
  A body that needs no bound of its own and may fail to end, but gives no input back: the bound of
  the loop around it is not observed either, and the loop satisfies the equation of the source.
\<close>

lemma forNext_enough:
  assumes "rem s < n" and "rem s < n'"
    and body: "\<And>t c s' c' s''. body t c s' = (Inr c', s'') \<Longrightarrow> rem s'' \<le> rem s'"
  shows "forNext nxt n (\<lambda>_. body) c s = forNext nxt n' (\<lambda>_. body) c s"
  using assms(1,2)
proof (induction n arbitrary: n' c s)
  case (Suc n)
  obtain m where m: "n' = Suc m" using Suc.prems(2) by (cases n') auto
  have "bindE (body t c) (forNext nxt n (\<lambda>_. body)) s1 = bindE (body t c) (forNext nxt m (\<lambda>_. body)) s1"
    if "nxt s = (Inr t, s1)" for t s1
  proof (rule bindE_cong)
    fix c' s2 assume "body t c s1 = (Inr c', s2)"
    with body have "rem s2 \<le> rem s1" by blast
    with next_consumes [OF that] Suc.prems m
    show "forNext nxt n (\<lambda>_. body) c' s2 = forNext nxt m (\<lambda>_. body) c' s2"
      by (intro Suc.IH) simp_all
  qed simp_all
  then show ?case by (simp add: m split: prod.split sum.split)
qed simp

lemma loop_unfold_plain:
  assumes body: "\<And>t c s c' s'. body t c s = (Inr c', s') \<Longrightarrow> rem s' \<le> rem s"
    and loop: "\<And>c s. loop c s = forNext nxt (Suc (rem s)) (\<lambda>_. body) c s"
  shows "loop c s =
     (case nxt s of
        (Inl e, s') \<Rightarrow> if e = Err EOF then (Inr c, s') else (Inl e, s')
      | (Inr t, s') \<Rightarrow> bindE (body t c) loop s')"
proof -
  have "bindE (body t c) (forNext nxt (rem s) (\<lambda>_. body)) s1 = bindE (body t c) loop s1"
    if "nxt s = (Inr t, s1)" for t s1
  proof (rule bindE_cong)
    fix c' s2 assume "body t c s1 = (Inr c', s2)"
    with body have "rem s2 \<le> rem s1" by blast
    with next_consumes [OF that] show "forNext nxt (rem s) (\<lambda>_. body) c' s2 = loop c' s2"
      unfolding loop by (intro forNext_enough body) simp_all
  qed simp_all
  then show ?thesis by (simp add: loop [of c s] split: prod.split sum.split)
qed

end

end
