(* ===== verification/NV_Reader.thy ===== *)
theory NV_Reader
  imports NV_Consts Token_Loop
begin

text \<open>
  zfs/nvlist/decode.go, the token level: the reader's state, the primitive reads, the stream
  header and \<open>Next\<close>, which positions the reader on the next nvpair. Shown here: \<open>Next\<close>
  never panics on any input once the header has been read, it consumes input whenever it
  succeeds, it only ever moves forward inside the buffer, and what it reports about a pair is
  determined by the pair's bytes.

  Go's \<open>int\<close> is 64 bits wide. Positions start at 0 and only grow, so they are \<open>nat\<close>; a
  pair's data length can come out negative on malformed input, so it is an \<open>int\<close>. A signed
  32-bit or 16-bit field is a word read with \<open>sint\<close>.
\<close>

section \<open>The reader\<close>

definition EncodingNative :: byte where
  "EncodingNative = 0x00"

definition EncodingXDR :: byte where
  "EncodingXDR = 0x01"

definition bigEndian :: byte where
  "bigEndian = 0x00"

definition littleEndian :: byte where
  "littleEndian = 0x01"

record NVListReader =
  Data :: "byte list"
  pos :: nat
  encoding :: byte
  alignment :: nat
  flags :: "32 word"
  version :: "32 word"
  nameBytes :: "byte list"
  numElements :: nat
  dataPos :: nat
  dataLen :: int
  currentToken :: NVType

text \<open>\<open>NVListReader{Data: data}\<close>: every other field has its zero value.\<close>

definition new_reader :: "byte list \<Rightarrow> NVListReader" where
  "new_reader data =
     \<lparr>Data = data, pos = 0, encoding = 0, alignment = 0, flags = 0, version = 0, nameBytes = [],
      numElements = 0, dataPos = 0, dataLen = 0, currentToken = 0\<rparr>"

section \<open>Primitive reads\<close>

definition readByte :: "(NVListReader, byte) proc" where
  "readByte r =
     (if pos r < length (Data r) then (Inr (Data r ! pos r), r\<lparr>pos := pos r + 1\<rparr>)
      else (Inl (Err ErrInvalidData), r))"

definition skipN :: "nat \<Rightarrow> (NVListReader, unit) proc" where
  "skipN n = modify (\<lambda>r. r\<lparr>pos := pos r + n\<rparr>)"

text \<open>
  \<open>readInt32\<close>, \<open>readInt16\<close> and \<open>readUint32\<close> have one body, over the width. The
  guard refuses a field that ends exactly at the end of the buffer.
\<close>

definition read_native :: "nat \<Rightarrow> (NVListReader, 'a::len word) proc" where
  "read_native n r =
     (if pos r + n \<ge> length (Data r) then (Inl (Err ErrInvalidData), r)
      else (case native_uint n (drop (pos r) (Data r)) of
              Inl e \<Rightarrow> (Inl e, r)
            | Inr i \<Rightarrow> (Inr i, r\<lparr>pos := pos r + n\<rparr>)))"

definition readInt32 :: "(NVListReader, 32 word) proc" where
  "readInt32 = read_native 4"

definition readInt16 :: "(NVListReader, 16 word) proc" where
  "readInt16 = read_native 2"

definition readUint32 :: "(NVListReader, 32 word) proc" where
  "readUint32 = read_native 4"

definition readBytes :: "nat \<Rightarrow> (NVListReader, byte list) proc" where
  "readBytes n r =
     (if pos r + n \<ge> length (Data r) then (Inl (Err ErrInvalidData), r)
      else (case go_slice (Data r) (int (pos r)) (int (pos r + n)) of
              Inl e \<Rightarrow> (Inl e, r)
            | Inr b \<Rightarrow> (Inr b, r\<lparr>pos := pos r + n\<rparr>)))"

section \<open>The stream header\<close>

text \<open>\<open>r.field, err = r.read()\<close>: a read that fails returns 0 and so clears the field.\<close>

definition assign_read ::
  "(('a::zero \<Rightarrow> 'a) \<Rightarrow> NVListReader \<Rightarrow> NVListReader) \<Rightarrow> (NVListReader, 'a) proc \<Rightarrow> (NVListReader, unit) proc" where
  "assign_read upd m r =
     (case m r of (Inl e, r') \<Rightarrow> (Inl e, upd (\<lambda>_. 0) r') | (Inr v, r') \<Rightarrow> (Inr (), upd (\<lambda>_. v) r'))"

definition readNvHeader :: "(NVListReader, unit) proc" where
  "readNvHeader =
     bindE readByte (\<lambda>enc.
     bindE (if enc = EncodingNative then modify (\<lambda>r. r\<lparr>encoding := EncodingNative, alignment := 8\<rparr>)
            else if enc = EncodingXDR then modify (\<lambda>r. r\<lparr>encoding := EncodingXDR, alignment := 4\<rparr>)
            else fail ErrInvalidEncoding) (\<lambda>_.
     bindE readByte (\<lambda>endiness.
     if endiness = bigEndian then fail (Errorf ''conversion from big endian not yet supported'')
     else if endiness = littleEndian then
       bindE (skipN 2) (\<lambda>_.
       bindE (assign_read version_update readInt32) (\<lambda>_.
       assign_read flags_update readUint32))
     else fail ErrInvalidEndianess)))"

section \<open>The next pair\<close>

text \<open>
  Rounding the position up to the alignment, relative to the start of the pair. \<open>%\<close> panics
  on a zero alignment, which a reader whose header was never read would have.
\<close>

definition alignPos :: "nat \<Rightarrow> (NVListReader, unit) proc" where
  "alignPos startPos r =
     (if alignment r = 0 then (Inl (Panic DivideByZero), r)
      else if (pos r - startPos) mod alignment r \<noteq> 0
      then (Inr (), r\<lparr>pos := pos r + (alignment r - (pos r - startPos) mod alignment r)\<rparr>)
      else (Inr (), r))"

text \<open>
  Entering the pair's data: \<open>dataPos\<close>, \<open>dataLen\<close>, the token, and the position of the
  next pair; for a string array the data starts after the space for the pointers.
\<close>

definition enterData :: "nat \<Rightarrow> NVType \<Rightarrow> NVListReader \<Rightarrow> NVListReader" where
  "enterData nextNVPairPos nvType r =
     r\<lparr>dataPos := pos r + (if nvType = TypeStringArray then 8 * numElements r else 0),
       dataLen := int nextNVPairPos - int (pos r),
       pos := nextNVPairPos,
       currentToken := nvType\<rparr>"

text \<open>
  \<open>Next\<close> after the header, in three parts: the pair's size with its checks, the fixed fields
  and the name, and the pair as a whole.
\<close>

definition readSize :: "(NVListReader, nat) proc" where
  "readSize =
     bindE readInt32 (\<lambda>size.
     if sint size < 0 then fail ErrInvalidData
     else if size = 0 then fail EOF
     else bindE (gets (\<lambda>r. pos r + unat size \<ge> length (Data r))) (\<lambda>beyond.
     if beyond then fail ErrInvalidData
     else ret (unat size)))"

definition readPairFields :: "(NVListReader, NVType) proc" where
  "readPairFields =
     bindE (gets encoding) (\<lambda>enc.
     bindE (if enc = EncodingXDR then skipN 4 else ret ()) (\<lambda>_.
     bindE readInt16 (\<lambda>nameSize.
     if sint nameSize \<le> 0 then fail ErrInvalidData
     else bindE readInt16 (\<lambda>_.
     bindE readInt32 (\<lambda>n.
     if sint n < 0 \<or> sint n > 65535 then fail ErrInvalidData
     else bindE (modify (\<lambda>r. r\<lparr>numElements := nat (sint n)\<rparr>)) (\<lambda>_.
     bindE readUint32 (\<lambda>nvType.
     bindE (readBytes (nat (sint nameSize))) (\<lambda>name.
     bindE (modify (\<lambda>r. r\<lparr>nameBytes := butlast name\<rparr>)) (\<lambda>_.
     ret nvType)))))))))"

definition nextPair :: "(NVListReader, NVType) proc" where
  "nextPair =
     bindE (gets pos) (\<lambda>startPos.
     bindE readSize (\<lambda>size.
     bindE readPairFields (\<lambda>nvType.
     bindE (alignPos startPos) (\<lambda>_.
     bindE (modify (enterData (startPos + size) nvType)) (\<lambda>_.
     ret nvType)))))"

definition Next :: "(NVListReader, NVType) proc" where
  "Next =
     bindE (gets pos) (\<lambda>p.
     bindE (if p = 0 then readNvHeader else ret ()) (\<lambda>_.
     nextPair))"

definition Token :: "NVListReader \<Rightarrow> NVType" where
  "Token r = currentToken r"

definition NameBytes :: "NVListReader \<Rightarrow> byte list" where
  "NameBytes r = nameBytes r"

definition Name :: "NVListReader \<Rightarrow> string" where
  "Name r = string_of_bytes (nameBytes r)"

definition NumElements :: "NVListReader \<Rightarrow> nat" where
  "NumElements r = numElements r"

section \<open>Forward movement\<close>

definition advances :: "NVListReader \<Rightarrow> NVListReader \<Rightarrow> bool" where
  "advances r r' \<longleftrightarrow> Data r' = Data r \<and> pos r \<le> pos r'"

lemma reflp_advances [contract_intros, simp]: "reflp advances"
  by (auto simp: reflp_def advances_def)

lemma transp_advances [contract_intros, simp]: "transp advances"
  by (auto simp: transp_def advances_def)

lemma moves_readByte [contract_intros]: "moves advances readByte"
  by (auto simp: moves_def readByte_def advances_def)

lemma moves_read_native: "moves advances (read_native n)"
  by (auto simp: moves_def read_native_def advances_def split: sum.splits)

lemma moves_reads [contract_intros]:
  "moves advances readInt32" "moves advances readInt16" "moves advances readUint32"
  by (simp_all add: readInt32_def readInt16_def readUint32_def moves_read_native)

lemma moves_readBytes [contract_intros]: "moves advances (readBytes n)"
  by (auto simp: moves_def readBytes_def advances_def split: sum.splits)

lemma moves_skipN [contract_intros]: "moves advances (skipN n)"
  by (simp add: skipN_def moves_modify advances_def)

lemma moves_alignPos [contract_intros]: "moves advances (alignPos n)"
proof -
  have "pos s \<le> pos s + alignment s - (pos s - n) mod alignment s" if "0 < alignment s" for s
    using mod_less_divisor [OF that, of "pos s - n"] by simp
  then show ?thesis by (auto simp: moves_def alignPos_def advances_def)
qed

lemma moves_assign_read [contract_intros]:
  assumes "moves advances m" and "\<And>f r. Data (upd f r) = Data r \<and> pos (upd f r) = pos r"
  shows "moves advances (assign_read upd m)"
proof -
  have "advances r (snd (assign_read upd m r))" for r
    using movesD [OF assms(1), of r] assms(2)
    by (auto simp: assign_read_def advances_def split: prod.split sum.split)
  then show ?thesis by (simp add: moves_def)
qed

lemma moves_readNvHeader [contract_intros]: "moves advances readNvHeader"
  unfolding readNvHeader_def
  by (intro contract_intros moves_modify) (auto simp: advances_def)

text \<open>Exact inversions of the primitive reads.\<close>

named_theorems read_inversions \<open>what a primitive read that succeeded has done\<close>

lemma readByte_Inr [read_inversions]:
  "readByte r = (Inr b, r') \<longleftrightarrow>
     pos r < length (Data r) \<and> b = Data r ! pos r \<and> r' = r\<lparr>pos := pos r + 1\<rparr>"
  by (auto simp: readByte_def)

lemma read_native_Inr:
  "read_native n r = (Inr i, r') \<longleftrightarrow>
     pos r + n < length (Data r) \<and> i = bytes_word (take n (drop (pos r) (Data r))) \<and>
     r' = r\<lparr>pos := pos r + n\<rparr>"
  by (auto simp: read_native_def native_uint_def bytes_word_def)

lemma reads_Inr [read_inversions]:
  "readInt32 r = (Inr i, r') \<longleftrightarrow>
     pos r + 4 < length (Data r) \<and> i = bytes_word (take 4 (drop (pos r) (Data r))) \<and>
     r' = r\<lparr>pos := pos r + 4\<rparr>"
  "readInt16 r = (Inr h, r') \<longleftrightarrow>
     pos r + 2 < length (Data r) \<and> h = bytes_word (take 2 (drop (pos r) (Data r))) \<and>
     r' = r\<lparr>pos := pos r + 2\<rparr>"
  "readUint32 r = (Inr u, r') \<longleftrightarrow>
     pos r + 4 < length (Data r) \<and> u = bytes_word (take 4 (drop (pos r) (Data r))) \<and>
     r' = r\<lparr>pos := pos r + 4\<rparr>"
  by (simp_all add: readInt32_def readInt16_def readUint32_def read_native_Inr)

lemma readBytes_Inr [read_inversions]:
  "readBytes n r = (Inr b, r') \<longleftrightarrow>
     pos r + n < length (Data r) \<and> b = take n (drop (pos r) (Data r)) \<and>
     r' = r\<lparr>pos := pos r + n\<rparr>"
  by (auto simp: readBytes_def go_slice_def)

lemma skipN_apply [proc_simps]: "skipN n r = (Inr (), r\<lparr>pos := pos r + n\<rparr>)"
  by (simp add: skipN_def proc_simps)

lemma alignPos_Inr [read_inversions]:
  "alignPos s r = (Inr u, r') \<longleftrightarrow>
     alignment r \<noteq> 0 \<and>
     r' = (if (pos r - s) mod alignment r = 0 then r
           else r\<lparr>pos := pos r + (alignment r - (pos r - s) mod alignment r)\<rparr>)"
  by (auto simp: alignPos_def)

text \<open>The failures of the primitive reads: only \<open>ErrInvalidData\<close>, with the state untouched.\<close>

lemma readByte_Inl [read_inversions]:
  "readByte r = (Inl e, r') \<longleftrightarrow> length (Data r) \<le> pos r \<and> e = Err ErrInvalidData \<and> r' = r"
  by (auto simp: readByte_def)

lemma read_native_Inl:
  "read_native n r = (Inl e, r') \<longleftrightarrow>
     length (Data r) \<le> pos r + n \<and> e = Err ErrInvalidData \<and> r' = r"
  by (auto simp: read_native_def native_uint_def)

lemma reads_Inl [read_inversions]:
  "readInt32 r = (Inl e, r') \<longleftrightarrow> length (Data r) \<le> pos r + 4 \<and> e = Err ErrInvalidData \<and> r' = r"
  "readInt16 r = (Inl e, r') \<longleftrightarrow> length (Data r) \<le> pos r + 2 \<and> e = Err ErrInvalidData \<and> r' = r"
  "readUint32 r = (Inl e, r') \<longleftrightarrow> length (Data r) \<le> pos r + 4 \<and> e = Err ErrInvalidData \<and> r' = r"
  by (simp_all add: readInt32_def readInt16_def readUint32_def read_native_Inl)

lemma readBytes_Inl [read_inversions]:
  "readBytes n r = (Inl e, r') \<longleftrightarrow>
     length (Data r) \<le> pos r + n \<and> e = Err ErrInvalidData \<and> r' = r"
  by (auto simp: readBytes_def go_slice_def)

lemma alignPos_Inl [read_inversions]:
  "alignPos s r = (Inl e, r') \<longleftrightarrow> alignment r = 0 \<and> e = Panic DivideByZero \<and> r' = r"
  by (auto simp: alignPos_def)

text \<open>Symbolic execution: a primitive read followed by the rest of the procedure.\<close>

lemma bind_readByte [proc_simps]:
  "bindE readByte f r =
     (if pos r < length (Data r) then f (Data r ! pos r) (r\<lparr>pos := pos r + 1\<rparr>)
      else (Inl (Err ErrInvalidData), r))"
  by (simp add: bindE_def readByte_def)

lemma bind_read_native:
  "bindE (read_native n) f r =
     (if pos r + n < length (Data r)
      then f (bytes_word (take n (drop (pos r) (Data r)))) (r\<lparr>pos := pos r + n\<rparr>)
      else (Inl (Err ErrInvalidData), r))"
  by (auto simp: bindE_def read_native_def native_uint_def bytes_word_def)

lemma bind_readInt32 [proc_simps]:
  "bindE readInt32 f r =
     (if pos r + 4 < length (Data r)
      then f (bytes_word (take 4 (drop (pos r) (Data r)))) (r\<lparr>pos := pos r + 4\<rparr>)
      else (Inl (Err ErrInvalidData), r))"
  by (simp add: readInt32_def bind_read_native)

lemma bind_readInt16 [proc_simps]:
  "bindE readInt16 f r =
     (if pos r + 2 < length (Data r)
      then f (bytes_word (take 2 (drop (pos r) (Data r)))) (r\<lparr>pos := pos r + 2\<rparr>)
      else (Inl (Err ErrInvalidData), r))"
  by (simp add: readInt16_def bind_read_native)

lemma bind_readUint32 [proc_simps]:
  "bindE readUint32 f r =
     (if pos r + 4 < length (Data r)
      then f (bytes_word (take 4 (drop (pos r) (Data r)))) (r\<lparr>pos := pos r + 4\<rparr>)
      else (Inl (Err ErrInvalidData), r))"
  by (simp add: readUint32_def bind_read_native)

lemma assign_read_fields [proc_simps]:
  "bindE (assign_read version_update readInt32) f r =
     (if pos r + 4 < length (Data r)
      then f () (r\<lparr>pos := pos r + 4, version := bytes_word (take 4 (drop (pos r) (Data r)))\<rparr>)
      else (Inl (Err ErrInvalidData), r\<lparr>version := 0\<rparr>))"
  "assign_read flags_update readUint32 r =
     (if pos r + 4 < length (Data r)
      then (Inr (), r\<lparr>pos := pos r + 4, flags := bytes_word (take 4 (drop (pos r) (Data r)))\<rparr>)
      else (Inl (Err ErrInvalidData), r\<lparr>flags := 0\<rparr>))"
  by (simp_all add: bindE_def assign_read_def readInt32_def readUint32_def read_native_def native_uint_def bytes_word_def)
    auto

lemma bind_readBytes [proc_simps]:
  "bindE (readBytes n) f r =
     (if pos r + n < length (Data r)
      then f (take n (drop (pos r) (Data r))) (r\<lparr>pos := pos r + n\<rparr>)
      else (Inl (Err ErrInvalidData), r))"
  by (auto simp: bindE_def readBytes_def go_slice_def)

lemma bind_skipN [proc_simps]: "bindE (skipN n) f r = f () (r\<lparr>pos := pos r + n\<rparr>)"
  by (simp add: bindE_def proc_simps)

lemma bind_alignPos [proc_simps]:
  "bindE (alignPos s) f r =
     (if alignment r = 0 then (Inl (Panic DivideByZero), r)
      else if (pos r - s) mod alignment r = 0 then f () r
      else f () (r\<lparr>pos := pos r + (alignment r - (pos r - s) mod alignment r)\<rparr>))"
  by (simp add: bindE_def alignPos_def)

section \<open>What Next does\<close>

lemma pos_size: "sint (sz :: 32 word) \<ge> 0 \<Longrightarrow> sz \<noteq> 0 \<Longrightarrow> 0 < unat sz"
  by (simp add: unat_gt_0)

text \<open>The fields of a pair, as functions of the buffer and the place where they stand.\<close>

definition u32_at :: "byte list \<Rightarrow> nat \<Rightarrow> 32 word" where
  "u32_at d p = bytes_word (take 4 (drop p d))"

definition u16_at :: "byte list \<Rightarrow> nat \<Rightarrow> 16 word" where
  "u16_at d p = bytes_word (take 2 (drop p d))"

lemma readSize_Inr:
  "readSize r = (Inr n, r') \<longleftrightarrow>
     0 < sint (u32_at (Data r) (pos r)) \<and> n = unat (u32_at (Data r) (pos r)) \<and>
     pos r + 4 + n < length (Data r) \<and> r' = r\<lparr>pos := pos r + 4\<rparr>"
  by (auto simp: readSize_def proc_simps u32_at_def order_less_le not_less signed_eq_0_iff
      split: if_split_asm)

lemma readSize_Inl:
  assumes "readSize r = (Inl e, r')"
  shows "advances r r'"
    and "e = Err ErrInvalidData \<or>
         e = Err EOF \<and> r' = r\<lparr>pos := pos r + 4\<rparr> \<and> pos r + 4 < length (Data r) \<and> u32_at (Data r) (pos r) = 0"
  using assms by (auto simp: readSize_def proc_simps u32_at_def advances_def split: if_split_asm)

lemma moves_readSize [contract_intros]: "moves advances readSize"
  unfolding readSize_def by (intro contract_intros reflp_advances transp_advances)

lemma moves_readPairFields [contract_intros]: "moves advances readPairFields"
  unfolding readPairFields_def by (intro contract_intros moves_modify) (auto simp: advances_def)

text \<open>
  Where the fixed fields of the pair at the reader's position start: after the size, and in
  XDR after four more bytes.
\<close>

definition fields_at :: "NVListReader \<Rightarrow> nat" where
  "fields_at r = pos r + 4 + (if encoding r = EncodingXDR then 4 else 0)"

lemma readPairFields_Inr:
  "readPairFields (r\<lparr>pos := pos r + 4\<rparr>) = (Inr t, r') \<longleftrightarrow>
     0 < sint (u16_at (Data r) (fields_at r)) \<and>
     0 \<le> sint (u32_at (Data r) (fields_at r + 4)) \<and>
     sint (u32_at (Data r) (fields_at r + 4)) \<le> 65535 \<and>
     fields_at r + 12 + nat (sint (u16_at (Data r) (fields_at r))) < length (Data r) \<and>
     t = u32_at (Data r) (fields_at r + 8) \<and>
     r' = r\<lparr>numElements := nat (sint (u32_at (Data r) (fields_at r + 4))),
            pos := fields_at r + 12 + nat (sint (u16_at (Data r) (fields_at r))),
            nameBytes := butlast (take (nat (sint (u16_at (Data r) (fields_at r))))
                                       (drop (fields_at r + 12) (Data r)))\<rparr>"
proof (cases "encoding r = EncodingXDR")
  case True
  then show ?thesis
    unfolding readPairFields_def fields_at_def u16_at_def u32_at_def
    by (simp add: proc_simps guard_simps add.assoc not_le not_less del: add_2_eq_Suc add_2_eq_Suc')
       auto
next
  case False
  then show ?thesis
    unfolding readPairFields_def fields_at_def u16_at_def u32_at_def
    by (simp add: proc_simps guard_simps add.assoc  not_le not_less del: add_2_eq_Suc add_2_eq_Suc')
       auto
qed

lemma readPairFields_Inl: "readPairFields r = (Inl e, r') \<Longrightarrow> e = Err ErrInvalidData"
  by (cases "encoding r = EncodingXDR")
    (simp_all add: readPairFields_def proc_simps split: if_split_asm)

text \<open>
  The pair that starts at the reader's position: its size, where its name and its data are,
  and what \<open>nextPair\<close> needs to accept it.
\<close>

definition name_size :: "NVListReader \<Rightarrow> nat" where
  "name_size r = nat (sint (u16_at (Data r) (fields_at r)))"

definition elem_count :: "NVListReader \<Rightarrow> nat" where
  "elem_count r = nat (sint (u32_at (Data r) (fields_at r + 4)))"

definition pair_type :: "NVListReader \<Rightarrow> NVType" where
  "pair_type r = u32_at (Data r) (fields_at r + 8)"

definition pair_size :: "NVListReader \<Rightarrow> nat" where
  "pair_size r = unat (u32_at (Data r) (pos r))"

definition align_up :: "nat \<Rightarrow> nat \<Rightarrow> nat \<Rightarrow> nat" where
  "align_up a s p = (if (p - s) mod a = 0 then p else p + (a - (p - s) mod a))"

definition data_start :: "NVListReader \<Rightarrow> nat" where
  "data_start r = align_up (alignment r) (pos r) (fields_at r + 12 + name_size r)"

definition pair_ok :: "NVListReader \<Rightarrow> bool" where
  "pair_ok r \<longleftrightarrow>
     alignment r \<noteq> 0 \<and>
     0 < sint (u32_at (Data r) (pos r)) \<and> pos r + 4 + pair_size r < length (Data r) \<and>
     0 < sint (u16_at (Data r) (fields_at r)) \<and>
     0 \<le> sint (u32_at (Data r) (fields_at r + 4)) \<and>
     sint (u32_at (Data r) (fields_at r + 4)) \<le> 65535 \<and>
     fields_at r + 12 + name_size r < length (Data r)"

definition pair_entered :: "NVListReader \<Rightarrow> NVListReader" where
  "pair_entered r =
     r\<lparr>numElements := elem_count r,
       nameBytes := butlast (take (name_size r) (drop (fields_at r + 12) (Data r))),
       dataPos := data_start r + (if pair_type r = TypeStringArray then 8 * elem_count r else 0),
       dataLen := int (pos r + pair_size r) - int (data_start r),
       pos := pos r + pair_size r,
       currentToken := pair_type r\<rparr>"

text \<open>Exactly when \<open>nextPair\<close> succeeds, and exactly what it then leaves in the reader.\<close>

lemma nextPair_Inr: "nextPair r = (Inr t, r') \<longleftrightarrow> pair_ok r \<and> t = pair_type r \<and> r' = pair_entered r"
proof -
  have "nextPair r = (Inr t, r') \<longleftrightarrow>
     (\<exists>n. 0 < sint (u32_at (Data r) (pos r)) \<and> n = unat (u32_at (Data r) (pos r)) \<and>
        pos r + 4 + n < length (Data r) \<and>
        bindE readPairFields (\<lambda>ty. bindE (alignPos (pos r)) (\<lambda>_.
          bindE (modify (enterData (pos r + n) ty)) (\<lambda>_. ret ty)))
          (r\<lparr>pos := pos r + 4\<rparr>) = (Inr t, r'))"
    unfolding nextPair_def bindE_gets by (subst bindE_eq_Inr_iff) (auto simp: readSize_Inr)
  also have "\<dots> \<longleftrightarrow> pair_ok r \<and> t = pair_type r \<and> r' = pair_entered r"
    unfolding bindE_eq_Inr_iff [where m = readPairFields] readPairFields_Inr
    by (auto simp: pair_ok_def pair_type_def pair_entered_def pair_size_def name_size_def
        elem_count_def data_start_def align_up_def proc_simps enterData_def)
  finally show ?thesis .
qed

text \<open>The end marker: a zero size field with at least one more byte behind it.\<close>

lemma readPairFields_Inl_pos:
  "readPairFields r = (Inl e, r') \<Longrightarrow> e = Err ErrInvalidData \<and> advances r r'"
  using movesD_eq [OF moves_readPairFields] readPairFields_Inl by blast

lemma nextPair_Inl:
  assumes "nextPair r = (Inl e, r')"
  shows "e = Err ErrInvalidData \<or> e = Panic DivideByZero \<and> alignment r = 0 \<or>
     e = Err EOF \<and> u32_at (Data r) (pos r) = 0 \<and> pos r + 4 < length (Data r) \<and>
     r' = r\<lparr>pos := pos r + 4\<rparr>"
  using assms unfolding nextPair_def bindE_gets
  by (auto simp: bindE_eq_Inl_iff [where m = readSize] bindE_eq_Inl_iff [where m = readPairFields]
      readSize_Inr readPairFields_Inr proc_simps
      dest!: readSize_Inl(2) readPairFields_Inl split: if_split_asm)

lemma nextPair_EOF:
  "nextPair r = (Inl (Err EOF), r') \<longleftrightarrow>
     u32_at (Data r) (pos r) = 0 \<and> pos r + 4 < length (Data r) \<and> r' = r\<lparr>pos := pos r + 4\<rparr>"
  (is "?L \<longleftrightarrow> ?R")
proof
  assume ?L
  from nextPair_Inl [OF this] show ?R by auto
next
  assume ?R
  then have "readSize r = (Inl (Err EOF), r')"
    by (simp add: readSize_def proc_simps u32_at_def)
  then show ?L by (simp add: nextPair_def proc_simps bindE_Inl)
qed

section \<open>The header, on a fresh reader\<close>

definition header_ok :: "byte list \<Rightarrow> bool" where
  "header_ok d \<longleftrightarrow>
     12 < length d \<and> (d ! 0 = EncodingNative \<or> d ! 0 = EncodingXDR) \<and> d ! 1 = littleEndian"

definition header_read :: "NVListReader \<Rightarrow> NVListReader" where
  "header_read r =
     r\<lparr>encoding := Data r ! 0,
       alignment := (if Data r ! 0 = EncodingNative then 8 else 4),
       version := u32_at (Data r) 4,
       flags := u32_at (Data r) 8,
       pos := 12\<rparr>"

lemma header_consts_distinct [simp]:
  "EncodingXDR \<noteq> EncodingNative" "EncodingNative \<noteq> EncodingXDR" "bigEndian \<noteq> littleEndian"
  "littleEndian \<noteq> bigEndian"
  by (simp_all add: EncodingNative_def EncodingXDR_def bigEndian_def littleEndian_def)

lemma readNvHeader_Inr:
  assumes "pos r = 0"
  shows "readNvHeader r = (Inr u, r') \<longleftrightarrow> header_ok (Data r) \<and> r' = header_read r"
proof -
  consider "Data r ! 0 = EncodingNative" | "Data r ! 0 = EncodingXDR"
    | "Data r ! 0 \<noteq> EncodingNative" "Data r ! 0 \<noteq> EncodingXDR" by blast
  then show ?thesis
  proof cases
    case 1
    with assms show ?thesis
      by (simp add: readNvHeader_def proc_simps guard_simps header_ok_def header_read_def u32_at_def
          del: add_2_eq_Suc add_2_eq_Suc') auto
  next
    case 2
    with assms show ?thesis
      by (simp add: readNvHeader_def proc_simps guard_simps header_ok_def header_read_def u32_at_def
          del: add_2_eq_Suc add_2_eq_Suc') auto
  next
    case 3
    with assms show ?thesis
      by (simp add: readNvHeader_def proc_simps guard_simps header_ok_def)
  qed
qed

lemma readNvHeader_Inl:
  assumes "readNvHeader r = (Inl e, r')"
  shows "e \<in> {Err ErrInvalidData, Err ErrInvalidEncoding, Err ErrInvalidEndianess,
               Err (Errorf ''conversion from big endian not yet supported'')}"
  using assms
  by (cases "Data r ! pos r = EncodingNative"; cases "Data r ! pos r = EncodingXDR")
    (auto simp: readNvHeader_def proc_simps split: if_split_asm)

section \<open>Next as a token stream\<close>

text \<open>The reader on which the pair is read: the given one, or the one after the header.\<close>

definition entry :: "NVListReader \<Rightarrow> NVListReader" where
  "entry r = (if pos r = 0 then header_read r else r)"

definition entry_ok :: "NVListReader \<Rightarrow> bool" where
  "entry_ok r \<longleftrightarrow> pos r = 0 \<longrightarrow> header_ok (Data r)"

lemma Next_after_header: "entry_ok r \<Longrightarrow> Next r = nextPair (entry r)"
  using readNvHeader_Inr [of r "()" "header_read r"]
  by (auto simp: Next_def proc_simps entry_def entry_ok_def bindE_Inr)

lemma Next_no_header:
  assumes "\<not> entry_ok r"
  obtains e r' where "Next r = (Inl e, r')"
    and "e \<in> {Err ErrInvalidData, Err ErrInvalidEncoding, Err ErrInvalidEndianess,
               Err (Errorf ''conversion from big endian not yet supported'')}"
proof -
  from assms have p: "pos r = 0" and "\<not> header_ok (Data r)" by (auto simp: entry_ok_def)
  then obtain e r' where run: "readNvHeader r = (Inl e, r')"
    by (metis readNvHeader_Inr [OF p] sum.exhaust surj_pair)
  then have "Next r = (Inl e, r')" using p by (simp add: Next_def proc_simps bindE_Inl)
  then show thesis using that readNvHeader_Inl [OF run] by blast
qed

lemma Next_Inr:
  "Next r = (Inr t, r') \<longleftrightarrow>
     entry_ok r \<and> pair_ok (entry r) \<and> t = pair_type (entry r) \<and> r' = pair_entered (entry r)"
proof (cases "entry_ok r")
  case True
  then show ?thesis by (simp add: Next_after_header nextPair_Inr)
next
  case False
  then show ?thesis by (rule Next_no_header) (use False in simp)
qed

lemma Data_entry [simp]: "Data (entry r) = Data r"
  by (simp add: entry_def header_read_def)

lemma pos_entry: "pos (entry r) = (if pos r = 0 then 12 else pos r)"
  by (simp add: entry_def header_read_def)

lemma Next_EOF:
  "Next r = (Inl (Err EOF), r') \<longleftrightarrow>
     entry_ok r \<and> u32_at (Data r) (pos (entry r)) = 0 \<and> pos (entry r) + 4 < length (Data r) \<and>
     r' = (entry r)\<lparr>pos := pos (entry r) + 4\<rparr>"
proof (cases "entry_ok r")
  case True
  then show ?thesis by (simp add: Next_after_header nextPair_EOF)
next
  case False
  then show ?thesis by (rule Next_no_header) (use False in auto)
qed

text \<open>Every way in which \<open>Next\<close> can fail.\<close>

lemma Next_Inl:
  assumes "Next r = (Inl e, r')"
  shows "e \<in> {Err EOF, Err ErrInvalidData, Err ErrInvalidEncoding, Err ErrInvalidEndianess,
               Err (Errorf ''conversion from big endian not yet supported'')} \<or>
         e = Panic DivideByZero \<and> alignment (entry r) = 0"
proof (cases "entry_ok r")
  case True
  with assms have "nextPair (entry r) = (Inl e, r')" by (simp add: Next_after_header)
  from nextPair_Inl [OF this] show ?thesis by blast
next
  case False
  then show ?thesis by (rule Next_no_header) (use assms in auto)
qed

text \<open>A reader that is fresh, or whose header has been read.\<close>

definition reader_ok :: "NVListReader \<Rightarrow> bool" where
  "reader_ok r \<longleftrightarrow> pos r = 0 \<or> alignment r = 4 \<or> alignment r = 8"

lemma reader_ok_new [simp]: "reader_ok (new_reader d)"
  by (simp add: reader_ok_def new_reader_def)

lemma entry_alignment: "reader_ok r \<Longrightarrow> alignment (entry r) = 4 \<or> alignment (entry r) = 8"
  by (auto simp: entry_def reader_ok_def header_read_def)

lemma Next_returns: "reader_ok r \<Longrightarrow> returns (fst (Next r))"
proof (cases "Next r")
  case (Pair x r')
  assume "reader_ok r"
  then have "alignment (entry r) \<noteq> 0" using entry_alignment by fastforce
  then show ?thesis using Pair Next_Inl [of r _ r'] by (cases x) auto
qed

text \<open>What a consumer may rely on after a token, and after the end of a list.\<close>

lemma reader_ok_Next:
  assumes "reader_ok r" and "Next r = (Inr t, r')"
  shows "reader_ok r'"
  using entry_alignment [OF assms(1)] assms(2)
  by (auto simp: Next_Inr pair_entered_def reader_ok_def)

lemma reader_ok_EOF:
  assumes "reader_ok r" and "Next r = (Inl (Err EOF), r')"
  shows "reader_ok r'"
  using entry_alignment [OF assms(1)] assms(2) by (auto simp: Next_EOF reader_ok_def)

definition remaining :: "NVListReader \<Rightarrow> nat" where
  "remaining r = length (Data r) - pos r"

lemma Next_progress:
  assumes "Next r = (Inr t, r')"
  shows "Data r' = Data r" and "pos r < pos r'" and "pos r' + 4 < length (Data r)"
proof -
  let ?e = "entry r"
  from assms have ok: "pair_ok ?e" and r': "r' = pair_entered ?e" by (simp_all add: Next_Inr)
  from ok have "0 < pair_size ?e" by (auto simp: pair_ok_def pair_size_def unat_gt_0)
  with ok r' show "Data r' = Data r" and "pos r < pos r'" and "pos r' + 4 < length (Data r)"
    by (auto simp: pair_entered_def pair_ok_def pos_entry split: if_split_asm)
qed

interpretation nv: token_stream Next remaining
proof
  fix r r' t
  show "Next r = (Inr t, r') \<Longrightarrow> remaining r' < remaining r"
    using Next_progress [of r t r'] by (simp add: remaining_def)
  show "Next r = (Inl (Err EOF), r') \<Longrightarrow> remaining r' \<le> remaining r"
    by (auto simp: Next_EOF remaining_def pos_entry)
  show "Next r \<noteq> (Inl OutOfFuel, r')"
    using Next_Inl [of r OutOfFuel r'] by auto
qed

text \<open>The contracts of \<open>Next\<close> that its consumers build on.\<close>

lemma safe_Next [contract_intros]: "safe reader_ok Next"
  by (rule safeI) (blast dest: Next_returns [unfolded returns_iff] intro: reader_ok_Next)+

lemma advances_nextPair:
  assumes run: "nextPair r = (x, r')"
  shows "advances r r'"
proof (cases x)
  case (Inr t)
  with run have "r' = pair_entered r" by (simp add: nextPair_Inr)
  then show ?thesis by (simp add: pair_entered_def advances_def)
next
  case (Inl e)
  have step: "advances (r\<lparr>pos := pos r + 4\<rparr>) s \<Longrightarrow> advances r s" for s
    by (simp add: advances_def)
  have al: "alignPos (pos r) s = (Inl e, r') \<Longrightarrow> advances s r'" for s
    using movesD_eq [OF moves_alignPos] by blast
  have fields: "readPairFields s = (y, s') \<Longrightarrow> advances s s'" for s y s'
    using movesD_eq [OF moves_readPairFields] by blast
  from run Inl show ?thesis unfolding nextPair_def bindE_gets
    by (auto simp: bindE_eq_Inl_iff readSize_Inr modify_apply ret_apply
        dest: readSize_Inl(1) fields al
        intro: step transpD [OF transp_advances])
qed

lemma moves_Next [contract_intros]: "moves advances Next"
  unfolding Next_def
  by (intro contract_intros reflp_advances transp_advances)
    (auto simp: moves_def intro: advances_nextPair prod.collapse [symmetric])

end
