(* ===== verification/NV_Values.thy ===== *)
theory NV_Values
  imports NV_Reader
begin

text \<open>
  zfs/nvlist/decode.go, the typed accessors: reading the value of the pair the reader stands
  on. Go's slice and index checks are outcomes here, and so is the read through
  \<open>unsafe.Slice\<close>, whose length comes from the pair's element count and not from its data:
  running past the buffer is \<open>UnsafeRead\<close>. The accessors leave the reader as it is. A signed
  integer is a word read with \<open>sint\<close>.
\<close>

section \<open>Scalars\<close>

text \<open>\<open>r.Data[r.dataPos : r.dataPos+r.dataLen]\<close>\<close>

definition pair_data :: "NVListReader \<Rightarrow> exit + byte list" where
  "pair_data r = go_slice (Data r) (int (dataPos r)) (int (dataPos r) + dataLen r)"

definition scalar :: "nat \<Rightarrow> NVListReader \<Rightarrow> exit + 'a::len word" where
  "scalar n r = (case pair_data r of Inl e \<Rightarrow> Inl e | Inr b \<Rightarrow> native_uint n b)"

definition UInt8 :: "NVListReader \<Rightarrow> exit + 8 word" where
  "UInt8 r = go_index (Data r) (int (dataPos r))"

definition Int8 :: "NVListReader \<Rightarrow> exit + 8 word" where
  "Int8 r = go_index (Data r) (int (dataPos r))"

definition Byte :: "NVListReader \<Rightarrow> exit + byte" where
  "Byte r = go_index (Data r) (int (dataPos r))"

definition UInt16 :: "NVListReader \<Rightarrow> exit + 16 word" where
  "UInt16 r = scalar 2 r"

definition Int16 :: "NVListReader \<Rightarrow> exit + 16 word" where
  "Int16 r = scalar 2 r"

definition UInt32 :: "NVListReader \<Rightarrow> exit + 32 word" where
  "UInt32 r = scalar 4 r"

definition Int32 :: "NVListReader \<Rightarrow> exit + 32 word" where
  "Int32 r = scalar 4 r"

definition UInt64 :: "NVListReader \<Rightarrow> exit + 64 word" where
  "UInt64 r = scalar 8 r"

definition Int64 :: "NVListReader \<Rightarrow> exit + 64 word" where
  "Int64 r = scalar 8 r"

definition Boolean :: "NVListReader \<Rightarrow> exit + bool" where
  "Boolean r =
     (case Int32 r of
        Inl e \<Rightarrow> Inl e
      | Inr i \<Rightarrow> if i = 0 then Inr False else if i = 1 then Inr True
                else Inl (Err ErrInvalidData))"

section \<open>Arrays\<close>

text \<open>
  \<open>unsafe.Slice\<close> over the start of the pair's data: \<open>numElements\<close> values of \<open>w\<close> bytes
  each, whatever the length of the data is.
\<close>

definition unsafe_array :: "nat \<Rightarrow> NVListReader \<Rightarrow> exit + 'a::len word list" where
  "unsafe_array w r =
     (case pair_data r of
        Inl e \<Rightarrow> Inl e
      | Inr b \<Rightarrow>
          if 0 < numElements r \<and> length (Data r) < dataPos r + w * numElements r
          then Inl (Panic UnsafeRead)
          else Inr (map bytes_word (chunks w (numElements r) (drop (dataPos r) (Data r)))))"

definition UInt8Array :: "NVListReader \<Rightarrow> exit + 8 word list" where
  "UInt8Array r = unsafe_array 1 r"

definition Int8Array :: "NVListReader \<Rightarrow> exit + 8 word list" where
  "Int8Array r = unsafe_array 1 r"

definition UInt16Array :: "NVListReader \<Rightarrow> exit + 16 word list" where
  "UInt16Array r = unsafe_array 2 r"

definition Int16Array :: "NVListReader \<Rightarrow> exit + 16 word list" where
  "Int16Array r = unsafe_array 2 r"

definition UInt32Array :: "NVListReader \<Rightarrow> exit + 32 word list" where
  "UInt32Array r = unsafe_array 4 r"

definition Int32Array :: "NVListReader \<Rightarrow> exit + 32 word list" where
  "Int32Array r = unsafe_array 4 r"

definition UInt64Array :: "NVListReader \<Rightarrow> exit + 64 word list" where
  "UInt64Array r = unsafe_array 8 r"

definition Int64Array :: "NVListReader \<Rightarrow> exit + 64 word list" where
  "Int64Array r = unsafe_array 8 r"

definition ByteArray :: "NVListReader \<Rightarrow> exit + byte list" where
  "ByteArray r = pair_data r"

text \<open>
  The loop of the array accessors that append what a scalar accessor returns: the receiver is
  not moved between the iterations. The slice \<open>dst\<close> that is passed in only lends its storage.
\<close>

primrec append_times :: "nat \<Rightarrow> (NVListReader \<Rightarrow> exit + 'a) \<Rightarrow> 'a list \<Rightarrow> NVListReader \<Rightarrow> exit + 'a list" where
  "append_times 0 f dst r = Inr dst"
| "append_times (Suc n) f dst r =
     (case f r of Inl e \<Rightarrow> Inl e | Inr x \<Rightarrow> append_times n f (dst @ [x]) r)"

definition BooleanArray :: "NVListReader \<Rightarrow> exit + bool list" where
  "BooleanArray r = append_times (NumElements r) Boolean [] r"

section \<open>Strings\<close>

text \<open>The scan for the delimiter, from offset \<open>i\<close> with \<open>k\<close> bytes of the pair left.\<close>

fun find_delim :: "byte list \<Rightarrow> nat \<Rightarrow> byte \<Rightarrow> nat \<Rightarrow> nat \<Rightarrow> exit + nat" where
  "find_delim xs p delim i 0 = Inl (Err ErrInvalidData)"
| "find_delim xs p delim i (Suc k) =
     (case go_index xs (int (p + i)) of
        Inl e \<Rightarrow> Inl e
      | Inr b \<Rightarrow> if b = delim then Inr i else find_delim xs p delim (Suc i) k)"

definition BytesUntilDelimiter :: "byte \<Rightarrow> NVListReader \<Rightarrow> exit + byte list" where
  "BytesUntilDelimiter delim r =
     (case find_delim (Data r) (dataPos r) delim 0 (nat (dataLen r)) of
        Inl e \<Rightarrow> Inl e
      | Inr i \<Rightarrow> go_slice (Data r) (int (dataPos r)) (int (dataPos r + i)))"

definition NV_String :: "NVListReader \<Rightarrow> exit + string" where
  "NV_String r =
     (case BytesUntilDelimiter 0x00 r of Inl e \<Rightarrow> Inl e | Inr b \<Rightarrow> Inr (string_of_bytes b))"

definition StringArray :: "NVListReader \<Rightarrow> exit + string list" where
  "StringArray r = append_times (NumElements r) NV_String [] r"

text \<open>\<open>StringArraySafe\<close> copies each string out of the buffer; as a value it is the same.\<close>

definition StringArraySafe :: "NVListReader \<Rightarrow> exit + string list" where
  "StringArraySafe r = append_times (NumElements r) NV_String [] r"

text \<open>
  \<open>Value(val)\<close>: \<open>binary.Decode\<close> into what \<open>val\<close> points to is the parameter \<open>decode\<close>; the number of
  bytes that it has read is dropped, so that data may be left over.
\<close>

definition Value :: "(byte list \<Rightarrow> error + nat \<times> 'v) \<Rightarrow> NVListReader \<Rightarrow> exit + 'v" where
  "Value decode r = (case pair_data r of
       Inl e \<Rightarrow> Inl e
     | Inr b \<Rightarrow> (case decode b of Inl e \<Rightarrow> Inl (Err e) | Inr (n, val) \<Rightarrow> Inr val))"

section \<open>What the accessors return\<close>

text \<open>
  The reader stands on a value: its data are \<open>bs\<close>, followed in the buffer by \<open>post\<close>.
\<close>

definition at_value :: "NVListReader \<Rightarrow> byte list \<Rightarrow> byte list \<Rightarrow> bool" where
  "at_value r bs post \<longleftrightarrow>
     drop (dataPos r) (Data r) = bs @ post \<and> dataPos r \<le> length (Data r) \<and>
     dataLen r = int (length bs)"

lemma at_value_length:
  assumes "at_value r bs post"
  shows "length (Data r) = dataPos r + length bs + length post"
proof -
  from assms have "dataPos r \<le> length (Data r)" and d: "drop (dataPos r) (Data r) = bs @ post"
    by (auto simp: at_value_def)
  moreover have "length (Data r) - dataPos r = length bs + length post"
    using arg_cong [OF d, of length] by simp
  ultimately show ?thesis by linarith
qed

lemma at_value_pair_data:
  assumes "at_value r bs post"
  shows "pair_data r = Inr bs"
proof -
  from assms have "drop (dataPos r) (Data r) = bs @ post" and "dataLen r = int (length bs)"
    by (simp_all add: at_value_def)
  moreover have "dataPos r + length bs \<le> length (Data r)"
    using at_value_length [OF assms] by simp
  ultimately show ?thesis by (simp add: pair_data_def go_slice_def)
qed

lemma Value_at_value:
  "at_value r bs post \<Longrightarrow> decode bs = Inr (n, val) \<Longrightarrow> Value decode r = Inr val"
  "at_value r bs post \<Longrightarrow> decode bs = Inl e \<Longrightarrow> Value decode r = Inl (Err e)"
  by (simp_all add: Value_def at_value_pair_data)

lemma scalar_at_value:
  "at_value r (bs @ pad) post \<Longrightarrow> length bs = n \<Longrightarrow> scalar n r = Inr (bytes_word bs)"
  by (simp add: scalar_def at_value_pair_data native_uint_bytes_word)

lemma UInt64_at_value:
  "at_value r (word_bytes 8 w @ pad) post \<Longrightarrow> UInt64 r = Inr w"
  by (simp add: UInt64_def scalar_at_value le64.dec_enc)

lemma Int32_at_value:
  "at_value r (word_bytes 4 w @ pad) post \<Longrightarrow> Int32 r = Inr w"
  by (simp add: Int32_def scalar_at_value le32.dec_enc)

lemma UInt64Array_at_value:
  assumes r: "at_value r (concat (map (word_bytes 8) ws) @ pad) post"
    and n: "numElements r = length ws"
  shows "UInt64Array r = Inr ws"
proof -
  have "drop (dataPos r) (Data r) = concat (map (word_bytes 8) ws) @ pad @ post"
    using r by (simp add: at_value_def)
  then have "map bytes_word (chunks 8 (length ws) (drop (dataPos r) (Data r))) = ws"
    using le64.decode_run [of ws "pad @ post"] by simp
  moreover have "dataPos r + 8 * length ws \<le> length (Data r)"
    using at_value_length [OF r] by (simp add: le64.length_concat_enc)
  ultimately show ?thesis
    using at_value_pair_data [OF r] n by (simp add: UInt64Array_def unsafe_array_def)
qed

lemma find_delim_run:
  assumes "drop (p + i) xs = s @ delim # rest" and "delim \<notin> set s" and "length s < k"
  shows "find_delim xs p delim i k = Inr (i + length s)"
  using assms
proof (induction s arbitrary: i k)
  case Nil
  then obtain k' where k: "k = Suc k'" by (cases k) auto
  from Nil(1) have "p + i < length xs" and "xs ! (p + i) = delim"
    by (metis append_Nil drop_all list.distinct(1) not_le, metis append_Nil hd_drop_conv_nth
        drop_all list.distinct(1) list.sel(1) not_le)
  with k show ?case by (simp add: go_index_def nat_int_add)
next
  case (Cons c s)
  then obtain k' where k: "k = Suc k'" by (cases k) auto
  from Cons.prems(1) have lt: "p + i < length xs" and c: "xs ! (p + i) = c"
    by (metis append_Cons drop_all list.distinct(1) not_le, metis append_Cons hd_drop_conv_nth
        drop_all list.distinct(1) list.sel(1) not_le)
  have "drop (p + Suc i) xs = s @ delim # rest"
    using Cons.prems(1) by (metis add_Suc_right append_Cons drop_Suc list.sel(3) tl_drop)
  with Cons.IH [of "Suc i" k'] Cons.prems k have "find_delim xs p delim (Suc i) k' = Inr (Suc i + length s)"
    by simp
  with lt c k Cons.prems(2) show ?case by (auto simp: go_index_def nat_int_add)
qed

lemma NV_String_at_value:
  assumes r: "at_value r (s @ 0 # pad) post" and "0 \<notin> set s"
  shows "NV_String r = Inr (string_of_bytes s)"
proof -
  have "find_delim (Data r) (dataPos r) 0 0 (nat (dataLen r)) = Inr (0 + length s)"
    by (rule find_delim_run [where rest = "pad @ post"])
      (use assms in \<open>auto simp: at_value_def\<close>)
  moreover have "go_slice (Data r) (int (dataPos r)) (int (dataPos r + length s)) = Inr s"
    using r at_value_length [OF r] by (simp add: go_slice_def at_value_def)
  ultimately show ?thesis by (simp add: NV_String_def BytesUntilDelimiter_def)
qed

lemma append_times_const:
  "append_times n f dst r =
     (if n = 0 then Inr dst
      else case f r of Inl e \<Rightarrow> Inl e | Inr x \<Rightarrow> Inr (dst @ replicate n x))"
  by (induction n arbitrary: dst) (auto split: sum.splits simp: replicate_append_same)

text \<open>
  After \<open>Next\<close>, the data of a pair end where the next pair starts; the slice exists when the
  pair is long enough to hold its own header.
\<close>

lemma pair_data_after_Next:
  assumes "Next r = (Inr t, r')" and "t \<noteq> TypeStringArray"
  shows "pair_data r' =
     (if int (dataPos r') \<le> int (pos r')
      then Inr (take (pos r' - dataPos r') (drop (dataPos r') (Data r'))) else Inl (Panic SliceBounds))"
    and "int (dataPos r') + dataLen r' = int (pos r')"
proof -
  have e: "int (dataPos r') + dataLen r' = int (pos r')"
    using assms by (auto simp: Next_Inr pair_entered_def)
  have "pos r' \<le> length (Data r')" using Next_progress [OF assms(1)] by simp
  with e show "pair_data r' =
     (if int (dataPos r') \<le> int (pos r')
      then Inr (take (pos r' - dataPos r') (drop (dataPos r') (Data r'))) else Inl (Panic SliceBounds))"
    by (auto simp: pair_data_def go_slice_def nat_diff_distrib)
  show "int (dataPos r') + dataLen r' = int (pos r')" by (rule e)
qed

lemma scalar_after_Next:
  assumes "Next r = (Inr t, r')" and "t \<noteq> TypeStringArray"
  shows "returns (scalar n r' :: exit + 'a::len word) \<longleftrightarrow> dataPos r' + n \<le> pos r'"
proof -
  have "pos r' \<le> length (Data r')" using Next_progress [OF assms(1)] by simp
  then show ?thesis
    by (auto simp: scalar_def pair_data_after_Next(1) [OF assms] native_uint_def)
qed

end
