(* ===== verification/NV_Skip.thy ===== *)
theory NV_Skip
  imports NV_Values
begin

text \<open>
  \<open>NVListReader.Skip\<close>: reading over the rest of a list, with the lists nested in it. The
  recursion follows the nesting of the input; \<open>Skip\<close> is shown to satisfy the source's
  equation with no bound, to end on every input, and never to panic.
\<close>

fun Skip_fuel :: "nat \<Rightarrow> (NVListReader, unit) proc" where
  "Skip_fuel n =
     forNext Next n (\<lambda>k token _.
       if token = TypeNvlist then Skip_fuel k
       else if token = TypeNvlistArray then
         bindE (gets NumElements) (\<lambda>numElements. repeatE numElements (Skip_fuel k))
       else ret ()) ()"

declare Skip_fuel.simps [simp del]

definition Skip :: "(NVListReader, unit) proc" where
  "Skip = unbounded remaining Skip_fuel"

lemma settled_Skip: "remaining r < n \<Longrightarrow> settled remaining Skip_fuel n r"
proof (induction n arbitrary: r rule: less_induct)
  case (less n)
  have "settled remaining (\<lambda>k. if token = TypeNvlist then Skip_fuel k
       else if token = TypeNvlistArray then
         bindE (gets NumElements) (\<lambda>numElements. repeatE numElements (Skip_fuel k))
       else ret ()) k r'" if "k < n" "remaining r' < k" for k token r'
    using that
    by (intro settled_if settled_bindE settled_repeatE settled_gets settled_ret) (auto intro: less.IH)
  from nv.settled_forNext [OF less.prems this]
  show ?case by (simp add: Skip_fuel.simps [abs_def])
qed

lemma bounded_Skip: "bounded_by remaining Skip_fuel"
  by (simp add: bounded_by_def settled_Skip)

lemma safe_Skip_fuel: "safe reader_ok (Skip_fuel n)"
proof (induction n rule: less_induct)
  case (less n)
  then show ?case
    by (subst Skip_fuel.simps)
      (auto intro!: safe_forNext safe_Next contract_intros intro: reader_ok_EOF)
qed

lemma safe_Skip [contract_intros]: "safe reader_ok Skip"
  using safe_Skip_fuel by (auto simp: Skip_def unbounded_def safe_def)

lemma moves_Skip_fuel: "moves advances (Skip_fuel n)"
proof (induction n rule: less_induct)
  case (less n)
  then show ?case
    by (subst Skip_fuel.simps)
      (auto intro!: moves_forNext moves_Next contract_intros)
qed

lemma moves_Skip [contract_intros]: "moves advances Skip"
  using moves_Skip_fuel by (simp add: Skip_def unbounded_def moves_def)

lemma Skip_total: "fst (Skip r) \<noteq> Inl OutOfFuel"
  using unbounded_terminates [OF bounded_Skip] by (metis Skip_def prod.collapse)

lemma Skip_returns: "reader_ok r \<Longrightarrow> returns (fst (Skip r))"
  using safeD [OF safe_Skip] Skip_total by (auto simp: returns_iff)

text \<open>The recursion of the source, with no bound in it.\<close>

definition skip_nested :: "NVType \<Rightarrow> (NVListReader, unit) proc" where
  "skip_nested token =
     (if token = TypeNvlist then Skip
      else if token = TypeNvlistArray then
        bindE (gets NumElements) (\<lambda>numElements. repeatE numElements Skip)
      else ret ())"

lemma Skip_unfold:
  "Skip r =
     (case Next r of
        (Inl e, r') \<Rightarrow> if e = Err EOF then (Inr (), r') else (Inl e, r')
      | (Inr token, r') \<Rightarrow> bindE (skip_nested token) (\<lambda>_. Skip) r')"
proof -
  let ?body = "\<lambda>k token (_ :: unit).
       if token = TypeNvlist then Skip_fuel k
       else if token = TypeNvlistArray then
         bindE (gets NumElements) (\<lambda>numElements. repeatE numElements (Skip_fuel k))
       else ret ()"
  have settled: "settled remaining (\<lambda>k. ?body k token c) k r'" if "remaining r' < k" for k token c r'
    using that
    by (intro settled_if settled_bindE settled_repeatE settled_gets settled_ret)
      (auto intro: settled_Skip)
  show ?thesis
    by (rule nv.loop_unfold [where body = ?body and step = "\<lambda>t _. skip_nested t"
          and loop = "\<lambda>_. Skip" and c = "()"])
      (use settled repeatE_unbounded [OF bounded_Skip] in
        \<open>simp_all add: skip_nested_def Skip_def unbounded_def proc_simps Skip_fuel.simps [symmetric]\<close>)
qed

end
