(* ===== verification/NV_Encode.thy ===== *)
theory NV_Encode
  imports NV_Skip
begin

text \<open>
  The native little-endian nvlist format as a specification: abstract lists of pairs, and the
  bytes that libnvpair lays out for them. A pair is a leaf (any type tag, element count and
  payload), an embedded list or an array of embedded lists; the embedded lists follow the pair
  that announces them, each closed by a zero size field.

  Against this format the reader is shown correct: \<open>Next\<close> delivers each pair with its tag,
  name, count and data, and \<open>Skip\<close> passes over exactly one list, nested lists included. A
  buffer that ends with the last byte of the list is refused.
\<close>

section \<open>The format\<close>

datatype nvpair =
    Leaf string NVType nat "byte list"
  | Embedded string "nvpair list"
  | EmbeddedArray string "nvpair list list"

definition padding :: "nat \<Rightarrow> byte list" where
  "padding n = replicate ((8 - n mod 8) mod 8) 0"

definition name_end :: "string \<Rightarrow> nat" where
  "name_end nm = 16 + length nm + 1"

definition wire_size :: "string \<Rightarrow> byte list \<Rightarrow> nat" where
  "wire_size nm bs =
     name_end nm + length (padding (name_end nm)) + length bs + length (padding (length bs))"

definition wire_pair :: "string \<Rightarrow> NVType \<Rightarrow> nat \<Rightarrow> byte list \<Rightarrow> byte list" where
  "wire_pair nm t n bs =
     word_bytes 4 (word_of_nat (wire_size nm bs) :: 32 word) @
     word_bytes 2 (word_of_nat (length nm + 1) :: 16 word) @
     word_bytes 2 (0 :: 16 word) @
     word_bytes 4 (word_of_nat n :: 32 word) @
     word_bytes 4 t @
     bytes_of_string nm @ [0] @ padding (name_end nm) @
     bs @ padding (length bs)"

definition end_marker :: "byte list" where
  "end_marker = replicate 4 0"

fun encode :: "nvpair \<Rightarrow> byte list" where
  "encode (Leaf nm t n bs) = wire_pair nm t n bs"
| "encode (Embedded nm ps) =
     wire_pair nm TypeNvlist 1 (replicate 24 0) @ concat (map encode ps) @ end_marker"
| "encode (EmbeddedArray nm pss) =
     wire_pair nm TypeNvlistArray (length pss) (replicate (32 * length pss) 0) @
     concat (map (\<lambda>ps. concat (map encode ps) @ end_marker) pss)"

definition encode_list :: "nvpair list \<Rightarrow> byte list" where
  "encode_list ps = concat (map encode ps) @ end_marker"

definition wire_header :: "byte list" where
  "wire_header = [EncodingNative, littleEndian, 0, 0] @ replicate 8 0"

definition encode_stream :: "nvpair list \<Rightarrow> byte list" where
  "encode_stream ps = wire_header @ encode_list ps"

text \<open>Pairs the format can hold: the fields fit their widths.\<close>

definition wire_fits :: "string \<Rightarrow> nat \<Rightarrow> byte list \<Rightarrow> bool" where
  "wire_fits nm n bs \<longleftrightarrow> wire_size nm bs < 2 ^ 31 \<and> length nm + 1 < 2 ^ 15 \<and> n \<le> 65535"

fun wf_pair :: "nvpair \<Rightarrow> bool" where
  "wf_pair (Leaf nm t n bs) \<longleftrightarrow> wire_fits nm n bs \<and> t \<noteq> TypeNvlist \<and> t \<noteq> TypeNvlistArray"
| "wf_pair (Embedded nm ps) \<longleftrightarrow> wire_fits nm 1 (replicate 24 0) \<and> list_all wf_pair ps"
| "wf_pair (EmbeddedArray nm pss) \<longleftrightarrow>
     wire_fits nm (length pss) (replicate (32 * length pss) 0) \<and> list_all (list_all wf_pair) pss"

fun pair_name :: "nvpair \<Rightarrow> string" where
  "pair_name (Leaf nm t n bs) = nm"
| "pair_name (Embedded nm ps) = nm"
| "pair_name (EmbeddedArray nm pss) = nm"

lemma length_end_marker [simp]: "length end_marker = 4"
  by (simp add: end_marker_def)

lemma length_wire_pair [simp]: "length (wire_pair nm t n bs) = wire_size nm bs"
  by (simp add: wire_pair_def wire_size_def name_end_def)

section \<open>Readers before a run of bytes\<close>

text \<open>
  The reader is about to read \<open>s\<close>, the rest of its buffer; a fresh reader is before what
  follows the stream header.
\<close>

definition before :: "NVListReader \<Rightarrow> byte list \<Rightarrow> bool" where
  "before r s \<longleftrightarrow> entry_ok r \<and> encoding (entry r) = EncodingNative \<and> alignment (entry r) = 8 \<and>
     pos (entry r) \<le> length (Data r) \<and> drop (pos (entry r)) (Data r) = s"

lemma before_later:
  "pos r \<noteq> 0 \<Longrightarrow> before r s \<longleftrightarrow> encoding r = EncodingNative \<and> alignment r = 8 \<and>
     pos r \<le> length (Data r) \<and> drop (pos r) (Data r) = s"
  by (simp add: before_def entry_def entry_ok_def)

lemma before_new:
  assumes "s \<noteq> []"
  shows "before (new_reader (wire_header @ s)) s"
proof -
  have "12 < length (wire_header @ s)" using assms by (simp add: wire_header_def)
  then show ?thesis
    by (simp add: before_def entry_ok_def entry_def header_ok_def header_read_def new_reader_def
        wire_header_def)
qed

lemma before_reader_ok: "before r s \<Longrightarrow> pos r \<noteq> 0 \<Longrightarrow> reader_ok r"
  by (simp add: before_later reader_ok_def)

text \<open>The fields of a pair that starts a run of bytes.\<close>

lemma drop_field: "drop p d = a @ b \<Longrightarrow> take (length a) (drop p d) = a"
  by simp

lemma drop_next: "drop p d = a @ b \<Longrightarrow> drop (p + length a) d = b"
  by (metis add.commute append_eq_conv_conj drop_drop)

lemma u32_at_word: "drop p d = word_bytes 4 w @ b \<Longrightarrow> u32_at d p = w"
  using le32.dec_enc [of w] by (simp add: u32_at_def)

lemma u16_at_word: "drop p d = word_bytes 2 w @ b \<Longrightarrow> u16_at d p = w"
  using le16.dec_enc [of w] by (simp add: u16_at_def)

lemma length_drop_eq: "p \<le> length d \<Longrightarrow> drop p d = s \<Longrightarrow> length d = p + length s"
  by (metis le_add_diff_inverse length_drop)

lemma sint_of_nat32: "n < 2 ^ 31 \<Longrightarrow> sint (word_of_nat n :: 32 word) = int n"
  by (simp add: sint_uint unsigned_of_nat signed_take_bit_int_eq_self take_bit_nat_eq_self)

lemma sint_of_nat16: "n < 2 ^ 15 \<Longrightarrow> sint (word_of_nat n :: 16 word) = int n"
  by (simp add: sint_uint unsigned_of_nat signed_take_bit_int_eq_self take_bit_nat_eq_self)

lemma unat_of_nat32: "n < 2 ^ 31 \<Longrightarrow> unat (word_of_nat n :: 32 word) = n"
  by (simp add: unat_of_nat)

lemma entry_before:
  assumes "before r s"
  shows "Next r = nextPair (entry r)" and "length (Data r) = pos (entry r) + length s"
    and "drop (pos (entry r)) (Data r) = s"
  using assms by (auto simp: before_def Next_after_header)

text \<open>The fields of a pair at the start of a run of bytes.\<close>

lemma wire_pair_fields:
  assumes d: "drop p d = wire_pair nm t n bs @ rest"
  shows "u32_at d p = word_of_nat (wire_size nm bs)"
    and "u16_at d (p + 4) = word_of_nat (length nm + 1)"
    and "u32_at d (p + 8) = word_of_nat n"
    and "u32_at d (p + 12) = t"
    and "take (length nm + 1) (drop (p + 16) d) = bytes_of_string nm @ [0]"
    and "drop (p + name_end nm + length (padding (name_end nm))) d = bs @ padding (length bs) @ rest"
    and "drop (p + wire_size nm bs) d = rest"
proof -
  have d0: "drop p d = word_bytes 4 (word_of_nat (wire_size nm bs) :: 32 word) @
     word_bytes 2 (word_of_nat (length nm + 1) :: 16 word) @
     word_bytes 2 (0 :: 16 word) @ word_bytes 4 (word_of_nat n :: 32 word) @ word_bytes 4 t @
     (bytes_of_string nm @ [0]) @ padding (name_end nm) @ bs @ padding (length bs) @ rest"
    using d by (simp add: wire_pair_def)
  note d1 = drop_next [OF d0] note d2 = drop_next [OF d1] note d3 = drop_next [OF d2]
  note d4 = drop_next [OF d3] note d5 = drop_next [OF d4] note d6 = drop_next [OF d5]
  note d7 = drop_next [OF d6] note d8 = drop_next [OF d7] note d9 = drop_next [OF d8]
  show "u32_at d p = word_of_nat (wire_size nm bs)" using d0 by (rule u32_at_word)
  show "u16_at d (p + 4) = word_of_nat (length nm + 1)" using u16_at_word [OF d1] by simp
  show "u32_at d (p + 8) = word_of_nat n" using u32_at_word [OF d3] by (simp add: add_ac)
  show "u32_at d (p + 12) = t" using u32_at_word [OF d4] by (simp add: add_ac)
  show "take (length nm + 1) (drop (p + 16) d) = bytes_of_string nm @ [0]"
    using drop_field [OF d5] by (simp add: add_ac)
  show "drop (p + name_end nm + length (padding (name_end nm))) d = bs @ padding (length bs) @ rest"
    using d7 by (simp add: name_end_def add_ac)
  show "drop (p + wire_size nm bs) d = rest"
    using d9 by (simp add: wire_size_def name_end_def add_ac)
qed

lemma align_padding: "align_up 8 p (p + m) = p + m + length (padding m)"
proof (cases "m mod 8 = 0")
  case True
  then show ?thesis by (simp add: align_up_def padding_def)
next
  case False
  then have "(8 - m mod 8) mod 8 = 8 - m mod 8" by simp
  with False show ?thesis by (simp add: align_up_def padding_def)
qed

lemma wire_size_bound: "17 + length nm \<le> wire_size nm bs"
  by (simp add: wire_size_def name_end_def)

lemma wire_pair_numbers:
  assumes d: "drop p d = wire_pair nm t n bs @ rest" and fits: "wire_fits nm n bs"
  shows "sint (u32_at d p) = int (wire_size nm bs)" and "unat (u32_at d p) = wire_size nm bs"
    and "sint (u16_at d (p + 4)) = int (length nm) + 1" and "sint (u32_at d (p + 8)) = int n"
proof -
  from fits have sz: "wire_size nm bs < 2 ^ 31" and nsz: "length nm + 1 < 2 ^ 15" and n: "n < 2 ^ 31"
    by (simp_all add: wire_fits_def)
  show "sint (u32_at d p) = int (wire_size nm bs)" and "unat (u32_at d p) = wire_size nm bs"
    unfolding wire_pair_fields(1) [OF d] using sz by (rule sint_of_nat32, rule unat_of_nat32)
  show "sint (u16_at d (p + 4)) = int (length nm) + 1"
    unfolding wire_pair_fields(2) [OF d] sint_of_nat16 [OF nsz] by simp
  show "sint (u32_at d (p + 8)) = int n"
    unfolding wire_pair_fields(3) [OF d] using n by (rule sint_of_nat32)
qed

text \<open>\<open>Next\<close> at a pair: its tag, its name, its count, its data, and the reader behind it.\<close>

lemma Next_wire_pair:
  assumes r: "before r (wire_pair nm t n bs @ rest)" and fits: "wire_fits nm n bs"
    and long: "4 < length rest"
  shows "\<exists>r'. Next r = (Inr t, r') \<and> before r' rest \<and> pos r' \<noteq> 0 \<and> Name r' = nm \<and>
     NumElements r' = n \<and> (t \<noteq> TypeStringArray \<longrightarrow> at_value r' (bs @ padding (length bs)) rest)"
proof -
  let ?e = "entry r" and ?d = "Data r"
  let ?p = "pos ?e"
  note len = entry_before(2) [OF r] and d = entry_before(3) [OF r]
  note fields = wire_pair_fields [OF d] and numbers = wire_pair_numbers [OF d fits]
  have n: "n \<le> 65535" using fits by (simp add: wire_fits_def)
  have al: "alignment ?e = 8" and enc: "encoding ?e = EncodingNative" using r by (simp_all add: before_def)
  have f: "fields_at ?e = ?p + 4" using enc by (simp add: fields_at_def)
  have size: "pair_size ?e = wire_size nm bs" using numbers(2) by (simp add: pair_size_def)
  have name: "name_size ?e = length nm + 1" using numbers(3) by (simp add: name_size_def f)
  have count: "elem_count ?e = n" using numbers(4) by (simp add: elem_count_def f add_ac)
  have type: "pair_type ?e = t" using fields(4) by (simp add: pair_type_def f add_ac)
  have start: "data_start ?e = ?p + name_end nm + length (padding (name_end nm))"
    using align_padding [of ?p "name_end nm"] al name
    by (simp add: data_start_def f name_end_def add_ac)
  have ok: "pair_ok ?e"
    using al numbers n len long size name wire_size_bound [of nm bs]
    by (simp add: pair_ok_def f add_ac)
  let ?r' = "pair_entered ?e"
  have next_r: "Next r = (Inr t, ?r')"
    using r ok type by (simp add: Next_Inr before_def)
  have pos: "pos ?r' = ?p + wire_size nm bs" by (simp add: pair_entered_def size)
  have "before ?r' rest"
    using len fields(7) al enc pos
    by (subst before_later) (auto simp: pair_entered_def size wire_size_def name_end_def)
  moreover have "Name ?r' = nm"
    using fields(5) name by (simp add: Name_def pair_entered_def f butlast_append add_ac)
  moreover have "NumElements ?r' = n" by (simp add: NumElements_def pair_entered_def count)
  moreover have "at_value ?r' (bs @ padding (length bs)) rest" if "t \<noteq> TypeStringArray"
    using that fields(6) start type size len
    by (simp add: at_value_def pair_entered_def wire_size_def)
  moreover have "pos ?r' \<noteq> 0" using pos by (simp add: wire_size_def name_end_def)
  ultimately show ?thesis using next_r by blast
qed

lemma le_bytes_zero: "le_bytes n 0 = replicate n 0"
  by (induction n) simp_all

lemma Next_end_marker:
  assumes r: "before r (end_marker @ rest)" and "rest \<noteq> []"
  shows "\<exists>r'. Next r = (Inl (Err EOF), r') \<and> before r' rest \<and> pos r' \<noteq> 0"
proof -
  note len = entry_before(2) [OF r] and d = entry_before(3) [OF r]
  have "end_marker = word_bytes 4 (0 :: 32 word)"
    by (simp add: end_marker_def word_bytes_def le_bytes_zero)
  with d have "u32_at (Data r) (pos (entry r)) = 0" by (metis u32_at_word)
  then have "Next r = (Inl (Err EOF), (entry r)\<lparr>pos := pos (entry r) + 4\<rparr>)"
    using r len \<open>rest \<noteq> []\<close> by (simp add: Next_EOF before_def)
  moreover have "before ((entry r)\<lparr>pos := pos (entry r) + 4\<rparr>) rest"
    using r len drop_next [OF d] by (subst before_later) (auto simp: before_def)
  ultimately show ?thesis by auto
qed

text \<open>
  Without bytes to spare behind it, a field is refused: the last pair of a buffer whose end is
  the end of its list, and the end marker of such a buffer.
\<close>

lemma Next_tight_pair:
  assumes r: "before r (wire_pair nm t n bs @ rest)" and fits: "wire_fits nm n bs"
    and tight: "length rest \<le> 4"
  shows "fst (Next r) = Inl (Err ErrInvalidData)"
proof -
  let ?e = "entry r"
  note len = entry_before(2) [OF r] and d = entry_before(3) [OF r]
  note numbers = wire_pair_numbers [OF d fits]
  have "0 < unat (u32_at (Data r) (pos ?e))"
    using numbers(2) wire_size_bound [of nm bs] by simp
  then have nz: "u32_at (Data r) (pos ?e) \<noteq> 0" by (simp add: unat_gt_0)
  have "readSize ?e = (Inl (Err ErrInvalidData), ?e\<lparr>pos := pos ?e + 4\<rparr>)"
    using numbers(1,2) nz len tight wire_size_bound [of nm bs]
    by (simp add: readSize_def proc_simps u32_at_def)
  then show ?thesis
    by (simp add: entry_before(1) [OF r] nextPair_def proc_simps bindE_Inl)
qed

lemma Next_tight_end: "before r end_marker \<Longrightarrow> fst (Next r) = Inl (Err ErrInvalidData)"
  using entry_before(2) [of r end_marker]
  by (simp add: entry_before(1) nextPair_def readSize_def proc_simps bindE_Inl)

end
