(* ===== verification/NV_Walk.thy ===== *)
theory NV_Walk
  imports NV_Encode
begin

text \<open>
  Consumers of encoded lists. \<open>passes\<close> says that a procedure reads exactly one run of bytes;
  \<open>passes_loop\<close> is the rule for the token loop over an encoded list, from a specification of
  the loop's body pair by pair, and \<open>tight_loop\<close> the rule for a list that ends where its
  buffer ends. \<open>Skip\<close> is the first instance; the exporter's parsers are the others.
\<close>

section \<open>Skip passes over one list\<close>

text \<open>
  The tag \<open>Next\<close> reports for a pair, and what is left to read when it has: the embedded
  lists of the pair, each with its end marker.
\<close>

fun pair_tag :: "nvpair \<Rightarrow> NVType" where
  "pair_tag (Leaf nm t n bs) = t"
| "pair_tag (Embedded nm ps) = TypeNvlist"
| "pair_tag (EmbeddedArray nm pss) = TypeNvlistArray"

fun pair_count :: "nvpair \<Rightarrow> nat" where
  "pair_count (Leaf nm t n bs) = n"
| "pair_count (Embedded nm ps) = 1"
| "pair_count (EmbeddedArray nm pss) = length pss"

fun pair_tail :: "nvpair \<Rightarrow> byte list" where
  "pair_tail (Leaf nm t n bs) = []"
| "pair_tail (Embedded nm ps) = encode_list ps"
| "pair_tail (EmbeddedArray nm pss) = concat (map encode_list pss)"

fun pair_payload :: "nvpair \<Rightarrow> byte list" where
  "pair_payload (Leaf nm t n bs) = bs"
| "pair_payload (Embedded nm ps) = replicate 24 0"
| "pair_payload (EmbeddedArray nm pss) = replicate (32 * length pss) 0"

lemma encode_split:
  "encode p = wire_pair (pair_name p) (pair_tag p) (pair_count p) (pair_payload p) @ pair_tail p"
  by (cases p) (simp_all add: encode_list_def [abs_def])

lemma wf_pair_fits: "wf_pair p \<Longrightarrow> wire_fits (pair_name p) (pair_count p) (pair_payload p)"
  by (cases p) simp_all

lemma encode_list_Nil: "encode_list [] = end_marker"
  by (simp add: encode_list_def)

lemma encode_list_Cons: "encode_list (p # ps) = encode p @ encode_list ps"
  by (simp add: encode_list_def)

lemma length_encode_list: "4 \<le> length (encode_list ps)"
  by (simp add: encode_list_def)

lemma Next_encode:
  assumes r: "before r (encode p @ rest)" and wf: "wf_pair p" and long: "4 < length (pair_tail p @ rest)"
  shows "\<exists>r'. Next r = (Inr (pair_tag p), r') \<and> before r' (pair_tail p @ rest) \<and>
     Name r' = pair_name p \<and> NumElements r' = pair_count p \<and>
     (pair_tag p \<noteq> TypeStringArray \<longrightarrow>
       at_value r' (pair_payload p @ padding (length (pair_payload p))) (pair_tail p @ rest))"
  using Next_wire_pair [of r "pair_name p" "pair_tag p" "pair_count p" "pair_payload p" "pair_tail p @ rest"]
    wf_pair_fits [OF wf] r long by (auto simp: encode_split)

text \<open>A consumer that passes over \<open>s\<close>, whatever (of the given length) follows it.\<close>

definition passes :: "(NVListReader, 'a) proc \<Rightarrow> 'a \<Rightarrow> byte list \<Rightarrow> nat \<Rightarrow> bool" where
  "passes m a s k \<longleftrightarrow> (\<forall>r rest. before r (s @ rest) \<longrightarrow> k < length rest \<longrightarrow>
     (\<exists>r'. m r = (Inr a, r') \<and> before r' rest))"

lemma passesI:
  assumes "\<And>r rest. before r (s @ rest) \<Longrightarrow> k < length rest \<Longrightarrow>
     \<exists>r'. m r = (Inr a, r') \<and> before r' rest"
  shows "passes m a s k"
  using assms by (simp add: passes_def)

lemma passesD:
  assumes "passes m a s k" and "before r (s @ rest)" and "k < length rest"
  obtains r' where "m r = (Inr a, r')" and "before r' rest"
  using assms unfolding passes_def by blast

lemma passes_ret: "passes (ret a) a [] k"
  by (auto simp: passes_def ret_def)

lemma passes_mono: "passes m a s k \<Longrightarrow> k \<le> k' \<Longrightarrow> passes m a s k'"
  by (auto simp: passes_def)

lemma passes_bindE:
  assumes m: "passes m a s k" and f: "passes (f a) b s' k"
  shows "passes (bindE m f) b (s @ s') k"
proof (rule passesI)
  fix r rest assume "before r ((s @ s') @ rest)" and long: "k < length rest"
  then have "before r (s @ (s' @ rest))" and "k < length (s' @ rest)" by simp_all
  then obtain r1 where "m r = (Inr a, r1)" and "before r1 (s' @ rest)" by (rule passesD [OF m])
  moreover from this(2) long obtain r2 where "f a r1 = (Inr b, r2)" and "before r2 rest"
    by (rule passesD [OF f])
  ultimately show "\<exists>r'. bindE m f r = (Inr b, r') \<and> before r' rest" by (auto simp: bindE_Inr)
qed

lemma passes_repeatE:
  assumes "list_all (\<lambda>s. passes m () s k) ss"
  shows "passes (repeatE (length ss) m) () (concat ss) k"
  using assms by (induction ss) (auto intro!: passes_ret passes_bindE)

text \<open>
  The loop over one encoded list, for any consumer: when the body, started behind a pair,
  passes over what the pair left and turns the accumulator \<open>c\<close> into \<open>upd p c\<close>, the loop
  passes over the list and folds \<open>upd\<close> over it. \<open>I\<close> is an invariant of the accumulator.
\<close>

lemma passes_loop_inv:
  assumes unfold: "\<And>c r. loop c r =
     (case Next r of
        (Inl e, r') \<Rightarrow> if e = Err EOF then (Inr c, r') else (Inl e, r')
      | (Inr t, r') \<Rightarrow> bindE (step t c) loop r')"
    and wf: "list_all wf_pair ps"
    and step: "\<And>p c r rest. p \<in> set ps \<Longrightarrow> I c \<Longrightarrow> before r (pair_tail p @ rest) \<Longrightarrow> rest \<noteq> [] \<Longrightarrow>
       Name r = pair_name p \<Longrightarrow> NumElements r = pair_count p \<Longrightarrow>
       (pair_tag p \<noteq> TypeStringArray \<Longrightarrow>
          at_value r (pair_payload p @ padding (length (pair_payload p))) (pair_tail p @ rest)) \<Longrightarrow>
       \<exists>r'. step (pair_tag p) c r = (Inr (upd p c), r') \<and> before r' rest"
    and inv: "\<And>p c. p \<in> set ps \<Longrightarrow> I c \<Longrightarrow> I (upd p c)" and "I c"
  shows "passes (loop c) (fold upd ps c) (encode_list ps) 0"
  using wf step inv \<open>I c\<close>
proof (induction ps arbitrary: c)
  case Nil
  show ?case
  proof (rule passesI)
    fix r rest assume "before r (encode_list [] @ rest)" and "0 < length rest"
    then obtain r' where "Next r = (Inl (Err EOF), r')" and "before r' rest"
      using Next_end_marker [of r rest] by (auto simp: encode_list_Nil)
    then show "\<exists>r'. loop c r = (Inr (fold upd [] c), r') \<and> before r' rest"
      by (simp add: unfold [of c r])
  qed
next
  case (Cons p ps)
  have IH: "passes (loop (upd p c)) (fold upd ps (upd p c)) (encode_list ps) 0"
    by (rule Cons.IH) (use Cons.prems in auto)
  show ?case
  proof (rule passesI)
    fix r rest assume r: "before r (encode_list (p # ps) @ rest)" and rest: "0 < length rest"
    let ?rest = "encode_list ps @ rest"
    have long: "4 < length ?rest" using length_encode_list [of ps] rest unfolding length_append by linarith
    obtain r1 where n: "Next r = (Inr (pair_tag p), r1)" and r1: "before r1 (pair_tail p @ ?rest)"
        "Name r1 = pair_name p" "NumElements r1 = pair_count p"
        "pair_tag p \<noteq> TypeStringArray \<Longrightarrow>
          at_value r1 (pair_payload p @ padding (length (pair_payload p))) (pair_tail p @ ?rest)"
      using Next_encode [of r p ?rest] r long Cons.prems(1) by (auto simp: encode_list_Cons)
    obtain r2 where s: "step (pair_tag p) c r1 = (Inr (upd p c), r2)" and r2: "before r2 ?rest"
      using Cons.prems(2) [of p c r1 ?rest] Cons.prems(4) r1 rest by auto
    obtain r3 where "loop (upd p c) r2 = (Inr (fold upd ps (upd p c)), r3)" and "before r3 rest"
      using passesD [OF IH r2 rest] by metis
    moreover from this n s have "loop c r = (Inr (fold upd (p # ps) c), r3)"
      by (simp add: unfold [of c r] bindE_Inr)
    ultimately show "\<exists>r'. loop c r = (Inr (fold upd (p # ps) c), r') \<and> before r' rest"
      by blast
  qed
qed

lemma passes_loop:
  assumes unfold: "\<And>c r. loop c r =
     (case Next r of
        (Inl e, r') \<Rightarrow> if e = Err EOF then (Inr c, r') else (Inl e, r')
      | (Inr t, r') \<Rightarrow> bindE (step t c) loop r')"
    and wf: "list_all wf_pair ps"
    and step: "\<And>p c r rest. p \<in> set ps \<Longrightarrow> before r (pair_tail p @ rest) \<Longrightarrow> rest \<noteq> [] \<Longrightarrow>
       Name r = pair_name p \<Longrightarrow> NumElements r = pair_count p \<Longrightarrow>
       (pair_tag p \<noteq> TypeStringArray \<Longrightarrow>
          at_value r (pair_payload p @ padding (length (pair_payload p))) (pair_tail p @ rest)) \<Longrightarrow>
       \<exists>r'. step (pair_tag p) c r = (Inr (upd p c), r') \<and> before r' rest"
  shows "passes (loop c) (fold upd ps c) (encode_list ps) 0"
  by (rule passes_loop_inv [where I = "\<lambda>_. True", OF unfold wf step]) simp_all

text \<open>
  The same loop on a buffer that ends with the list: the last field it needs has no byte
  behind it, and the reader refuses it.
\<close>

lemma tight_loop:
  assumes unfold: "\<And>c r. loop c r =
     (case Next r of
        (Inl e, r') \<Rightarrow> if e = Err EOF then (Inr c, r') else (Inl e, r')
      | (Inr t, r') \<Rightarrow> bindE (step t c) loop r')"
    and wf: "list_all wf_pair ps"
    and step: "\<And>p c r rest. p \<in> set ps \<Longrightarrow> before r (pair_tail p @ rest) \<Longrightarrow> rest \<noteq> [] \<Longrightarrow>
       Name r = pair_name p \<Longrightarrow> NumElements r = pair_count p \<Longrightarrow>
       (pair_tag p \<noteq> TypeStringArray \<Longrightarrow>
          at_value r (pair_payload p @ padding (length (pair_payload p))) (pair_tail p @ rest)) \<Longrightarrow>
       \<exists>r'. step (pair_tag p) c r = (Inr (upd p c), r') \<and> before r' rest"
    and r: "before r (encode_list ps)"
  shows "fst (loop c r) = Inl (Err ErrInvalidData)"
  using wf step r
proof (induction ps arbitrary: c r)
  case Nil
  then have "fst (Next r) = Inl (Err ErrInvalidData)"
    using Next_tight_end by (simp add: encode_list_Nil)
  then show ?case by (cases "Next r") (simp add: unfold [of c r])
next
  case (Cons p ps)
  let ?rest = "encode_list ps"
  have r: "before r (encode p @ ?rest)" using Cons.prems(3) by (simp add: encode_list_Cons)
  have wf: "wf_pair p" using Cons.prems(1) by simp
  show ?case
  proof (cases "length (pair_tail p @ ?rest) \<le> 4")
    case True
    then have "fst (Next r) = Inl (Err ErrInvalidData)"
      using Next_tight_pair [OF _ wf_pair_fits [OF wf]] r by (simp add: encode_split)
    then show ?thesis by (cases "Next r") (simp add: unfold [of c r])
  next
    case False
    obtain r1 where n: "Next r = (Inr (pair_tag p), r1)" and r1: "before r1 (pair_tail p @ ?rest)"
        "Name r1 = pair_name p" "NumElements r1 = pair_count p"
        "pair_tag p \<noteq> TypeStringArray \<Longrightarrow>
          at_value r1 (pair_payload p @ padding (length (pair_payload p))) (pair_tail p @ ?rest)"
      using Next_encode [OF r wf] False by auto
    have "?rest \<noteq> []" using length_encode_list [of ps] by auto
    then obtain r2 where "step (pair_tag p) c r1 = (Inr (upd p c), r2)" and "before r2 ?rest"
      using Cons.prems(2) [of p r1 ?rest c] r1 by auto
    moreover have "fst (loop (upd p c) r2) = Inl (Err ErrInvalidData)"
      by (rule Cons.IH) (use Cons.prems \<open>before r2 ?rest\<close> in auto)
    ultimately show ?thesis using n by (simp add: unfold [of c r] bindE_Inr)
  qed
qed

section \<open>Skip\<close>

lemma Skip_unfold_unit:
  "Skip r =
     (case Next r of
        (Inl e, r') \<Rightarrow> if e = Err EOF then (Inr c, r') else (Inl e, r')
      | (Inr t, r') \<Rightarrow> bindE (skip_nested t) (\<lambda>_. Skip) r')"
  for c :: unit
  by (cases c) (simp only: Skip_unfold [of r])

lemma Skip_list:
  assumes wf: "list_all wf_pair ps"
    and nested: "\<And>p r rest. p \<in> set ps \<Longrightarrow> before r (pair_tail p @ rest) \<Longrightarrow> rest \<noteq> [] \<Longrightarrow>
       NumElements r = pair_count p \<Longrightarrow>
       \<exists>r'. skip_nested (pair_tag p) r = (Inr (), r') \<and> before r' rest"
  shows "passes Skip () (encode_list ps) 0"
proof -
  have "passes ((\<lambda>_. Skip) ()) (fold (\<lambda>_ _. ()) ps ()) (encode_list ps) 0"
    by (rule passes_loop [where step = "\<lambda>t _. skip_nested t"])
      (use Skip_unfold_unit wf nested in \<open>blast+\<close>)
  then show ?thesis by simp
qed

lemma skip_nested_pair:
  assumes "wf_pair p" and "before r (pair_tail p @ rest)" and "rest \<noteq> []"
    and "NumElements r = pair_count p"
  shows "\<exists>r'. skip_nested (pair_tag p) r = (Inr (), r') \<and> before r' rest"
  using assms
proof (induction p arbitrary: r rest)
  case (Leaf nm t n bs)
  then show ?case by (simp add: skip_nested_def proc_simps)
next
  case (Embedded nm ps)
  have "passes Skip () (encode_list ps) 0"
    by (rule Skip_list) (use Embedded in \<open>auto simp: list_all_iff\<close>)
  with Embedded.prems show ?case
    by (auto simp: skip_nested_def elim: passesD)
next
  case (EmbeddedArray nm pss)
  have "passes Skip () (encode_list ps) 0" if "ps \<in> set pss" for ps
    by (rule Skip_list) (use EmbeddedArray that in \<open>auto simp: list_all_iff\<close>)
  then have "passes (repeatE (length (map encode_list pss)) Skip) () (concat (map encode_list pss)) 0"
    by (intro passes_repeatE) (simp add: list_all_iff)
  with EmbeddedArray.prems show ?case
    by (auto simp: skip_nested_def proc_simps NVType_defs elim: passesD)
qed

lemma Skip_passes: "list_all wf_pair ps \<Longrightarrow> passes Skip () (encode_list ps) 0"
  by (rule Skip_list) (auto simp: list_all_iff intro: skip_nested_pair)

lemma Skip_tight:
  assumes "list_all wf_pair ps" and "before r (encode_list ps)"
  shows "fst (Skip r) = Inl (Err ErrInvalidData)"
proof -
  have "fst ((\<lambda>_. Skip) () r) = Inl (Err ErrInvalidData)"
    by (rule tight_loop [where step = "\<lambda>t _. skip_nested t" and upd = "\<lambda>_ _. ()"])
      (use Skip_unfold_unit assms in \<open>auto simp: list_all_iff intro: skip_nested_pair\<close>)
  then show ?thesis by simp
qed

end
