(* ===== verification/NV_Leaf.thy ===== *)
theory NV_Leaf
  imports NV_Walk
begin

text \<open>
  The values that the payload of a leaf stands for, and that the accessors of the reader return
  exactly them when it stands on such a pair. The exporter's parsers use integers, strings and
  arrays of integers.
\<close>

section \<open>Values of leaves\<close>

fun leaf_uint64 :: "nvpair \<Rightarrow> 64 word option" where
  "leaf_uint64 (Leaf nm t n bs) = (if t = TypeUint64 \<and> length bs = 8 then Some (bytes_word bs) else None)"
| "leaf_uint64 _ = None"

fun leaf_string :: "nvpair \<Rightarrow> string option" where
  "leaf_string (Leaf nm t n bs) =
     (if t = TypeString \<and> 0 \<in> set bs then Some (string_of_bytes (takeWhile (\<lambda>b. b \<noteq> 0) bs)) else None)"
| "leaf_string _ = None"

fun leaf_uint64s :: "nvpair \<Rightarrow> 64 word list option" where
  "leaf_uint64s (Leaf nm t n bs) =
     (if t = TypeUint64Array \<and> length bs = 8 * n then Some (map bytes_word (chunks 8 n bs)) else None)"
| "leaf_uint64s _ = None"

section \<open>Making leaves\<close>

definition uint64_leaf :: "string \<Rightarrow> 64 word \<Rightarrow> nvpair" where
  "uint64_leaf nm w = Leaf nm TypeUint64 1 (word_bytes 8 w)"

definition string_leaf :: "string \<Rightarrow> string \<Rightarrow> nvpair" where
  "string_leaf nm s = Leaf nm TypeString 1 (bytes_of_string s @ [0])"

definition uint64s_leaf :: "string \<Rightarrow> 64 word list \<Rightarrow> nvpair" where
  "uint64s_leaf nm ws = Leaf nm TypeUint64Array (length ws) (concat (map (word_bytes 8) ws))"

lemma leaf_uint64_leaf [simp]: "leaf_uint64 (uint64_leaf nm w) = Some w"
  by (simp add: uint64_leaf_def le64.dec_enc)

lemma leaf_uint64s_leaf [simp]: "leaf_uint64s (uint64s_leaf nm ws) = Some ws"
  using le64.decode_run [of ws "[]"] by (simp add: uint64s_leaf_def le64.length_concat_enc)

lemma zero_in_bytes: "0 \<in> set (bytes_of_string s) \<longleftrightarrow> CHR 0x00 \<in> set s"
proof -
  have "(word_of_nat (of_char c) :: byte) = 0 \<longleftrightarrow> c = CHR 0x00" for c
  proof
    assume "(word_of_nat (of_char c) :: byte) = 0"
    then have "char_of (unat (0 :: byte)) = c" using byte_char [of c] by simp
    then show "c = CHR 0x00" by (simp add: char_of_def)
  qed simp
  then show ?thesis by (auto simp: bytes_of_string_def image_iff)
qed

lemma leaf_string_leaf [simp]: "CHR 0x00 \<notin> set s \<Longrightarrow> leaf_string (string_leaf nm s) = Some s"
proof -
  assume "CHR 0x00 \<notin> set s"
  then have "0 \<notin> set (bytes_of_string s)" by (simp add: zero_in_bytes)
  then have "takeWhile (\<lambda>b. b \<noteq> 0) (bytes_of_string s @ [0]) = bytes_of_string s"
    by (subst takeWhile_append2) auto
  then show ?thesis by (simp add: string_leaf_def)
qed

section \<open>Reading them\<close>

text \<open>The reader stands on the pair \<open>p\<close>, as \<open>Next\<close> leaves it.\<close>

definition at_pair :: "NVListReader \<Rightarrow> nvpair \<Rightarrow> byte list \<Rightarrow> bool" where
  "at_pair r p post \<longleftrightarrow> Name r = pair_name p \<and> NumElements r = pair_count p \<and>
     (pair_tag p \<noteq> TypeStringArray \<longrightarrow>
       at_value r (pair_payload p @ padding (length (pair_payload p))) post)"

lemma at_pairI:
  assumes "Name r = pair_name p" and "NumElements r = pair_count p"
    and "pair_tag p \<noteq> TypeStringArray \<Longrightarrow>
      at_value r (pair_payload p @ padding (length (pair_payload p))) post"
  shows "at_pair r p post"
  using assms by (simp add: at_pair_def)

lemma at_pair_name: "at_pair r p post \<Longrightarrow> Name r = pair_name p"
  and at_pair_count: "at_pair r p post \<Longrightarrow> NumElements r = pair_count p"
  by (simp_all add: at_pair_def)

lemma at_pair_uint64:
  assumes "at_pair r p post" and "leaf_uint64 p = Some w"
  shows "UInt64 r = Inr w \<and> pair_tag p = TypeUint64"
proof (cases p)
  case (Leaf nm t n bs)
  with assms(2) have "t = TypeUint64" "length bs = 8" "w = bytes_word bs"
    by (auto split: if_splits)
  with assms(1) Leaf show ?thesis
    by (auto simp: at_pair_def UInt64_def scalar_at_value NVType_defs)
qed (use assms in auto)

lemma chunks_append: "length bs = w * n \<Longrightarrow> chunks w n (bs @ rest) = chunks w n bs"
  by (induction n arbitrary: bs) simp_all

lemma at_pair_uint64s:
  assumes "at_pair r p post" and "leaf_uint64s p = Some ws"
  shows "UInt64Array r = Inr ws \<and> pair_tag p = TypeUint64Array"
proof (cases p)
  case (Leaf nm t n bs)
  with assms(2) have t: "t = TypeUint64Array" "length bs = 8 * n" "ws = map bytes_word (chunks 8 n bs)"
    by (auto split: if_splits)
  with assms(1) Leaf have v: "at_value r (bs @ padding (length bs)) post" and n: "numElements r = n"
    by (auto simp: at_pair_def NVType_defs NumElements_def)
  have "drop (dataPos r) (Data r) = bs @ padding (length bs) @ post" using v by (simp add: at_value_def)
  then have "chunks 8 n (drop (dataPos r) (Data r)) = chunks 8 n bs" using t(2) by (simp add: chunks_append)
  with at_value_length [OF v] at_value_pair_data [OF v] t n Leaf show ?thesis
    by (simp add: UInt64Array_def unsafe_array_def)
qed (use assms in auto)

lemma at_pair_string:
  assumes "at_pair r p post" and "leaf_string p = Some s"
  shows "NV_String r = Inr s \<and> pair_tag p = TypeString"
proof (cases p)
  case (Leaf nm t n bs)
  with assms(2) have t: "t = TypeString" "0 \<in> set bs" and s: "s = string_of_bytes (takeWhile (\<lambda>b. b \<noteq> 0) bs)"
    by (auto split: if_splits)
  from split_list_first [OF t(2)] obtain ys zs where bs: "bs = ys @ 0 # zs" and ys: "0 \<notin> set ys"
    by blast
  have "takeWhile (\<lambda>b. b \<noteq> 0) (ys @ 0 # zs) = ys" using ys by (subst takeWhile_append2) auto
  with s bs have s': "s = string_of_bytes ys" by simp
  have "at_value r (ys @ 0 # zs @ padding (length bs)) post"
    using assms(1) Leaf t(1) bs by (simp add: at_pair_def NVType_defs)
  from NV_String_at_value [OF this ys] s' have "NV_String r = Inr s" by simp
  with t Leaf show ?thesis by simp
qed (use assms in auto)

section \<open>Loops over pairs\<close>

text \<open>
  \<open>consumes_pair step upd p\<close>: behind the pair \<open>p\<close> the loop body \<open>step\<close> reads what the pair
  left and turns the accumulator \<open>c\<close> into \<open>upd p c\<close>.
\<close>

definition consumes_pair ::
  "(NVType \<Rightarrow> 'c \<Rightarrow> (NVListReader, 'c) proc) \<Rightarrow> (nvpair \<Rightarrow> 'c \<Rightarrow> 'c) \<Rightarrow> nvpair \<Rightarrow> bool" where
  "consumes_pair step upd p \<longleftrightarrow> (\<forall>c r rest. before r (pair_tail p @ rest) \<longrightarrow> rest \<noteq> [] \<longrightarrow>
     at_pair r p (pair_tail p @ rest) \<longrightarrow>
     (\<exists>r'. step (pair_tag p) c r = (Inr (upd p c), r') \<and> before r' rest))"

lemma consumes_pairI:
  assumes "\<And>c r rest. before r (pair_tail p @ rest) \<Longrightarrow> rest \<noteq> [] \<Longrightarrow> at_pair r p (pair_tail p @ rest) \<Longrightarrow>
     \<exists>r'. step (pair_tag p) c r = (Inr (upd p c), r') \<and> before r' rest"
  shows "consumes_pair step upd p"
  using assms by (simp add: consumes_pair_def)

definition next_loop ::
  "(NVType \<Rightarrow> 'c \<Rightarrow> (NVListReader, 'c) proc) \<Rightarrow> ('c \<Rightarrow> (NVListReader, 'c) proc) \<Rightarrow> bool" where
  "next_loop step loop \<longleftrightarrow> (\<forall>c r. loop c r =
     (case Next r of
        (Inl e, r') \<Rightarrow> if e = Err EOF then (Inr c, r') else (Inl e, r')
      | (Inr t, r') \<Rightarrow> bindE (step t c) loop r'))"

lemma pairs_loop:
  assumes loop: "next_loop step loop" and wf: "list_all wf_pair ps"
    and step: "list_all (consumes_pair step upd) ps"
  shows "passes (loop c) (fold upd ps c) (encode_list ps) 0"
proof (rule passes_loop [where step = step])
  show "\<exists>r'. step (pair_tag p) c r = (Inr (upd p c), r') \<and> before r' rest"
    if "p \<in> set ps" "before r (pair_tail p @ rest)" "rest \<noteq> []" "Name r = pair_name p"
      "NumElements r = pair_count p"
      "pair_tag p \<noteq> TypeStringArray \<Longrightarrow>
         at_value r (pair_payload p @ padding (length (pair_payload p))) (pair_tail p @ rest)"
    for p c r rest
    using step that unfolding list_all_iff consumes_pair_def by (blast intro: at_pairI)
qed (use loop wf in \<open>auto simp: next_loop_def\<close>)

text \<open>The same for a body that is specified under an invariant of the accumulator.\<close>

lemma pairs_loop_inv:
  assumes loop: "next_loop step loop" and wf: "list_all wf_pair ps"
    and step: "\<And>p c r rest. p \<in> set ps \<Longrightarrow> I c \<Longrightarrow> before r (pair_tail p @ rest) \<Longrightarrow> rest \<noteq> [] \<Longrightarrow>
      at_pair r p (pair_tail p @ rest) \<Longrightarrow> \<exists>r'. step (pair_tag p) c r = (Inr (upd p c), r') \<and> before r' rest"
    and inv: "\<And>p c. p \<in> set ps \<Longrightarrow> I c \<Longrightarrow> I (upd p c)" and "I c"
  shows "passes (loop c) (fold upd ps c) (encode_list ps) 0"
  by (rule passes_loop_inv [where step = step and I = I])
    (use loop wf inv \<open>I c\<close> in \<open>auto simp: next_loop_def intro: step at_pairI\<close>)

lemma pairs_loop_tight:
  assumes loop: "next_loop step loop" and wf: "list_all wf_pair ps"
    and step: "list_all (consumes_pair step upd) ps" and r: "before r (encode_list ps)"
  shows "fst (loop c r) = Inl (Err ErrInvalidData)"
proof (rule tight_loop [where step = step and upd = upd and ps = ps])
  show "\<exists>r'. step (pair_tag p) c r = (Inr (upd p c), r') \<and> before r' rest"
    if "p \<in> set ps" "before r (pair_tail p @ rest)" "rest \<noteq> []" "Name r = pair_name p"
      "NumElements r = pair_count p"
      "pair_tag p \<noteq> TypeStringArray \<Longrightarrow>
         at_value r (pair_payload p @ padding (length (pair_payload p))) (pair_tail p @ rest)"
    for p c r rest
    using step that unfolding list_all_iff consumes_pair_def by (blast intro: at_pairI)
qed (use loop wf r in \<open>auto simp: next_loop_def\<close>)

text \<open>Reading what a pair left over: nothing, or its embedded lists with \<open>Skip\<close> or one by one.\<close>

lemma passes_collectE:
  "list_all2 (\<lambda>a s. passes m a s k) as ss \<Longrightarrow> passes (collectE (length ss) m) as (concat ss) k"
proof (induction as ss rule: list_all2_induct)
  case Nil
  show ?case by (simp add: passes_ret)
next
  case (Cons a as s ss)
  have "passes (bindE (collectE (length ss) m) (\<lambda>xs. ret (a # xs))) (a # as) (concat ss @ []) k"
    by (rule passes_bindE [OF Cons.IH passes_ret])
  then have "passes (bindE m (\<lambda>x. bindE (collectE (length ss) m) (\<lambda>xs. ret (x # xs)))) (a # as) (s @ concat ss) k"
    using passes_bindE [OF Cons.hyps(1)] by simp
  then show ?case by simp
qed

section \<open>Shared facts\<close>

lemma find_delim_total: "find_delim xs p d i k \<noteq> Inl OutOfFuel"
  by (induction k arbitrary: i) (auto simp: go_index_def)

lemma UInt64_total: "UInt64 r \<noteq> Inl OutOfFuel"
  by (simp add: UInt64_def scalar_def pair_data_def go_slice_def native_uint_def)

lemma NV_String_total: "NV_String r \<noteq> Inl OutOfFuel"
  using find_delim_total [of "Data r" "dataPos r" 0 0 "nat (dataLen r)"]
  by (auto simp: NV_String_def BytesUntilDelimiter_def go_slice_def split: sum.split)

lemma UInt64Array_total: "UInt64Array r \<noteq> Inl OutOfFuel"
  by (simp add: UInt64Array_def unsafe_array_def pair_data_def go_slice_def)

lemma settled_query: "(\<And>s. f s \<noteq> Inl OutOfFuel) \<Longrightarrow> settled rem (\<lambda>n. query f) n s"
  by (rule settled_const) (simp_all add: query_apply)

lemma settled_Skip_const: "settled remaining (\<lambda>n. Skip) n r"
  using Skip_total unbounded_consumes [OF bounded_Skip] by (intro settled_const) (auto simp: Skip_def)

lemma bindE_query: "f s = Inr a \<Longrightarrow> bindE (query f) g s = g a s"
  by (simp add: bindE_def query_apply)

lemma leaf_names [simp]:
  "pair_name (string_leaf nm s) = nm" "pair_name (uint64_leaf nm w) = nm" "pair_name (uint64s_leaf nm ws) = nm"
  by (simp_all add: string_leaf_def uint64_leaf_def uint64s_leaf_def)

lemma wire_size_le: "wire_size nm bs \<le> length nm + length bs + 31"
proof -
  have "length (padding n) \<le> 7" for n by (simp add: padding_def)
  from this [of "name_end nm"] this [of "length bs"] show ?thesis by (simp add: wire_size_def name_end_def)
qed

lemma wf_leaves:
  "length nm < 4096 \<Longrightarrow> length s < 2 ^ 30 \<Longrightarrow> wf_pair (string_leaf nm s)"
  "length nm < 4096 \<Longrightarrow> wf_pair (uint64_leaf nm w)"
  "length nm < 4096 \<Longrightarrow> length ws \<le> 65535 \<Longrightarrow> wf_pair (uint64s_leaf nm ws)"
  using wire_size_le [of nm "bytes_of_string s @ [0]"] wire_size_le [of nm "word_bytes 8 w"]
    wire_size_le [of nm "concat (map (word_bytes 8) ws)"]
  by (simp_all add: string_leaf_def uint64_leaf_def uint64s_leaf_def wire_fits_def NVType_defs
      le64.length_concat_enc)

lemma before_stream: "post \<noteq> [] \<Longrightarrow> before (new_reader (encode_stream ps @ post)) (encode_list ps @ post)"
  using before_new [of "encode_list ps @ post"] by (simp add: encode_stream_def)

section \<open>Parsers of lists\<close>

text \<open>
  The interface between the parsers of the exporter and what their callers rely on: a parser is
  a token loop \<open>loop\<close> with body \<open>step\<close>, and its body reads every pair that is \<open>ok\<close>,
  changing what the loop builds by \<open>upd\<close>. Then the parser reads an encoded list, also at
  the beginning of a buffer, and refuses one that fills its buffer to the last byte.
\<close>

locale list_parser =
  fixes step :: "NVType \<Rightarrow> 'c \<Rightarrow> (NVListReader, 'c) proc"
    and loop :: "'c \<Rightarrow> (NVListReader, 'c) proc"
    and upd :: "nvpair \<Rightarrow> 'c \<Rightarrow> 'c"
    and ok :: "nvpair \<Rightarrow> bool"
  assumes is_loop: "next_loop step loop"
    and reads_pair: "wf_pair p \<Longrightarrow> ok p \<Longrightarrow> consumes_pair step upd p"
begin

lemma consumes_all: "list_all wf_pair ps \<Longrightarrow> list_all ok ps \<Longrightarrow> list_all (consumes_pair step upd) ps"
  by (auto simp: list_all_iff intro: reads_pair)

lemma reads_list:
  "list_all wf_pair ps \<Longrightarrow> list_all ok ps \<Longrightarrow> passes (loop c) (fold upd ps c) (encode_list ps) 0"
  by (intro pairs_loop [OF is_loop] consumes_all)

lemma reads_stream:
  assumes "list_all wf_pair ps" and "list_all ok ps" and "post \<noteq> []"
  shows "fst (loop c (new_reader (encode_stream ps @ post))) = Inr (fold upd ps c)"
proof -
  have "0 < length post" using assms(3) by simp
  with before_stream [OF assms(3), of ps] obtain r'
    where "loop c (new_reader (encode_stream ps @ post)) = (Inr (fold upd ps c), r')"
    by (rule passesD [OF reads_list [OF assms(1,2)]])
  then show ?thesis by simp
qed

lemma refuses_tight:
  assumes "list_all wf_pair ps" and "list_all ok ps" and "before r (encode_list ps)"
  shows "fst (loop c r) = Inl (Err ErrInvalidData)"
  by (rule pairs_loop_tight [OF is_loop assms(1) consumes_all [OF assms(1,2)] assms(3)])

lemma refuses_tight_stream:
  assumes "list_all wf_pair ps" and "list_all ok ps"
  shows "fst (loop c (new_reader (encode_stream ps))) = Inl (Err ErrInvalidData)"
proof (rule refuses_tight [OF assms])
  have "encode_list ps \<noteq> []" using length_encode_list [of ps] by auto
  then show "before (new_reader (encode_stream ps)) (encode_list ps)"
    using before_new [of "encode_list ps"] by (simp add: encode_stream_def)
qed

end

end
