(* ===== verification/NV_Properties.thy ===== *)
theory NV_Properties
  imports NV_Leaf
begin

text \<open>
  The properties of package nvlist: the reader's safety and progress, its agreement with the
  wire format, the typed accessors, \<open>Skip\<close> and the type tags.
\<close>

section \<open>The reader\<close>

text \<open>
  C2. Safety of \<open>Next\<close>: on a fresh reader, or one whose header has been read, it returns a
  token or an error and never panics, whatever the bytes are; a token leaves such a reader
  again, over the same buffer, strictly further on and inside the buffer.
\<close>

theorem Next_safe:
  assumes "reader_ok r"
  shows "returns (fst (Next r)) \<and>
    (\<forall>t r'. Next r = (Inr t, r') \<longrightarrow>
       reader_ok r' \<and> Data r' = Data r \<and> pos r < pos r' \<and> pos r' + 4 < length (Data r))"
  using Next_returns [OF assms] reader_ok_Next [OF assms] Next_progress by blast

definition sample_pairs :: "nvpair list" where
  "sample_pairs =
    [string_leaf ''name'' ''tank'',
     EmbeddedArray ''parts'' [[uint64_leaf ''id'' 1], [uint64_leaf ''id'' 2]],
     uint64s_leaf ''stats'' [7, 8, 9]]"

lemma sample_pairs_wf: "list_all wf_pair sample_pairs"
  by (simp add: sample_pairs_def wf_leaves wire_fits_def wire_size_def name_end_def padding_def)

lemma sample_reader: "reader_ok (new_reader (encode_stream sample_pairs @ [0]))"
  by simp

theorem Next_safe_witness: "returns (fst (Next (new_reader (encode_stream sample_pairs @ [0]))))"
  using Next_safe [OF sample_reader] by blast

text \<open>
  C18. Exactness of \<open>Next\<close>: it delivers a token exactly when the header (on a fresh reader) and
  the pair's size, name size, element count and name are acceptable, and then the token and
  the reader are those of the pair at the position; it reports the end of a list exactly at a
  zero size field with a byte behind it.
\<close>

theorem Next_exact:
  "(Next r = (Inr t, r') \<longleftrightarrow>
      entry_ok r \<and> pair_ok (entry r) \<and> t = pair_type (entry r) \<and> r' = pair_entered (entry r)) \<and>
   (Next r = (Inl (Err EOF), r') \<longleftrightarrow>
      entry_ok r \<and> u32_at (Data r) (pos (entry r)) = 0 \<and> pos (entry r) + 4 < length (Data r) \<and>
      r' = (entry r)\<lparr>pos := pos (entry r) + 4\<rparr>)"
  using Next_Inr Next_EOF by blast

text \<open>
  C19. The first call on a buffer gets past the header exactly when the buffer has more than 12
  bytes, its encoding is native or XDR and it is marked little-endian; otherwise the call
  fails, and never with \<open>io.EOF\<close>. So big-endian lists are refused.
\<close>

theorem header_check:
  "if header_ok d then Next (new_reader d) = nextPair (header_read (new_reader d))
   else \<exists>e r'. Next (new_reader d) = (Inl (Err e), r') \<and>
     e \<in> {ErrInvalidData, ErrInvalidEncoding, ErrInvalidEndianess,
           Errorf ''conversion from big endian not yet supported''}"
proof (cases "header_ok d")
  case True
  then have "entry_ok (new_reader d)" by (simp add: entry_ok_def new_reader_def)
  with True show ?thesis by (simp add: Next_after_header entry_def new_reader_def)
next
  case False
  then have "\<not> entry_ok (new_reader d)" by (simp add: entry_ok_def new_reader_def)
  then show ?thesis by (rule Next_no_header) (use False in auto)
qed

text \<open>
  C3. Decoding a pair: on a stream in the native format, the first \<open>Next\<close> delivers the first
  pair of the list with its type, its name, its element count, and its data in place.
\<close>

theorem Next_decodes:
  assumes "wf_pair p" and "post \<noteq> []"
  shows "\<exists>r'. Next (new_reader (encode_stream (p # ps) @ post)) = (Inr (pair_tag p), r') \<and>
    Name r' = pair_name p \<and> NumElements r' = pair_count p \<and>
    (pair_tag p \<noteq> TypeStringArray \<longrightarrow>
      pair_data r' = Inr (pair_payload p @ padding (length (pair_payload p))))"
proof -
  have "before (new_reader (encode_stream (p # ps) @ post)) (encode p @ encode_list ps @ post)"
    using before_new [of "encode_list (p # ps) @ post"] assms(2)
    by (simp add: encode_stream_def encode_list_Cons)
  moreover have "4 < length (pair_tail p @ encode_list ps @ post)"
    using length_encode_list [of ps] assms(2) by (cases post) auto
  ultimately show ?thesis
    using Next_encode [OF _ assms(1)] by (blast intro: at_value_pair_data)
qed

theorem Next_decodes_witness:
  "\<exists>r'. Next (new_reader (encode_stream [string_leaf ''name'' ''tank''] @ [0])) = (Inr TypeString, r') \<and>
     Name r' = ''name'' \<and> NumElements r' = 1"
  using Next_decodes [of "string_leaf ''name'' ''tank''" "[0]" "[]"]
  by (auto simp: wf_leaves) (auto simp: string_leaf_def)

section \<open>Accessors\<close>

text \<open>
  C20. After a token other than that of an array of strings: the accessors of two, four and eight bytes
  return exactly when the pair has that many bytes of data, and panic otherwise, as the width is not
  compared with the pair's type, nor its size with the pair's length; \<open>UInt8\<close>, \<open>Int8\<close> and \<open>Byte\<close> do not look at the
  length of the pair at all: they return exactly when the position of the data is inside the buffer, and
  what they return may belong to what follows the pair.
\<close>

theorem scalar_checked:
  assumes "Next r = (Inr t, r')" and "t \<noteq> TypeStringArray"
  shows "(returns (UInt64 r') \<longleftrightarrow> dataPos r' + 8 \<le> pos r') \<and> (returns (Int64 r') \<longleftrightarrow> dataPos r' + 8 \<le> pos r') \<and>
    (returns (UInt32 r') \<longleftrightarrow> dataPos r' + 4 \<le> pos r') \<and> (returns (Int32 r') \<longleftrightarrow> dataPos r' + 4 \<le> pos r') \<and>
    (returns (Boolean r') \<longleftrightarrow> dataPos r' + 4 \<le> pos r') \<and>
    (returns (UInt16 r') \<longleftrightarrow> dataPos r' + 2 \<le> pos r') \<and> (returns (Int16 r') \<longleftrightarrow> dataPos r' + 2 \<le> pos r') \<and>
    (returns (UInt8 r') \<longleftrightarrow> dataPos r' < length (Data r)) \<and> (returns (Int8 r') \<longleftrightarrow> dataPos r' < length (Data r)) \<and>
    (returns (Byte r') \<longleftrightarrow> dataPos r' < length (Data r)) \<and>
    (dataPos r' < length (Data r) \<longrightarrow> UInt8 r' = Inr (Data r ! dataPos r'))"
proof -
  have bool: "returns (Boolean r') \<longleftrightarrow> returns (Int32 r')"
    by (auto simp: Boolean_def returns_iff Int32_def scalar_def pair_data_after_Next(1) [OF assms] native_uint_def
        split: sum.splits if_splits)
  have data: "Data r' = Data r" using Next_progress(1) [OF assms(1)] .
  show ?thesis
    unfolding bool by (simp only: UInt64_def Int64_def UInt32_def Int32_def UInt16_def Int16_def
        scalar_after_Next [OF assms]) (simp add: UInt8_def Int8_def Byte_def go_index_def data)
qed

text \<open>A pair of type uint64 whose four bytes of data are too few.\<close>

definition short_pair :: "byte list" where
  "short_pair = wire_header @ le_bytes 4 28 @ le_bytes 2 2 @ [0, 0] @ le_bytes 4 1 @ word_bytes 4 TypeUint64 @
     bytes_of_string ''x'' @ [0] @ replicate 6 0 @ le_bytes 4 7 @ replicate 5 0"

lemma short_pair_Next:
  "fst (Next (new_reader short_pair)) = Inr TypeUint64 \<and>
   dataPos (snd (Next (new_reader short_pair))) = 36 \<and> pos (snd (Next (new_reader short_pair))) = 40"
  by code_simp

text \<open>A pair of type uint8 without data, in front of a pair whose size field starts with the byte 32.\<close>

definition empty_pair :: "byte list" where
  "empty_pair = wire_header @ le_bytes 4 24 @ le_bytes 2 2 @ [0, 0] @ le_bytes 4 1 @ word_bytes 4 TypeUint8 @
     bytes_of_string ''x'' @ [0] @ replicate 6 0 @ le_bytes 4 32 @ replicate 40 0"

lemma empty_pair_Next:
  "fst (Next (new_reader empty_pair)) = Inr TypeUint8 \<and>
   dataPos (snd (Next (new_reader empty_pair))) = 36 \<and> pos (snd (Next (new_reader empty_pair))) = 36 \<and>
   36 < length empty_pair \<and> empty_pair ! 36 = 32"
  by code_simp

theorem scalar_checked_witness:
  "\<not> returns (UInt64 (snd (Next (new_reader short_pair)))) \<and> returns (Int32 (snd (Next (new_reader short_pair)))) \<and>
   UInt8 (snd (Next (new_reader empty_pair))) = Inr 32"
  using scalar_checked [of "new_reader short_pair" TypeUint64 "snd (Next (new_reader short_pair))"] short_pair_Next
    scalar_checked [of "new_reader empty_pair" TypeUint8 "snd (Next (new_reader empty_pair))"] empty_pair_Next
  by (simp add: prod_eq_iff NVType_defs new_reader_def)

text \<open>
  C21. Round trip of values: standing on a pair of the wire format, the accessors the exporter uses
  return the integer, the string and the array of integers that the pair was made from.
\<close>

theorem value_roundtrip:
  "(at_pair r (uint64_leaf nm w) post \<longrightarrow> UInt64 r = Inr w) \<and>
   (at_pair r (uint64s_leaf nm ws) post \<longrightarrow> UInt64Array r = Inr ws) \<and>
   (at_pair r (string_leaf nm s) post \<longrightarrow> CHR 0x00 \<notin> set s \<longrightarrow> NV_String r = Inr s)"
  using at_pair_uint64 leaf_uint64_leaf at_pair_uint64s leaf_uint64s_leaf at_pair_string leaf_string_leaf
  by blast

definition tank_reader :: NVListReader where
  "tank_reader = snd (Next (new_reader (encode_stream [string_leaf ''name'' ''tank''] @ [0])))"

lemma tank_reader_at: "at_pair tank_reader (string_leaf ''name'' ''tank'') (end_marker @ [0])"
proof -
  let ?p = "string_leaf ''name'' ''tank''"
  let ?r = "new_reader (encode_stream [?p] @ [0])"
  have "before ?r (encode ?p @ end_marker @ [0])"
    using before_new [of "encode_list [?p] @ [0]"] by (simp add: encode_stream_def encode_list_def)
  moreover have "wf_pair ?p" by (simp add: wf_leaves)
  moreover have "pair_tail ?p = []" by (simp add: string_leaf_def)
  ultimately show ?thesis using Next_encode [of ?r ?p "end_marker @ [0]"]
    by (auto simp: tank_reader_def at_pair_def)
qed

theorem value_roundtrip_witness: "NV_String tank_reader = Inr ''tank''"
  using value_roundtrip [where r = tank_reader and nm = "''name''" and s = "''tank''"] tank_reader_at by auto

text \<open>
  \<open>StringArray\<close>, its copying variant and \<open>BooleanArray\<close> call the scalar accessor once per
  element without moving the reader: what they return is the first element, repeated.
\<close>

theorem array_repeats_first:
  "StringArray r =
     (if NumElements r = 0 then Inr []
      else case NV_String r of Inl e \<Rightarrow> Inl e | Inr s \<Rightarrow> Inr (replicate (NumElements r) s)) \<and>
   StringArraySafe r = StringArray r \<and>
   BooleanArray r =
     (if NumElements r = 0 then Inr []
      else case Boolean r of Inl e \<Rightarrow> Inl e | Inr b \<Rightarrow> Inr (replicate (NumElements r) b))"
  by (simp add: StringArray_def StringArraySafe_def BooleanArray_def append_times_const
      split: sum.split)

section \<open>Skip\<close>

text \<open>
  C22. Termination of \<open>Skip\<close>: on every reader, and whatever nesting the bytes pretend to have,
  it ends; it satisfies the recursion of the source, with no bound in it; and on a reader
  whose header has been read it never panics.
\<close>

theorem Skip_terminates:
  "fst (Skip r) \<noteq> Inl OutOfFuel \<and> (reader_ok r \<longrightarrow> returns (fst (Skip r))) \<and>
   Skip r =
     (case Next r of
        (Inl e, r') \<Rightarrow> if e = Err EOF then (Inr (), r') else (Inl e, r')
      | (Inr token, r') \<Rightarrow> bindE (skip_nested token) (\<lambda>_. Skip) r')"
  using Skip_total Skip_returns Skip_unfold by blast

theorem Skip_terminates_witness:
  "returns (fst (Skip (new_reader (encode_stream sample_pairs @ [0]))))"
  using Skip_terminates [of "new_reader (encode_stream sample_pairs @ [0])"] sample_reader by blast

text \<open>
  C9. \<open>Skip\<close> reads over exactly one list, the lists nested in it included: it stops where the
  list ends, so that what follows is read next.
\<close>

theorem Skip_exact:
  assumes "list_all wf_pair ps" and "before r (encode_list ps @ rest)" and "rest \<noteq> []"
  shows "\<exists>r'. Skip r = (Inr (), r') \<and> before r' rest"
  using Skip_passes [OF assms(1)] assms(2,3) by (auto simp: passes_def)

theorem Skip_exact_witness:
  "\<exists>r'. Skip (new_reader (encode_stream sample_pairs @ [1, 2, 3])) = (Inr (), r') \<and> before r' [1, 2, 3]"
  using Skip_exact [OF sample_pairs_wf before_stream [of "[1, 2, 3]"]] by simp

text \<open>
  C23. A buffer that ends with the last byte of the list is refused: the reader wants one byte
  more than it needs behind every field, so \<open>Skip\<close> reports invalid data on a list that
  fits its buffer exactly.
\<close>

theorem Skip_refuses_tight:
  assumes "list_all wf_pair ps"
  shows "fst (Skip (new_reader (encode_stream ps))) = Inl (Err ErrInvalidData)"
proof -
  have "encode_list ps \<noteq> []" using length_encode_list [of ps] by auto
  then have "before (new_reader (encode_stream ps)) (encode_list ps)"
    using before_new [of "encode_list ps"] by (simp add: encode_stream_def)
  with assms show ?thesis by (rule Skip_tight)
qed

theorem Skip_refuses_tight_witness:
  "fst (Skip (new_reader (encode_stream sample_pairs))) = Inl (Err ErrInvalidData)"
  using Skip_refuses_tight [OF sample_pairs_wf] .

section \<open>Types\<close>

text \<open>
  The type tags are the numbers 0 to 27, and \<open>NVType.String\<close> gives every one of them a
  name of its own; any other number prints as \<open>unknown\<close>.
\<close>

theorem NVType_names:
  "distinct (map NVType_String known_types) \<and> known_types = map word_of_nat [0..<28] \<and>
   (unat t < 28 \<or> NVType_String t = ''unknown'')"
  using NVType_String_inj_known known_types_upt NVType_String_unknown [of t] known_types_iff [of t]
  by blast

end
