(* ===== verification/Strconv.thy ===== *)
theory Strconv
  imports Go_Prelude
begin

text \<open>
  What the exporter uses of Go's standard library for numbers and paths: \<open>strconv.ParseUint\<close>
  and \<open>strconv.ParseInt\<close> in base 10, the verbs \<open>%d\<close> and \<open>%x\<close> of \<open>fmt\<close> on unsigned
  integers, and \<open>path.Base\<close>. Parsing a printed number gives the number back, and parsing is
  characterised on every string.
\<close>

section \<open>Parsing\<close>

definition is_digit :: "char \<Rightarrow> bool" where
  "is_digit c \<longleftrightarrow> 48 \<le> (of_char c :: nat) \<and> (of_char c :: nat) \<le> 57"

definition digit_value :: "char \<Rightarrow> nat" where
  "digit_value c = of_char c - 48"

text \<open>
  The digit loop of \<open>ParseUint\<close>: \<open>m\<close> is the largest value of the bit size. The library
  checks \<open>n >= cutoff\<close> before it multiplies and the wrap-around after it adds; the first
  failing check decides the error, so a number that is out of range is so even when it is
  followed by a letter.
\<close>

definition ParseUint_cutoff :: nat where
  "ParseUint_cutoff = (2 ^ 64 - 1) div 10 + 1"

primrec ParseUint_loop :: "nat \<Rightarrow> string \<Rightarrow> nat \<Rightarrow> error + nat" where
  "ParseUint_loop m [] n = Inr n"
| "ParseUint_loop m (c # cs) n =
     (if \<not> is_digit c then Inl ErrSyntax
      else if n \<ge> ParseUint_cutoff then Inl ErrRange
      else if 10 * n + digit_value c > m then Inl ErrRange
      else ParseUint_loop m cs (10 * n + digit_value c))"

definition ParseUint :: "string \<Rightarrow> nat \<Rightarrow> error + nat" where
  "ParseUint s bitSize = (if s = [] then Inl ErrSyntax else ParseUint_loop (2 ^ bitSize - 1) s 0)"

definition ParseInt :: "string \<Rightarrow> nat \<Rightarrow> error + int" where
  "ParseInt s bitSize =
     (if s = [] then Inl ErrSyntax
      else
        let neg = (hd s = CHR ''-'');
            digits = (if hd s = CHR ''+'' \<or> hd s = CHR ''-'' then tl s else s);
            cutoff = 2 ^ (bitSize - 1)
        in case ParseUint digits bitSize of
             Inl e \<Rightarrow> Inl e
           | Inr un \<Rightarrow>
               if \<not> neg \<and> un \<ge> cutoff then Inl ErrRange
               else if neg \<and> un > cutoff then Inl ErrRange
               else Inr (if neg then - int un else int un))"

text \<open>The value of a string of digits.\<close>

definition decimal_value :: "string \<Rightarrow> nat" where
  "decimal_value s = foldl (\<lambda>n c. 10 * n + digit_value c) 0 s"

lemma foldl_decimal_mono: "n \<le> foldl (\<lambda>n c. 10 * n + digit_value c) n s"
proof (induction s arbitrary: n)
  case (Cons c s)
  have "n \<le> 10 * n + digit_value c" by simp
  also have "\<dots> \<le> foldl (\<lambda>n c. 10 * n + digit_value c) (10 * n + digit_value c) s" by (rule Cons)
  finally show ?case by simp
qed simp

lemma ParseUint_loop_Inr:
  assumes "m \<le> 2 ^ 64 - 1" and "n \<le> m"
  shows "ParseUint_loop m s n = Inr k \<longleftrightarrow>
     list_all is_digit s \<and> k = foldl (\<lambda>n c. 10 * n + digit_value c) n s \<and> k \<le> m"
  using assms(2)
proof (induction s arbitrary: n)
  case Nil
  then show ?case by auto
next
  case (Cons c s)
  let ?n = "10 * n + digit_value c"
  have grow: "?n \<le> foldl (\<lambda>n c. 10 * n + digit_value c) ?n s" by (rule foldl_decimal_mono)
  have cut: "m < ?n" if "n \<ge> ParseUint_cutoff"
  proof -
    from that have "(2 ^ 64 - 1) div 10 + 1 \<le> n" by (simp add: ParseUint_cutoff_def)
    then have "2 ^ 64 - 1 < 10 * n" by linarith
    with assms(1) show ?thesis by linarith
  qed
  show ?case
  proof (cases "is_digit c \<and> ?n \<le> m")
    case True
    with cut have "\<not> n \<ge> ParseUint_cutoff" by fastforce
    with True Cons.IH [of ?n] show ?thesis by simp
  next
    case False
    with grow cut show ?thesis by auto
  qed
qed

lemma ParseUint_Inr:
  assumes "b \<le> 64"
  shows "ParseUint s b = Inr k \<longleftrightarrow>
     s \<noteq> [] \<and> list_all is_digit s \<and> k = decimal_value s \<and> k < 2 ^ b"
proof -
  have "(2 :: nat) ^ b \<le> 2 ^ 64" using assms by (intro power_increasing) simp_all
  then have "(2 :: nat) ^ b - 1 \<le> 2 ^ 64 - 1" by simp
  moreover have "k \<le> 2 ^ b - 1 \<longleftrightarrow> k < 2 ^ b"
    using zero_less_power [of "2 :: nat" b] by linarith
  ultimately show ?thesis
    using ParseUint_loop_Inr [of "2 ^ b - 1" 0 s k] by (auto simp: ParseUint_def decimal_value_def)
qed

section \<open>Printing\<close>

definition show_nat :: "nat \<Rightarrow> string" where
  "show_nat n = show_base 10 n"

definition show_hex :: "nat \<Rightarrow> string" where
  "show_hex n = show_base 16 n"

lemma digit_char_digit:
  assumes "d < 10"
  shows "is_digit (digit_char d)" and "digit_value (digit_char d) = d"
  using assms by (simp_all add: digit_char_def is_digit_def digit_value_def)

lemma show_nat_value: "list_all is_digit (show_nat n) \<and> decimal_value (show_nat n) = n \<and> show_nat n \<noteq> []"
  unfolding show_nat_def
proof (induction n rule: less_induct)
  case (less n)
  show ?case
  proof (cases "n < 10")
    case True
    then show ?thesis
      by (subst (1 2 3) show_base.simps) (simp add: digit_char_digit decimal_value_def)
  next
    case False
    then have "n div 10 < n" by simp
    with False less.IH [OF this] digit_char_digit [of "n mod 10"] show ?thesis
      by (subst (1 2 3) show_base.simps) (simp add: decimal_value_def)
  qed
qed

lemma ParseUint_show_nat: "b \<le> 64 \<Longrightarrow> n < 2 ^ b \<Longrightarrow> ParseUint (show_nat n) b = Inr n"
  using show_nat_value [of n] by (simp add: ParseUint_Inr)

lemma show_nat_inj: "show_nat m = show_nat n \<longleftrightarrow> m = n"
  by (metis show_nat_value)

section \<open>Paths\<close>

text \<open>\<open>path.Base\<close>: trailing slashes go, then everything up to the last slash.\<close>

definition path_Base :: "string \<Rightarrow> string" where
  "path_Base p =
     (if p = [] then ''.''
      else
        let stripped = rev (dropWhile (\<lambda>c. c = CHR ''/'') (rev p));
            base = rev (takeWhile (\<lambda>c. c \<noteq> CHR ''/'') (rev stripped))
        in if base = [] then ''/'' else base)"

lemma path_Base_no_slash: "CHR ''/'' \<in> set (path_Base p) \<Longrightarrow> path_Base p = ''/''"
  by (auto simp: path_Base_def Let_def dest: set_takeWhileD split: if_splits)

lemma path_Base_nonempty: "path_Base p \<noteq> []"
  by (simp add: path_Base_def Let_def)

end
