(* ===== verification/KStat.thy ===== *)
theory KStat
  imports Strconv Token_Loop
begin

text \<open>
  zfs/kstat/decode.go: the reader of the text that the SPL kernel module exports under
  /proc/spl/kstat. A kstat has a header line, a line of column headers and one row per value:
  name, type and data, separated by runs of spaces. A byte of the text is a \<open>char\<close>.

  Shown here: the reader is a token stream (each row consumes input; only the end of the text
  is \<open>io.EOF\<close>, an \<open>io.EOF\<close> met inside a line is wrapped or replaced), and it returns the
  rows of a well-formed table in order, with their three columns.
\<close>

section \<open>The reader\<close>

record KStatReader =
  kData :: string
  kpos :: nat
  HeaderType :: "8 word"
  rowName :: string
  rowType :: string
  rowData :: string

definition new_kstat_reader :: "string \<Rightarrow> KStatReader" where
  "new_kstat_reader d =
     \<lparr>kData = d, kpos = 0, HeaderType = 0, rowName = [], rowType = [], rowData = []\<rparr>"

text \<open>The two scanning loops: to the next \<open>b\<close>, and over a run of \<open>b\<close>.\<close>

function scan_to :: "string \<Rightarrow> char \<Rightarrow> nat \<Rightarrow> nat option" where
  "scan_to data b p =
     (if p \<ge> length data then None else if data ! p = b then Some p else scan_to data b (p + 1))"
  by pat_completeness auto
termination
  by (relation "measure (\<lambda>(data, b, p). length data - p)") auto

function scan_over :: "string \<Rightarrow> char \<Rightarrow> nat \<Rightarrow> nat option" where
  "scan_over data b p =
     (if p \<ge> length data then None else if data ! p \<noteq> b then Some p else scan_over data b (p + 1))"
  by pat_completeness auto
termination
  by (relation "measure (\<lambda>(data, b, p). length data - p)") auto

declare scan_to.simps [simp del] scan_over.simps [simp del]

definition readUntilExclude :: "char \<Rightarrow> (KStatReader, string) proc" where
  "readUntilExclude b r =
     (case scan_to (kData r) b (kpos r) of
        None \<Rightarrow> (Inl (Err EOF), r)
      | Some p \<Rightarrow> (Inr (take (p - kpos r) (drop (kpos r) (kData r))), r\<lparr>kpos := p + 1\<rparr>))"

definition readUntilExcludeIgnoringPrefix :: "char \<Rightarrow> char \<Rightarrow> (KStatReader, string) proc" where
  "readUntilExcludeIgnoringPrefix b ignorePrefix r =
     (case scan_over (kData r) ignorePrefix (kpos r) of
        None \<Rightarrow> (Inl (Err EOF), r)
      | Some p \<Rightarrow> readUntilExclude b (r\<lparr>kpos := p\<rparr>))"

section \<open>Header and columns\<close>

definition newline :: char where
  "newline = CHR 0x0A"

text \<open>\<open>t, err := strconv.ParseInt(typeBytes, 10, 32)\<close> and \<open>r.Header.Type = uint8(t)\<close>.\<close>

definition setHeaderType :: "string \<Rightarrow> (KStatReader, unit) proc" where
  "setHeaderType typeBytes r =
     (case ParseInt typeBytes 32 of
        Inl e \<Rightarrow> (Inl (Err (Wrapf ''error parsing type from header: %w'' e)), r)
      | Inr t \<Rightarrow> (Inr (), r\<lparr>HeaderType := word_of_int t\<rparr>))"

definition readHeader :: "(KStatReader, unit) proc" where
  "readHeader =
     bindE (wrapE ''error reading kid from header: %w'' (readUntilExclude CHR '' '')) (\<lambda>_.
     bindE (wrapE ''error reading type from header: %w'' (readUntilExclude CHR '' '')) (\<lambda>typeBytes.
     bindE (setHeaderType typeBytes) (\<lambda>_.
     bindE (wrapE ''error reading flags from header: %w'' (readUntilExclude CHR '' '')) (\<lambda>_.
     bindE (wrapE ''error reading kid from header: %w'' (readUntilExclude CHR '' '')) (\<lambda>_.
     bindE (wrapE ''error reading kid from header: %w'' (readUntilExclude CHR '' '')) (\<lambda>_.
     bindE (wrapE ''error reading kid from header: %w'' (readUntilExclude CHR '' '')) (\<lambda>_.
     bindE (wrapE ''error reading kid from header: %w'' (readUntilExclude newline)) (\<lambda>_.
     ret ()))))))))"

definition readColumn :: "char \<Rightarrow> (KStatReader, string) proc" where
  "readColumn b = replaceE (Errorf ''error reading column header'') (readUntilExcludeIgnoringPrefix b CHR '' '')"

text \<open>The second and the third message name the first column's text, as the code does.\<close>

definition readColumnHeaders :: "(KStatReader, unit) proc" where
  \<open>readColumnHeaders =
     bindE (readColumn CHR '' '') (\<lambda>c1.
     if c1 \<noteq> ''name'' then fail (ErrorfArg ''unexpected column header: want "name", got %q'' c1)
     else bindE (readColumn CHR '' '') (\<lambda>c2.
     if c2 \<noteq> ''type'' then fail (ErrorfArg ''unexpected column header: want "type", got %q'' c1)
     else bindE (readColumn newline) (\<lambda>c3.
     if c3 \<noteq> ''data'' then fail (ErrorfArg ''unexpected column header: want "data", got %q'' c1)
     else ret ())))\<close>

section \<open>Rows\<close>

text \<open>\<open>r.field, err = m\<close>: the field is assigned the zero value when \<open>m\<close> fails.\<close>

definition assign :: "(string \<Rightarrow> KStatReader \<Rightarrow> KStatReader) \<Rightarrow> (KStatReader, string) proc \<Rightarrow> (KStatReader, unit) proc" where
  "assign upd m r =
     (case m r of (Inl e, r') \<Rightarrow> (Inl e, upd [] r') | (Inr s, r') \<Rightarrow> (Inr (), upd s r'))"

definition readValue :: "string \<Rightarrow> char \<Rightarrow> (string \<Rightarrow> KStatReader \<Rightarrow> KStatReader) \<Rightarrow> (KStatReader, unit) proc" where
  "readValue msg b upd = replaceE (Errorf msg) (assign upd (readUntilExcludeIgnoringPrefix b CHR '' ''))"

definition readRow :: "(KStatReader, string) proc" where
  "readRow =
     bindE (readValue ''error reading value of column name'' CHR '' '' (\<lambda>s. rowName_update (\<lambda>_. s))) (\<lambda>_.
     bindE (readValue ''error reading value of column type'' CHR '' '' (\<lambda>s. rowType_update (\<lambda>_. s))) (\<lambda>_.
     bindE (readValue ''error reading value of column data'' newline (\<lambda>s. rowData_update (\<lambda>_. s))) (\<lambda>_.
     gets rowName)))"

definition readPreamble :: "(KStatReader, unit) proc" where
  "readPreamble =
     bindE readHeader (\<lambda>_.
     bindE (gets HeaderType) (\<lambda>t.
     if t \<noteq> 1
     then fail (Errorf ''KStatReader only supports kstat that are of type key-value pair'')
     else wrapE ''error reading column headers: %w'' readColumnHeaders))"

definition kstat_Next :: "(KStatReader, string) proc" where
  "kstat_Next =
     bindE (gets kpos) (\<lambda>p.
     bindE (if p = 0 then readPreamble else ret ()) (\<lambda>_.
     bindE (gets (\<lambda>r. kpos r = length (kData r))) (\<lambda>at_end.
     if at_end then fail EOF else readRow)))"

definition RowData :: "KStatReader \<Rightarrow> string" where
  "RowData r = rowData r"

definition RowDataAsUInt64 :: "KStatReader \<Rightarrow> exit + 64 word" where
  "RowDataAsUInt64 r =
     (case ParseUint (RowData r) 64 of
        Inl e \<Rightarrow> Inl (Err (Wrapf ''error parsing row data as uint64: %w'' e))
      | Inr i \<Rightarrow> Inr (word_of_nat i))"

section \<open>Scanning\<close>

lemma scan_to_Some:
  "scan_to data b p = Some q \<Longrightarrow> p \<le> q \<and> q < length data"
  by (induction data b p rule: scan_to.induct) (subst (asm) scan_to.simps, fastforce split: if_splits)

lemma scan_over_Some:
  "scan_over data b p = Some q \<Longrightarrow> p \<le> q \<and> q < length data"
  by (induction data b p rule: scan_over.induct) (subst (asm) scan_over.simps, fastforce split: if_splits)

lemma drop_eq_ConsD: "drop p xs = x # ys \<Longrightarrow> p < length xs \<and> xs ! p = x \<and> drop (Suc p) xs = ys"
  by (metis drop_Suc drop_all hd_drop_conv_nth list.distinct(1) list.sel(1,3) not_le tl_drop)

lemma scan_to_run:
  "drop p data = s @ b # rest \<Longrightarrow> b \<notin> set s \<Longrightarrow> scan_to data b p = Some (p + length s)"
proof (induction s arbitrary: p)
  case Nil
  then show ?case by (subst scan_to.simps) (auto dest: drop_eq_ConsD)
next
  case (Cons c s)
  then have "p < length data" and "data ! p = c" and "drop (p + 1) data = s @ b # rest"
    by (auto dest: drop_eq_ConsD)
  with Cons show ?case by (subst scan_to.simps) auto
qed

lemma scan_over_run:
  "drop p data = replicate n b @ c # rest \<Longrightarrow> c \<noteq> b \<Longrightarrow> scan_over data b p = Some (p + n)"
proof (induction n arbitrary: p)
  case 0
  then show ?case by (subst scan_over.simps) (auto dest: drop_eq_ConsD)
next
  case (Suc n)
  then have "p < length data" and "data ! p = b" and "drop (p + 1) data = replicate n b @ c # rest"
    by (auto dest: drop_eq_ConsD)
  with Suc show ?case by (subst scan_over.simps) auto
qed

section \<open>The kstat reader as a token stream\<close>

definition kstat_remaining :: "KStatReader \<Rightarrow> nat" where
  "kstat_remaining r = length (kData r) - kpos r"

definition text_advances :: "KStatReader \<Rightarrow> KStatReader \<Rightarrow> bool" where
  "text_advances r r' \<longleftrightarrow> kData r' = kData r \<and> kpos r \<le> kpos r' \<and>
     (kpos r \<le> length (kData r) \<longrightarrow> kpos r' \<le> length (kData r))"

lemma reflp_text_advances [contract_intros, simp]: "reflp text_advances"
  by (simp add: reflp_def text_advances_def)

lemma transp_text_advances [contract_intros, simp]: "transp text_advances"
  by (auto simp: transp_def text_advances_def)

lemma readUntilExclude_Inr:
  "readUntilExclude b r = (Inr s, r') \<Longrightarrow>
   text_advances r r' \<and> kpos r < kpos r' \<and> kpos r' \<le> length (kData r)"
  by (auto simp: readUntilExclude_def text_advances_def dest!: scan_to_Some split: option.splits)

lemma moves_readUntilExclude [contract_intros]: "moves text_advances (readUntilExclude b)"
  by (auto simp: moves_def readUntilExclude_def text_advances_def dest!: scan_to_Some
      split: option.split)

lemma total_readUntilExclude [contract_intros]: "total (readUntilExclude b)"
  by (simp add: total_def readUntilExclude_def split: option.split)

lemma scan_over_text: "scan_over (kData r) c (kpos r) = Some p \<Longrightarrow> text_advances r (r\<lparr>kpos := p\<rparr>)"
  by (auto simp: text_advances_def dest!: scan_over_Some)

lemma readIgnoring_Inr:
  assumes "readUntilExcludeIgnoringPrefix b c r = (Inr s, r')"
  shows "text_advances r r' \<and> kpos r < kpos r' \<and> kpos r' \<le> length (kData r)"
proof -
  from assms obtain p where p: "scan_over (kData r) c (kpos r) = Some p"
      and "readUntilExclude b (r\<lparr>kpos := p\<rparr>) = (Inr s, r')"
    by (auto simp: readUntilExcludeIgnoringPrefix_def split: option.splits)
  then have "text_advances (r\<lparr>kpos := p\<rparr>) r' \<and> p < kpos r' \<and> kpos r' \<le> length (kData r)"
    by (auto dest: readUntilExclude_Inr)
  moreover note scan_over_text [OF p] scan_over_Some [OF p]
  ultimately show ?thesis by (auto intro: transpD [OF transp_text_advances])
qed

lemma moves_readIgnoring [contract_intros]:
  "moves text_advances (readUntilExcludeIgnoringPrefix b c)"
proof -
  have "text_advances r (snd (readUntilExcludeIgnoringPrefix b c r))" for r
    by (auto simp: readUntilExcludeIgnoringPrefix_def reflpD [OF reflp_text_advances]
        split: option.split
        intro: transpD [OF transp_text_advances scan_over_text movesD [OF moves_readUntilExclude]])
  then show ?thesis by (simp add: moves_def)
qed

lemma total_readIgnoring [contract_intros]: "total (readUntilExcludeIgnoringPrefix b c)"
  by (auto simp: total_def readUntilExcludeIgnoringPrefix_def totalD [OF total_readUntilExclude]
      split: option.split)

lemma setHeaderType_contracts [contract_intros]:
  "moves text_advances (setHeaderType s)" "total (setHeaderType s)" "no_EOF (setHeaderType s)"
  by (auto simp: moves_def total_def no_EOF_def setHeaderType_def text_advances_def split: sum.split)

lemma readPreamble_contracts:
  "moves text_advances readPreamble" "total readPreamble" "no_EOF readPreamble"
  unfolding readPreamble_def readHeader_def readColumnHeaders_def readColumn_def
  by (intro contract_intros reflp_text_advances transp_text_advances; simp)+

lemma assign_contracts:
  assumes "\<And>s r. text_advances r (upd s r)"
  shows "moves text_advances m \<Longrightarrow> moves text_advances (assign upd m)"
    and "total m \<Longrightarrow> total (assign upd m)"
proof -
  assume m: "moves text_advances m"
  have "text_advances r (snd (assign upd m r))" for r
  proof (cases "m r")
    case (Pair x r1)
    with m have "text_advances r r1" by (rule movesD_eq)
    with Pair assms show ?thesis
      by (auto simp: assign_def split: sum.split intro: transpD [OF transp_text_advances])
  qed
  then show "moves text_advances (assign upd m)" by (simp add: moves_def)
next
  assume m: "total m"
  have "returns (fst (assign upd m r))" for r
    using totalD [OF m, of r] by (cases "m r"; cases "fst (m r)") (auto simp: assign_def returns_iff)
  then show "total (assign upd m)" by (simp add: total_def)
qed

lemma readValue_contracts:
  assumes "\<And>s r. text_advances r (upd s r)"
  shows "moves text_advances (readValue msg b upd)" and "total (readValue msg b upd)"
    and "no_EOF (readValue msg b upd)"
  unfolding readValue_def
  by (intro contract_intros assign_contracts assms; simp)+

lemma row_updates:
  "text_advances r (r\<lparr>rowName := s\<rparr>)" "text_advances r (r\<lparr>rowType := s\<rparr>)"
  "text_advances r (r\<lparr>rowData := s\<rparr>)"
  by (simp_all add: text_advances_def)

lemma readRow_contracts:
  "moves text_advances readRow" "total readRow" "no_EOF readRow"
  unfolding readRow_def
  by (intro contract_intros readValue_contracts row_updates reflp_text_advances transp_text_advances)+

text \<open>A row consumes input: its first column does.\<close>

lemma readRow_Inr:
  assumes "readRow r = (Inr s, r')"
  shows "text_advances r r' \<and> kpos r < kpos r' \<and> kpos r' \<le> length (kData r)"
proof -
  let ?first = "readValue ''error reading value of column name'' CHR '' '' (\<lambda>s. rowName_update (\<lambda>_. s))"
  from assms obtain r1 where first: "?first r = (Inr (), r1)"
    by (auto simp: readRow_def bindE_eq_Inr_iff)
  then have "kpos r < kpos r1" and "kpos r1 \<le> length (kData r)" and "kData r1 = kData r"
    by (auto simp: readValue_def assign_def text_advances_def dest!: readIgnoring_Inr
        split: prod.splits sum.splits)
  moreover have "text_advances r1 r'"
  proof -
    let ?rest = "bindE (readValue ''error reading value of column type'' CHR '' '' (\<lambda>s. rowType_update (\<lambda>_. s))) (\<lambda>_.
     bindE (readValue ''error reading value of column data'' newline (\<lambda>s. rowData_update (\<lambda>_. s))) (\<lambda>_.
     gets rowName))"
    have "moves text_advances ?rest"
      by (intro contract_intros readValue_contracts row_updates reflp_text_advances transp_text_advances)
    moreover have "?rest r1 = (Inr s, r')"
      using assms first by (simp add: readRow_def bindE_Inr)
    ultimately show ?thesis by (rule movesD_eq)
  qed
  moreover have "text_advances r r'" using readRow_contracts(1) assms by (rule movesD_eq)
  ultimately show ?thesis by (auto simp: text_advances_def)
qed

lemma total_kstat_Next: "total kstat_Next"
  unfolding kstat_Next_def
  by (intro contract_intros readRow_contracts readPreamble_contracts)

lemma moves_kstat_Next: "moves text_advances kstat_Next"
  unfolding kstat_Next_def
  by (intro contract_intros readRow_contracts readPreamble_contracts
      reflp_text_advances transp_text_advances)

text \<open>The position from which the row is read, after the preamble of a fresh reader.\<close>

lemma kstat_Next_split:
  "kstat_Next r =
     bindE (if kpos r = 0 then readPreamble else ret ()) (\<lambda>_ r.
       if kpos r = length (kData r) then (Inl (Err EOF), r) else readRow r) r"
proof -
  have "bindE (gets (\<lambda>r. kpos r = length (kData r))) (\<lambda>at_end. if at_end then fail EOF else readRow) =
      (\<lambda>r. if kpos r = length (kData r) then (Inl (Err EOF), r) else readRow r)"
    by (simp add: fun_eq_iff proc_simps)
  then show ?thesis by (simp only: kstat_Next_def bindE_gets)
qed

lemma kstat_Next_Inr:
  assumes "kstat_Next r = (Inr s, r')"
  shows "kpos r < kpos r'" and "kData r' = kData r" and "kpos r' \<le> length (kData r)"
proof -
  from assms obtain r1 where pre: "(if kpos r = 0 then readPreamble else ret ()) r = (Inr (), r1)"
      and row: "readRow r1 = (Inr s, r')"
    by (auto simp: kstat_Next_split bindE_eq_Inr_iff split: if_splits)
  have "moves text_advances (if kpos r = 0 then readPreamble else ret ())"
    by (intro contract_intros readPreamble_contracts reflp_text_advances)
  then have "text_advances r r1" using pre by (rule movesD_eq)
  with readRow_Inr [OF row] show "kpos r < kpos r'" and "kData r' = kData r"
    and "kpos r' \<le> length (kData r)"
    by (auto simp: text_advances_def)
qed

text \<open>Only the end of the text is \<open>io.EOF\<close>.\<close>

lemma kstat_Next_EOF:
  assumes "kstat_Next r = (Inl (Err EOF), r')"
  shows "kpos r' = length (kData r')" and "text_advances r r'"
proof -
  show "text_advances r r'" using moves_kstat_Next assms by (rule movesD_eq)
  have "no_EOF (if kpos r = 0 then readPreamble else ret ())"
    by (intro contract_intros readPreamble_contracts)
  then have pre: "(if kpos r = 0 then readPreamble else ret ()) r \<noteq> (Inl (Err EOF), r')"
    by (metis fst_conv no_EOF_def)
  have row: "readRow r1 \<noteq> (Inl (Err EOF), r')" for r1
    using readRow_contracts(3) by (metis fst_conv no_EOF_def)
  from assms pre row show "kpos r' = length (kData r')"
    by (auto simp: kstat_Next_split bindE_eq_Inl_iff simp del: if_app split: if_split_asm)
qed

interpretation ks: token_stream kstat_Next kstat_remaining
proof
  fix r r' t
  show "kstat_Next r = (Inr t, r') \<Longrightarrow> kstat_remaining r' < kstat_remaining r"
    using kstat_Next_Inr [of r t r'] by (auto simp: kstat_remaining_def)
  show "kstat_Next r = (Inl (Err EOF), r') \<Longrightarrow> kstat_remaining r' \<le> kstat_remaining r"
    using kstat_Next_EOF [of r r'] by (auto simp: kstat_remaining_def text_advances_def)
  show "kstat_Next r \<noteq> (Inl OutOfFuel, r')"
    using totalD [OF total_kstat_Next, of r] by auto
qed

end
