(* ===== verification/KStat_Table.thy ===== *)
theory KStat_Table
  imports KStat
begin

text \<open>
  The text of a key-value kstat, as the SPL kernel module prints it, and what the reader of
  zfs/kstat/decode.go makes of it: it skips the header and the column headers and delivers the
  rows in order, each with its name, type and data.
\<close>

section \<open>The format\<close>

text \<open>A row and the numbers of padding spaces that are printed before its three columns.\<close>

record kstat_row =
  row_name :: string
  row_type :: string
  row_data :: string
  row_pads :: "nat \<times> nat \<times> nat"

definition padded :: "nat \<Rightarrow> string \<Rightarrow> char \<Rightarrow> string" where
  "padded n w b = replicate n CHR '' '' @ w @ [b]"

definition row_text :: "kstat_row \<Rightarrow> string" where
  "row_text w = (case row_pads w of (i, j, k) \<Rightarrow>
     padded i (row_name w) CHR '' '' @ padded j (row_type w) CHR '' '' @ padded k (row_data w) newline)"

definition wf_word :: "string \<Rightarrow> bool" where
  "wf_word w \<longleftrightarrow> w \<noteq> [] \<and> CHR '' '' \<notin> set w"

definition wf_data :: "string \<Rightarrow> bool" where
  "wf_data w \<longleftrightarrow> newline \<notin> set w \<and> (w = [] \<or> hd w \<noteq> CHR '' '')"

definition wf_row :: "kstat_row \<Rightarrow> bool" where
  "wf_row w \<longleftrightarrow> wf_word (row_name w) \<and> wf_word (row_type w) \<and> wf_data (row_data w)"

text \<open>The header line: kid, type, flags, ndata, data size, creation and snapshot time.\<close>

record kstat_header =
  hdr_kid :: string
  hdr_type :: string
  hdr_middle :: "string \<times> string \<times> string \<times> string"
  hdr_snaptime :: string

definition header_text :: "kstat_header \<Rightarrow> string" where
  "header_text h = (case hdr_middle h of (fl, nd, ds, cr) \<Rightarrow>
     padded 0 (hdr_kid h) CHR '' '' @ padded 0 (hdr_type h) CHR '' '' @ padded 0 fl CHR '' '' @
     padded 0 nd CHR '' '' @ padded 0 ds CHR '' '' @ padded 0 cr CHR '' '' @
     padded 0 (hdr_snaptime h) newline)"

definition wf_header :: "kstat_header \<Rightarrow> bool" where
  "wf_header h = (case hdr_middle h of (fl, nd, ds, cr) \<Rightarrow>
     list_all (\<lambda>w. CHR '' '' \<notin> set w) [hdr_kid h, hdr_type h, fl, nd, ds, cr] \<and>
     newline \<notin> set (hdr_snaptime h))"

definition columns_text :: "nat \<times> nat \<times> nat \<Rightarrow> string" where
  "columns_text pads = row_text \<lparr>row_name = ''name'', row_type = ''type'', row_data = ''data'', row_pads = pads\<rparr>"

definition kstat_text :: "kstat_header \<Rightarrow> nat \<times> nat \<times> nat \<Rightarrow> kstat_row list \<Rightarrow> string" where
  "kstat_text h pads rows = header_text h @ columns_text pads @ concat (map row_text rows)"

section \<open>Reading it\<close>

definition at_text :: "KStatReader \<Rightarrow> string \<Rightarrow> bool" where
  "at_text r s \<longleftrightarrow> drop (kpos r) (kData r) = s \<and> kpos r \<le> length (kData r)"

definition skip_text :: "string \<Rightarrow> KStatReader \<Rightarrow> KStatReader" where
  "skip_text s r = r\<lparr>kpos := kpos r + length s\<rparr>"

lemma at_text_skip:
  assumes "at_text r (s @ rest)"
  shows "at_text (skip_text s r) rest"
proof -
  from assms have d: "drop (kpos r) (kData r) = s @ rest" and p: "kpos r \<le> length (kData r)"
    by (simp_all add: at_text_def)
  have "length (drop (kpos r) (kData r)) = length s + length rest" by (simp only: d length_append)
  with p have "length (kData r) = kpos r + length s + length rest" by simp
  moreover have "drop (length s) (drop (kpos r) (kData r)) = rest"
    by (simp add: d del: drop_drop)
  ultimately show ?thesis by (simp add: at_text_def skip_text_def add.commute)
qed

lemma readUntilExclude_text:
  "at_text r (padded 0 w b @ rest) \<Longrightarrow> b \<notin> set w \<Longrightarrow>
   readUntilExclude b r = (Inr w, skip_text (padded 0 w b) r)"
  using scan_to_run [of "kpos r" "kData r" w b rest]
  by (simp add: at_text_def padded_def readUntilExclude_def skip_text_def)

lemma readColumn_text:
  assumes r: "at_text r (padded n w b @ rest)" and w: "b \<notin> set w" "hd (w @ [b]) \<noteq> CHR '' ''"
  shows "readUntilExcludeIgnoringPrefix b CHR '' '' r = (Inr w, skip_text (padded n w b) r)"
proof -
  obtain c cs where c: "w @ [b] = c # cs" "c \<noteq> CHR '' ''"
    using w(2) by (cases "w @ [b]") auto
  have over: "scan_over (kData r) CHR '' '' (kpos r) = Some (kpos r + n)"
    by (rule scan_over_run [where c = c and rest = "cs @ rest"])
      (use r c in \<open>simp_all add: at_text_def padded_def flip: append_assoc append_Cons\<close>)
  have "at_text (skip_text (replicate n CHR '' '') r) (padded 0 w b @ rest)"
    by (rule at_text_skip) (use r in \<open>simp add: padded_def\<close>)
  from readUntilExclude_text [OF this w(1)] over show ?thesis
    by (simp add: readUntilExcludeIgnoringPrefix_def skip_text_def padded_def add.assoc)
qed

text \<open>One row: the reader takes over its three columns and stands behind it.\<close>

definition take_row :: "kstat_row \<Rightarrow> KStatReader \<Rightarrow> KStatReader" where
  "take_row w r = (skip_text (row_text w) r)
     \<lparr>rowName := row_name w, rowType := row_type w, rowData := row_data w\<rparr>"

lemma at_text_fields [simp]:
  "at_text (r\<lparr>rowName := a\<rparr>) s = at_text r s" "at_text (r\<lparr>rowType := a\<rparr>) s = at_text r s"
  "at_text (r\<lparr>rowData := a\<rparr>) s = at_text r s" "at_text (r\<lparr>HeaderType := t\<rparr>) s = at_text r s"
  by (simp_all add: at_text_def)

lemma at_text_take_row: "at_text r (row_text w @ rest) \<Longrightarrow> at_text (take_row w r) rest"
  by (simp add: take_row_def at_text_skip)

lemma readValue_text:
  assumes "at_text r (padded n w b @ rest)" and "b \<notin> set w" and "hd (w @ [b]) \<noteq> CHR '' ''"
  shows "readValue msg b upd r = (Inr (), upd w (skip_text (padded n w b) r))"
  using readColumn_text [OF assms] by (simp add: readValue_def assign_def)

lemma wf_wordD: "wf_word w \<Longrightarrow> CHR '' '' \<notin> set w \<and> hd (w @ [b]) \<noteq> CHR '' ''"
  by (cases w) (auto simp: wf_word_def)

lemma wf_dataD: "wf_data w \<Longrightarrow> newline \<notin> set w \<and> hd (w @ [newline]) \<noteq> CHR '' ''"
  by (cases w) (auto simp: wf_data_def newline_def)

lemma readRow_text:
  assumes r: "at_text r (row_text w @ rest)" and w: "wf_row w"
  shows "readRow r = (Inr (row_name w), take_row w r)"
proof -
  obtain i j k where pads: "row_pads w = (i, j, k)" by (cases "row_pads w")
  let ?a = "padded i (row_name w) CHR '' ''" and ?b = "padded j (row_type w) CHR '' ''"
    and ?c = "padded k (row_data w) newline"
  let ?r1 = "(skip_text ?a r)\<lparr>rowName := row_name w\<rparr>"
  let ?r2 = "(skip_text ?b ?r1)\<lparr>rowType := row_type w\<rparr>"
  let ?r3 = "(skip_text ?c ?r2)\<lparr>rowData := row_data w\<rparr>"
  have eq: "row_text w = ?a @ ?b @ ?c" by (simp add: row_text_def pads)
  have wf: "wf_word (row_name w)" "wf_word (row_type w)" "wf_data (row_data w)"
    using w by (simp_all add: wf_row_def)
  have 0: "at_text r (?a @ ?b @ ?c @ rest)" using r by (simp add: eq)
  have 1: "at_text ?r1 (?b @ ?c @ rest)" using at_text_skip [OF 0] by simp
  have 2: "at_text ?r2 (?c @ rest)" using at_text_skip [OF 1] by simp
  have "readRow r = (Inr (row_name w), ?r3)"
    using readValue_text [OF 0] readValue_text [OF 1] readValue_text [OF 2]
      wf(1,2) [THEN wf_wordD] wf(3) [THEN wf_dataD]
    by (simp add: readRow_def bindE_Inr gets_apply skip_text_def)
  moreover have "?r3 = take_row w r"
    by (simp add: take_row_def skip_text_def eq)
  ultimately show ?thesis by simp
qed

text \<open>The header and the column headers.\<close>

lemma header_word:
  assumes "at_text r (padded 0 w b @ rest)" and "b \<notin> set w"
  shows "bindE (wrapE msg (readUntilExclude b)) f r = f w (skip_text (padded 0 w b) r)"
  using readUntilExclude_text [OF assms] by (simp add: bindE_Inr)

lemma readHeader_text:
  assumes r: "at_text r (header_text h @ rest)" and h: "wf_header h"
    and t: "ParseInt (hdr_type h) 32 = Inr t"
  shows "readHeader r = (Inr (), (skip_text (header_text h) r)\<lparr>HeaderType := word_of_int t\<rparr>)"
proof -
  obtain fl nd ds cr where middle: "hdr_middle h = (fl, nd, ds, cr)" by (cases "hdr_middle h")
  let ?a = "padded 0 (hdr_kid h) CHR '' ''" and ?b = "padded 0 (hdr_type h) CHR '' ''"
    and ?c = "padded 0 fl CHR '' ''" and ?d = "padded 0 nd CHR '' ''" and ?e = "padded 0 ds CHR '' ''"
    and ?f = "padded 0 cr CHR '' ''" and ?g = "padded 0 (hdr_snaptime h) newline"
  let ?r2 = "(skip_text ?b (skip_text ?a r))"
  let ?q2 = "?r2\<lparr>HeaderType := word_of_int t\<rparr>"
  have eq: "header_text h = ?a @ ?b @ ?c @ ?d @ ?e @ ?f @ ?g"
    by (simp add: header_text_def middle)
  have wf: "CHR '' '' \<notin> set (hdr_kid h)" "CHR '' '' \<notin> set (hdr_type h)" "CHR '' '' \<notin> set fl"
    "CHR '' '' \<notin> set nd" "CHR '' '' \<notin> set ds" "CHR '' '' \<notin> set cr" "newline \<notin> set (hdr_snaptime h)"
    using h by (simp_all add: wf_header_def middle)
  have 0: "at_text r (?a @ ?b @ ?c @ ?d @ ?e @ ?f @ ?g @ rest)" using r by (simp add: eq)
  note 1 = at_text_skip [OF 0]
  have 2: "at_text ?q2 (?c @ ?d @ ?e @ ?f @ ?g @ rest)" using at_text_skip [OF 1] by simp
  note 3 = at_text_skip [OF 2] note 4 = at_text_skip [OF 3] note 5 = at_text_skip [OF 4]
  note 6 = at_text_skip [OF 5]
  have ty: "setHeaderType (hdr_type h) ?r2 = (Inr (), ?q2)"
    by (simp add: setHeaderType_def t)
  note steps = header_word [OF 0 wf(1)] header_word [OF 1 wf(2)] header_word [OF 2 wf(3)]
    header_word [OF 3 wf(4)] header_word [OF 4 wf(5)] header_word [OF 5 wf(6)]
    header_word [OF 6 wf(7)]
  have "readHeader r = (Inr (), skip_text ?g (skip_text ?f (skip_text ?e (skip_text ?d
      (skip_text ?c ?q2)))))"
    by (simp only: readHeader_def steps bindE_Inr [of "setHeaderType (hdr_type h)", OF ty] ret_apply)
  then show ?thesis by (simp add: skip_text_def eq)
qed

lemma header_column:
  assumes "at_text r (padded n w b @ rest)" and "b \<notin> set w" and "hd (w @ [b]) \<noteq> CHR '' ''"
  shows "bindE (readColumn b) f r = f w (skip_text (padded n w b) r)"
  using readColumn_text [OF assms] by (simp add: readColumn_def bindE_Inr)

lemma readColumnHeaders_text:
  assumes "at_text r (columns_text pads @ rest)"
  shows "readColumnHeaders r = (Inr (), skip_text (columns_text pads) r)"
proof -
  obtain i j k where pads: "pads = (i, j, k)" by (cases pads)
  let ?a = "padded i ''name'' CHR '' ''" and ?b = "padded j ''type'' CHR '' ''"
    and ?c = "padded k ''data'' newline"
  have eq: "columns_text pads = ?a @ ?b @ ?c" by (simp add: columns_text_def row_text_def pads)
  have 0: "at_text r (?a @ ?b @ ?c @ rest)" using assms by (simp add: eq)
  note 1 = at_text_skip [OF 0]
  note 2 = at_text_skip [OF 1]
  have name: "bindE (readColumn CHR '' '') f r = f ''name'' (skip_text ?a r)" for f
    by (rule header_column [OF 0]) simp_all
  have type: "bindE (readColumn CHR '' '') f (skip_text ?a r) = f ''type'' (skip_text ?b (skip_text ?a r))"
    for f by (rule header_column [OF 1]) simp_all
  have data: "bindE (readColumn newline) f (skip_text ?b (skip_text ?a r)) =
      f ''data'' (skip_text ?c (skip_text ?b (skip_text ?a r)))" for f
    by (rule header_column [OF 2]) (simp_all add: newline_def)
  have "readColumnHeaders r = (Inr (), skip_text ?c (skip_text ?b (skip_text ?a r)))"
    by (simp add: readColumnHeaders_def name type data ret_apply)
  then show ?thesis by (simp add: skip_text_def eq add.assoc)
qed

lemma readPreamble_text:
  assumes r: "at_text r (header_text h @ columns_text pads @ rest)" and h: "wf_header h"
    and t: "ParseInt (hdr_type h) 32 = Inr t" "(word_of_int t :: 8 word) = 1"
  shows "readPreamble r =
    (Inr (), (skip_text (header_text h @ columns_text pads) r)\<lparr>HeaderType := 1\<rparr>)"
proof -
  let ?r1 = "(skip_text (header_text h) r)\<lparr>HeaderType := 1\<rparr>"
  have hdr: "readHeader r = (Inr (), ?r1)" using readHeader_text [OF r h t(1)] by (simp add: t(2))
  have "at_text ?r1 (columns_text pads @ rest)" using at_text_skip [OF r] by simp
  from readColumnHeaders_text [OF this] show ?thesis
    by (simp add: readPreamble_def bindE_Inr [of readHeader, OF hdr] bindE_gets)
      (simp add: skip_text_def)
qed

lemma kstat_Next_after_preamble:
  assumes "kpos r = 0" and "readPreamble r = (Inr (), r1)" and "kpos r1 > 0"
  shows "kstat_Next r = kstat_Next r1"
  using assms by (simp add: kstat_Next_split bindE_Inr ret_apply)

lemma kstat_Next_row:
  assumes "at_text r (row_text w @ rest)" and "wf_row w" and "kpos r > 0"
  shows "kstat_Next r = (Inr (row_name w), take_row w r)"
proof -
  have "row_text w \<noteq> []" by (cases "row_pads w") (simp add: row_text_def padded_def)
  then have "kpos r \<noteq> length (kData r)" using assms(1) by (auto simp: at_text_def)
  then show ?thesis
    using readRow_text [OF assms(1,2)] assms(3) by (simp add: kstat_Next_split bindE_def ret_apply)
qed

lemma kstat_Next_at_end: "at_text r [] \<Longrightarrow> kpos r > 0 \<Longrightarrow> kstat_Next r = (Inl (Err EOF), r)"
  by (simp add: kstat_Next_split bindE_def ret_apply at_text_def)

section \<open>Loops over it\<close>

text \<open>
  A consumer whose body turns a row into an update \<open>upd\<close> of what it collects, and leaves the
  reader alone, ends with the updates of all rows in their order.
\<close>

lemma kstat_rows_loop:
  assumes body: "\<And>k w c r. w \<in> set rows \<Longrightarrow> RowData r = row_data w \<Longrightarrow>
      body k (row_name w) c r = (Inr (upd w c), r)"
    and "at_text r (concat (map row_text rows))" and "kpos r > 0" and "list_all wf_row rows"
    and "length rows < n"
  shows "\<exists>r'. forNext kstat_Next n body c r = (Inr (fold upd rows c), r')"
  using assms
proof (induction rows arbitrary: c r n)
  case Nil
  then obtain m where "n = Suc m" by (cases n) auto
  with Nil show ?case by (simp add: kstat_Next_at_end)
next
  case (Cons w rows)
  then obtain m where n: "n = Suc m" by (cases n) auto
  let ?r1 = "take_row w r"
  have at: "at_text r (row_text w @ concat (map row_text rows))" using Cons.prems(2) by simp
  have nxt: "kstat_Next r = (Inr (row_name w), ?r1)"
    using at Cons.prems(3,4) by (intro kstat_Next_row) auto
  have step: "body m (row_name w) c ?r1 = (Inr (upd w c), ?r1)"
    by (rule Cons.prems(1)) (simp_all add: RowData_def take_row_def)
  have "\<exists>r'. forNext kstat_Next m body (upd w c) ?r1 = (Inr (fold upd rows (upd w c)), r')"
  proof (rule Cons.IH)
    show "at_text ?r1 (concat (map row_text rows))" using at by (rule at_text_take_row)
    show "kpos ?r1 > 0" using Cons.prems(3) by (simp add: take_row_def skip_text_def)
  qed (use Cons.prems n in auto)
  then show ?case using nxt step by (auto simp: n bindE_def)
qed

lemma kstat_text_loop:
  assumes body: "\<And>k w c r. w \<in> set rows \<Longrightarrow> RowData r = row_data w \<Longrightarrow>
      body k (row_name w) c r = (Inr (upd w c), r)"
    and h: "wf_header h" "ParseInt (hdr_type h) 32 = Inr t" "(word_of_int t :: 8 word) = 1"
    and rows: "list_all wf_row rows" and n: "length (kstat_text h pads rows) < n"
  shows "\<exists>r'. forNext kstat_Next n body c (new_kstat_reader (kstat_text h pads rows)) =
    (Inr (fold upd rows c), r')"
proof -
  let ?r = "new_kstat_reader (kstat_text h pads rows)" and ?rest = "concat (map row_text rows)"
  let ?r1 = "(skip_text (header_text h @ columns_text pads) ?r)\<lparr>HeaderType := 1\<rparr>"
  have at: "at_text ?r ((header_text h @ columns_text pads) @ ?rest)"
    by (simp add: at_text_def new_kstat_reader_def kstat_text_def)
  then have pre: "readPreamble ?r = (Inr (), ?r1)"
    using readPreamble_text [OF _ h] by simp
  have at1: "at_text ?r1 ?rest" using at_text_skip [OF at] by simp
  have pos1: "kpos ?r1 > 0"
    by (cases "hdr_middle h") (simp add: skip_text_def header_text_def padded_def)
  have same: "kstat_Next ?r = kstat_Next ?r1"
    by (rule kstat_Next_after_preamble [OF _ pre pos1]) (simp add: new_kstat_reader_def)
  obtain m where m: "n = Suc m" using n by (cases n) auto
  have rw: "length ws \<le> length (concat (map row_text ws))" for ws
    by (induction ws) (auto simp: row_text_def padded_def split: prod.split)
  have "length rows < n" using n rw [of rows] by (simp add: kstat_text_def)
  then have "\<exists>r'. forNext kstat_Next n body c ?r1 = (Inr (fold upd rows c), r')"
    using body by (intro kstat_rows_loop [OF _ at1 pos1 rows]) auto
  then show ?thesis by (simp add: m same)
qed

end
