(* ===== verification/Ioctl_Consts.thy ===== *)
theory Ioctl_Consts
  imports Go_Prelude
begin

text \<open>
  The ioctl numbers of zfs/ioctl/types.go, types_freebsd.go and types_most.go. \<open>ZFS_IOC_FIRST\<close>
  depends on the platform the package is built for, so every number is a function of it; Go's
  \<open>iota\<close> counts the constants of a block from 0.

  Shown here: on both platforms the numbers are pairwise distinct, those of the common block
  stay below the block that is reserved for the platforms.
\<close>

type_synonym IoctlNumber = "32 word"

definition ZFS_IOC_FIRST_freebsd :: IoctlNumber where "ZFS_IOC_FIRST_freebsd = 0"

definition ZFS_IOC_FIRST_most :: IoctlNumber where "ZFS_IOC_FIRST_most = push_bit 8 (of_char CHR ''Z'')"

section \<open>The common block\<close>

definition ZFS_IOC_POOL_CREATE :: "IoctlNumber \<Rightarrow> IoctlNumber" where "ZFS_IOC_POOL_CREATE ioc_first = ioc_first + 0"

definition ZFS_IOC_POOL_DESTROY :: "IoctlNumber \<Rightarrow> IoctlNumber" where "ZFS_IOC_POOL_DESTROY ioc_first = ioc_first + 1"

definition ZFS_IOC_POOL_IMPORT :: "IoctlNumber \<Rightarrow> IoctlNumber" where "ZFS_IOC_POOL_IMPORT ioc_first = ioc_first + 2"

definition ZFS_IOC_POOL_EXPORT :: "IoctlNumber \<Rightarrow> IoctlNumber" where "ZFS_IOC_POOL_EXPORT ioc_first = ioc_first + 3"

definition ZFS_IOC_POOL_CONFIGS :: "IoctlNumber \<Rightarrow> IoctlNumber" where "ZFS_IOC_POOL_CONFIGS ioc_first = ioc_first + 4"

definition ZFS_IOC_POOL_STATS :: "IoctlNumber \<Rightarrow> IoctlNumber" where "ZFS_IOC_POOL_STATS ioc_first = ioc_first + 5"

definition ZFS_IOC_POOL_TRYIMPORT :: "IoctlNumber \<Rightarrow> IoctlNumber" where "ZFS_IOC_POOL_TRYIMPORT ioc_first = ioc_first + 6"

definition ZFS_IOC_POOL_SCAN :: "IoctlNumber \<Rightarrow> IoctlNumber" where "ZFS_IOC_POOL_SCAN ioc_first = ioc_first + 7"

definition ZFS_IOC_POOL_FREEZE :: "IoctlNumber \<Rightarrow> IoctlNumber" where "ZFS_IOC_POOL_FREEZE ioc_first = ioc_first + 8"

definition ZFS_IOC_POOL_UPGRADE :: "IoctlNumber \<Rightarrow> IoctlNumber" where "ZFS_IOC_POOL_UPGRADE ioc_first = ioc_first + 9"

definition ZFS_IOC_POOL_GET_HISTORY :: "IoctlNumber \<Rightarrow> IoctlNumber" where "ZFS_IOC_POOL_GET_HISTORY ioc_first = ioc_first + 10"

definition ZFS_IOC_VDEV_ADD :: "IoctlNumber \<Rightarrow> IoctlNumber" where "ZFS_IOC_VDEV_ADD ioc_first = ioc_first + 11"

definition ZFS_IOC_VDEV_REMOVE :: "IoctlNumber \<Rightarrow> IoctlNumber" where "ZFS_IOC_VDEV_REMOVE ioc_first = ioc_first + 12"

definition ZFS_IOC_VDEV_SET_STATE :: "IoctlNumber \<Rightarrow> IoctlNumber" where "ZFS_IOC_VDEV_SET_STATE ioc_first = ioc_first + 13"

definition ZFS_IOC_VDEV_ATTACH :: "IoctlNumber \<Rightarrow> IoctlNumber" where "ZFS_IOC_VDEV_ATTACH ioc_first = ioc_first + 14"

definition ZFS_IOC_VDEV_DETACH :: "IoctlNumber \<Rightarrow> IoctlNumber" where "ZFS_IOC_VDEV_DETACH ioc_first = ioc_first + 15"

definition ZFS_IOC_VDEV_SETPATH :: "IoctlNumber \<Rightarrow> IoctlNumber" where "ZFS_IOC_VDEV_SETPATH ioc_first = ioc_first + 16"

definition ZFS_IOC_VDEV_SETFRU :: "IoctlNumber \<Rightarrow> IoctlNumber" where "ZFS_IOC_VDEV_SETFRU ioc_first = ioc_first + 17"

definition ZFS_IOC_OBJSET_STATS :: "IoctlNumber \<Rightarrow> IoctlNumber" where "ZFS_IOC_OBJSET_STATS ioc_first = ioc_first + 18"

definition ZFS_IOC_OBJSET_ZPLPROPS :: "IoctlNumber \<Rightarrow> IoctlNumber" where "ZFS_IOC_OBJSET_ZPLPROPS ioc_first = ioc_first + 19"

definition ZFS_IOC_DATASET_LIST_NEXT :: "IoctlNumber \<Rightarrow> IoctlNumber" where "ZFS_IOC_DATASET_LIST_NEXT ioc_first = ioc_first + 20"

definition ZFS_IOC_SNAPSHOT_LIST_NEXT :: "IoctlNumber \<Rightarrow> IoctlNumber" where "ZFS_IOC_SNAPSHOT_LIST_NEXT ioc_first = ioc_first + 21"

definition ZFS_IOC_SET_PROP :: "IoctlNumber \<Rightarrow> IoctlNumber" where "ZFS_IOC_SET_PROP ioc_first = ioc_first + 22"

definition ZFS_IOC_CREATE :: "IoctlNumber \<Rightarrow> IoctlNumber" where "ZFS_IOC_CREATE ioc_first = ioc_first + 23"

definition ZFS_IOC_DESTROY :: "IoctlNumber \<Rightarrow> IoctlNumber" where "ZFS_IOC_DESTROY ioc_first = ioc_first + 24"

definition ZFS_IOC_ROLLBACK :: "IoctlNumber \<Rightarrow> IoctlNumber" where "ZFS_IOC_ROLLBACK ioc_first = ioc_first + 25"

definition ZFS_IOC_RENAME :: "IoctlNumber \<Rightarrow> IoctlNumber" where "ZFS_IOC_RENAME ioc_first = ioc_first + 26"

definition ZFS_IOC_RECV :: "IoctlNumber \<Rightarrow> IoctlNumber" where "ZFS_IOC_RECV ioc_first = ioc_first + 27"

definition ZFS_IOC_SEND :: "IoctlNumber \<Rightarrow> IoctlNumber" where "ZFS_IOC_SEND ioc_first = ioc_first + 28"

definition ZFS_IOC_INJECT_FAULT :: "IoctlNumber \<Rightarrow> IoctlNumber" where "ZFS_IOC_INJECT_FAULT ioc_first = ioc_first + 29"

definition ZFS_IOC_CLEAR_FAULT :: "IoctlNumber \<Rightarrow> IoctlNumber" where "ZFS_IOC_CLEAR_FAULT ioc_first = ioc_first + 30"

definition ZFS_IOC_INJECT_LIST_NEXT :: "IoctlNumber \<Rightarrow> IoctlNumber" where "ZFS_IOC_INJECT_LIST_NEXT ioc_first = ioc_first + 31"

definition ZFS_IOC_ERROR_LOG :: "IoctlNumber \<Rightarrow> IoctlNumber" where "ZFS_IOC_ERROR_LOG ioc_first = ioc_first + 32"

definition ZFS_IOC_CLEAR :: "IoctlNumber \<Rightarrow> IoctlNumber" where "ZFS_IOC_CLEAR ioc_first = ioc_first + 33"

definition ZFS_IOC_PROMOTE :: "IoctlNumber \<Rightarrow> IoctlNumber" where "ZFS_IOC_PROMOTE ioc_first = ioc_first + 34"

definition ZFS_IOC_SNAPSHOT :: "IoctlNumber \<Rightarrow> IoctlNumber" where "ZFS_IOC_SNAPSHOT ioc_first = ioc_first + 35"

definition ZFS_IOC_DSOBJ_TO_DSNAME :: "IoctlNumber \<Rightarrow> IoctlNumber" where "ZFS_IOC_DSOBJ_TO_DSNAME ioc_first = ioc_first + 36"

definition ZFS_IOC_OBJ_TO_PATH :: "IoctlNumber \<Rightarrow> IoctlNumber" where "ZFS_IOC_OBJ_TO_PATH ioc_first = ioc_first + 37"

definition ZFS_IOC_POOL_SET_PROPS :: "IoctlNumber \<Rightarrow> IoctlNumber" where "ZFS_IOC_POOL_SET_PROPS ioc_first = ioc_first + 38"

definition ZFS_IOC_POOL_GET_PROPS :: "IoctlNumber \<Rightarrow> IoctlNumber" where "ZFS_IOC_POOL_GET_PROPS ioc_first = ioc_first + 39"

definition ZFS_IOC_SET_FSACL :: "IoctlNumber \<Rightarrow> IoctlNumber" where "ZFS_IOC_SET_FSACL ioc_first = ioc_first + 40"

definition ZFS_IOC_GET_FSACL :: "IoctlNumber \<Rightarrow> IoctlNumber" where "ZFS_IOC_GET_FSACL ioc_first = ioc_first + 41"

definition ZFS_IOC_SHARE :: "IoctlNumber \<Rightarrow> IoctlNumber" where "ZFS_IOC_SHARE ioc_first = ioc_first + 42"

definition ZFS_IOC_INHERIT_PROP :: "IoctlNumber \<Rightarrow> IoctlNumber" where "ZFS_IOC_INHERIT_PROP ioc_first = ioc_first + 43"

definition ZFS_IOC_SMB_ACL :: "IoctlNumber \<Rightarrow> IoctlNumber" where "ZFS_IOC_SMB_ACL ioc_first = ioc_first + 44"

definition ZFS_IOC_USERSPACE_ONE :: "IoctlNumber \<Rightarrow> IoctlNumber" where "ZFS_IOC_USERSPACE_ONE ioc_first = ioc_first + 45"

definition ZFS_IOC_USERSPACE_MANY :: "IoctlNumber \<Rightarrow> IoctlNumber" where "ZFS_IOC_USERSPACE_MANY ioc_first = ioc_first + 46"

definition ZFS_IOC_USERSPACE_UPGRADE :: "IoctlNumber \<Rightarrow> IoctlNumber" where "ZFS_IOC_USERSPACE_UPGRADE ioc_first = ioc_first + 47"

definition ZFS_IOC_HOLD :: "IoctlNumber \<Rightarrow> IoctlNumber" where "ZFS_IOC_HOLD ioc_first = ioc_first + 48"

definition ZFS_IOC_RELEASE :: "IoctlNumber \<Rightarrow> IoctlNumber" where "ZFS_IOC_RELEASE ioc_first = ioc_first + 49"

definition ZFS_IOC_GET_HOLDS :: "IoctlNumber \<Rightarrow> IoctlNumber" where "ZFS_IOC_GET_HOLDS ioc_first = ioc_first + 50"

definition ZFS_IOC_OBJSET_RECVD_PROPS :: "IoctlNumber \<Rightarrow> IoctlNumber" where "ZFS_IOC_OBJSET_RECVD_PROPS ioc_first = ioc_first + 51"

definition ZFS_IOC_VDEV_SPLIT :: "IoctlNumber \<Rightarrow> IoctlNumber" where "ZFS_IOC_VDEV_SPLIT ioc_first = ioc_first + 52"

definition ZFS_IOC_NEXT_OBJ :: "IoctlNumber \<Rightarrow> IoctlNumber" where "ZFS_IOC_NEXT_OBJ ioc_first = ioc_first + 53"

definition ZFS_IOC_DIFF :: "IoctlNumber \<Rightarrow> IoctlNumber" where "ZFS_IOC_DIFF ioc_first = ioc_first + 54"

definition ZFS_IOC_TMP_SNAPSHOT :: "IoctlNumber \<Rightarrow> IoctlNumber" where "ZFS_IOC_TMP_SNAPSHOT ioc_first = ioc_first + 55"

definition ZFS_IOC_OBJ_TO_STATS :: "IoctlNumber \<Rightarrow> IoctlNumber" where "ZFS_IOC_OBJ_TO_STATS ioc_first = ioc_first + 56"

definition ZFS_IOC_SPACE_WRITTEN :: "IoctlNumber \<Rightarrow> IoctlNumber" where "ZFS_IOC_SPACE_WRITTEN ioc_first = ioc_first + 57"

definition ZFS_IOC_SPACE_SNAPS :: "IoctlNumber \<Rightarrow> IoctlNumber" where "ZFS_IOC_SPACE_SNAPS ioc_first = ioc_first + 58"

definition ZFS_IOC_DESTROY_SNAPS :: "IoctlNumber \<Rightarrow> IoctlNumber" where "ZFS_IOC_DESTROY_SNAPS ioc_first = ioc_first + 59"

definition ZFS_IOC_POOL_REGUID :: "IoctlNumber \<Rightarrow> IoctlNumber" where "ZFS_IOC_POOL_REGUID ioc_first = ioc_first + 60"

definition ZFS_IOC_POOL_REOPEN :: "IoctlNumber \<Rightarrow> IoctlNumber" where "ZFS_IOC_POOL_REOPEN ioc_first = ioc_first + 61"

definition ZFS_IOC_SEND_PROGRESS :: "IoctlNumber \<Rightarrow> IoctlNumber" where "ZFS_IOC_SEND_PROGRESS ioc_first = ioc_first + 62"

definition ZFS_IOC_LOG_HISTORY :: "IoctlNumber \<Rightarrow> IoctlNumber" where "ZFS_IOC_LOG_HISTORY ioc_first = ioc_first + 63"

definition ZFS_IOC_SEND_NEW :: "IoctlNumber \<Rightarrow> IoctlNumber" where "ZFS_IOC_SEND_NEW ioc_first = ioc_first + 64"

definition ZFS_IOC_SEND_SPACE :: "IoctlNumber \<Rightarrow> IoctlNumber" where "ZFS_IOC_SEND_SPACE ioc_first = ioc_first + 65"

definition ZFS_IOC_CLONE :: "IoctlNumber \<Rightarrow> IoctlNumber" where "ZFS_IOC_CLONE ioc_first = ioc_first + 66"

definition ZFS_IOC_BOOKMARK :: "IoctlNumber \<Rightarrow> IoctlNumber" where "ZFS_IOC_BOOKMARK ioc_first = ioc_first + 67"

definition ZFS_IOC_GET_BOOKMARKS :: "IoctlNumber \<Rightarrow> IoctlNumber" where "ZFS_IOC_GET_BOOKMARKS ioc_first = ioc_first + 68"

definition ZFS_IOC_DESTROY_BOOKMARKS :: "IoctlNumber \<Rightarrow> IoctlNumber" where "ZFS_IOC_DESTROY_BOOKMARKS ioc_first = ioc_first + 69"

definition ZFS_IOC_RECV_NEW :: "IoctlNumber \<Rightarrow> IoctlNumber" where "ZFS_IOC_RECV_NEW ioc_first = ioc_first + 70"

definition ZFS_IOC_POOL_SYNC :: "IoctlNumber \<Rightarrow> IoctlNumber" where "ZFS_IOC_POOL_SYNC ioc_first = ioc_first + 71"

section \<open>The platform block\<close>

definition ZFS_IOC_PLATFORM :: "IoctlNumber \<Rightarrow> IoctlNumber" where "ZFS_IOC_PLATFORM ioc_first = ioc_first + 0x80 + 0"

definition ZFS_IOC_EVENTS_NEXT :: "IoctlNumber \<Rightarrow> IoctlNumber" where "ZFS_IOC_EVENTS_NEXT ioc_first = ioc_first + 0x80 + 1"

definition ZFS_IOC_EVENTS_CLEAR :: "IoctlNumber \<Rightarrow> IoctlNumber" where "ZFS_IOC_EVENTS_CLEAR ioc_first = ioc_first + 0x80 + 2"

definition ZFS_IOC_EVENTS_SEEK :: "IoctlNumber \<Rightarrow> IoctlNumber" where "ZFS_IOC_EVENTS_SEEK ioc_first = ioc_first + 0x80 + 3"

definition ZFS_IOC_NEXTBOOT :: "IoctlNumber \<Rightarrow> IoctlNumber" where "ZFS_IOC_NEXTBOOT ioc_first = ioc_first + 0x80 + 4"

definition ZFS_IOC_JAIL :: "IoctlNumber \<Rightarrow> IoctlNumber" where "ZFS_IOC_JAIL ioc_first = ioc_first + 0x80 + 5"

definition ZFS_IOC_UNJAIL :: "IoctlNumber \<Rightarrow> IoctlNumber" where "ZFS_IOC_UNJAIL ioc_first = ioc_first + 0x80 + 6"

definition ZFS_IOC_SET_BOOTENV :: "IoctlNumber \<Rightarrow> IoctlNumber" where "ZFS_IOC_SET_BOOTENV ioc_first = ioc_first + 0x80 + 7"

definition ZFS_IOC_GET_BOOTENV :: "IoctlNumber \<Rightarrow> IoctlNumber" where "ZFS_IOC_GET_BOOTENV ioc_first = ioc_first + 0x80 + 8"

definition ZFS_IOC_LAST :: "IoctlNumber \<Rightarrow> IoctlNumber" where "ZFS_IOC_LAST ioc_first = ioc_first + 0x80 + 9"

lemmas ioctl_defs =
  ZFS_IOC_POOL_CREATE_def
  ZFS_IOC_POOL_DESTROY_def
  ZFS_IOC_POOL_IMPORT_def
  ZFS_IOC_POOL_EXPORT_def
  ZFS_IOC_POOL_CONFIGS_def
  ZFS_IOC_POOL_STATS_def
  ZFS_IOC_POOL_TRYIMPORT_def
  ZFS_IOC_POOL_SCAN_def
  ZFS_IOC_POOL_FREEZE_def
  ZFS_IOC_POOL_UPGRADE_def
  ZFS_IOC_POOL_GET_HISTORY_def
  ZFS_IOC_VDEV_ADD_def
  ZFS_IOC_VDEV_REMOVE_def
  ZFS_IOC_VDEV_SET_STATE_def
  ZFS_IOC_VDEV_ATTACH_def
  ZFS_IOC_VDEV_DETACH_def
  ZFS_IOC_VDEV_SETPATH_def
  ZFS_IOC_VDEV_SETFRU_def
  ZFS_IOC_OBJSET_STATS_def
  ZFS_IOC_OBJSET_ZPLPROPS_def
  ZFS_IOC_DATASET_LIST_NEXT_def
  ZFS_IOC_SNAPSHOT_LIST_NEXT_def
  ZFS_IOC_SET_PROP_def
  ZFS_IOC_CREATE_def
  ZFS_IOC_DESTROY_def
  ZFS_IOC_ROLLBACK_def
  ZFS_IOC_RENAME_def
  ZFS_IOC_RECV_def
  ZFS_IOC_SEND_def
  ZFS_IOC_INJECT_FAULT_def
  ZFS_IOC_CLEAR_FAULT_def
  ZFS_IOC_INJECT_LIST_NEXT_def
  ZFS_IOC_ERROR_LOG_def
  ZFS_IOC_CLEAR_def
  ZFS_IOC_PROMOTE_def
  ZFS_IOC_SNAPSHOT_def
  ZFS_IOC_DSOBJ_TO_DSNAME_def
  ZFS_IOC_OBJ_TO_PATH_def
  ZFS_IOC_POOL_SET_PROPS_def
  ZFS_IOC_POOL_GET_PROPS_def
  ZFS_IOC_SET_FSACL_def
  ZFS_IOC_GET_FSACL_def
  ZFS_IOC_SHARE_def
  ZFS_IOC_INHERIT_PROP_def
  ZFS_IOC_SMB_ACL_def
  ZFS_IOC_USERSPACE_ONE_def
  ZFS_IOC_USERSPACE_MANY_def
  ZFS_IOC_USERSPACE_UPGRADE_def
  ZFS_IOC_HOLD_def
  ZFS_IOC_RELEASE_def
  ZFS_IOC_GET_HOLDS_def
  ZFS_IOC_OBJSET_RECVD_PROPS_def
  ZFS_IOC_VDEV_SPLIT_def
  ZFS_IOC_NEXT_OBJ_def
  ZFS_IOC_DIFF_def
  ZFS_IOC_TMP_SNAPSHOT_def
  ZFS_IOC_OBJ_TO_STATS_def
  ZFS_IOC_SPACE_WRITTEN_def
  ZFS_IOC_SPACE_SNAPS_def
  ZFS_IOC_DESTROY_SNAPS_def
  ZFS_IOC_POOL_REGUID_def
  ZFS_IOC_POOL_REOPEN_def
  ZFS_IOC_SEND_PROGRESS_def
  ZFS_IOC_LOG_HISTORY_def
  ZFS_IOC_SEND_NEW_def
  ZFS_IOC_SEND_SPACE_def
  ZFS_IOC_CLONE_def
  ZFS_IOC_BOOKMARK_def
  ZFS_IOC_GET_BOOKMARKS_def
  ZFS_IOC_DESTROY_BOOKMARKS_def
  ZFS_IOC_RECV_NEW_def
  ZFS_IOC_POOL_SYNC_def
  ZFS_IOC_PLATFORM_def
  ZFS_IOC_EVENTS_NEXT_def
  ZFS_IOC_EVENTS_CLEAR_def
  ZFS_IOC_EVENTS_SEEK_def
  ZFS_IOC_NEXTBOOT_def
  ZFS_IOC_JAIL_def
  ZFS_IOC_UNJAIL_def
  ZFS_IOC_SET_BOOTENV_def
  ZFS_IOC_GET_BOOTENV_def
  ZFS_IOC_LAST_def

section \<open>Distinctness\<close>

text \<open>The constants in the order of the source, and the offsets they are given.\<close>

definition common_ioctls :: "(IoctlNumber \<Rightarrow> IoctlNumber) list" where
  "common_ioctls =
    [ZFS_IOC_POOL_CREATE,
     ZFS_IOC_POOL_DESTROY,
     ZFS_IOC_POOL_IMPORT,
     ZFS_IOC_POOL_EXPORT,
     ZFS_IOC_POOL_CONFIGS,
     ZFS_IOC_POOL_STATS,
     ZFS_IOC_POOL_TRYIMPORT,
     ZFS_IOC_POOL_SCAN,
     ZFS_IOC_POOL_FREEZE,
     ZFS_IOC_POOL_UPGRADE,
     ZFS_IOC_POOL_GET_HISTORY,
     ZFS_IOC_VDEV_ADD,
     ZFS_IOC_VDEV_REMOVE,
     ZFS_IOC_VDEV_SET_STATE,
     ZFS_IOC_VDEV_ATTACH,
     ZFS_IOC_VDEV_DETACH,
     ZFS_IOC_VDEV_SETPATH,
     ZFS_IOC_VDEV_SETFRU,
     ZFS_IOC_OBJSET_STATS,
     ZFS_IOC_OBJSET_ZPLPROPS,
     ZFS_IOC_DATASET_LIST_NEXT,
     ZFS_IOC_SNAPSHOT_LIST_NEXT,
     ZFS_IOC_SET_PROP,
     ZFS_IOC_CREATE,
     ZFS_IOC_DESTROY,
     ZFS_IOC_ROLLBACK,
     ZFS_IOC_RENAME,
     ZFS_IOC_RECV,
     ZFS_IOC_SEND,
     ZFS_IOC_INJECT_FAULT,
     ZFS_IOC_CLEAR_FAULT,
     ZFS_IOC_INJECT_LIST_NEXT,
     ZFS_IOC_ERROR_LOG,
     ZFS_IOC_CLEAR,
     ZFS_IOC_PROMOTE,
     ZFS_IOC_SNAPSHOT,
     ZFS_IOC_DSOBJ_TO_DSNAME,
     ZFS_IOC_OBJ_TO_PATH,
     ZFS_IOC_POOL_SET_PROPS,
     ZFS_IOC_POOL_GET_PROPS,
     ZFS_IOC_SET_FSACL,
     ZFS_IOC_GET_FSACL,
     ZFS_IOC_SHARE,
     ZFS_IOC_INHERIT_PROP,
     ZFS_IOC_SMB_ACL,
     ZFS_IOC_USERSPACE_ONE,
     ZFS_IOC_USERSPACE_MANY,
     ZFS_IOC_USERSPACE_UPGRADE,
     ZFS_IOC_HOLD,
     ZFS_IOC_RELEASE,
     ZFS_IOC_GET_HOLDS,
     ZFS_IOC_OBJSET_RECVD_PROPS,
     ZFS_IOC_VDEV_SPLIT,
     ZFS_IOC_NEXT_OBJ,
     ZFS_IOC_DIFF,
     ZFS_IOC_TMP_SNAPSHOT,
     ZFS_IOC_OBJ_TO_STATS,
     ZFS_IOC_SPACE_WRITTEN,
     ZFS_IOC_SPACE_SNAPS,
     ZFS_IOC_DESTROY_SNAPS,
     ZFS_IOC_POOL_REGUID,
     ZFS_IOC_POOL_REOPEN,
     ZFS_IOC_SEND_PROGRESS,
     ZFS_IOC_LOG_HISTORY,
     ZFS_IOC_SEND_NEW,
     ZFS_IOC_SEND_SPACE,
     ZFS_IOC_CLONE,
     ZFS_IOC_BOOKMARK,
     ZFS_IOC_GET_BOOKMARKS,
     ZFS_IOC_DESTROY_BOOKMARKS,
     ZFS_IOC_RECV_NEW,
     ZFS_IOC_POOL_SYNC]"

definition platform_ioctls :: "(IoctlNumber \<Rightarrow> IoctlNumber) list" where
  "platform_ioctls =
    [ZFS_IOC_PLATFORM,
     ZFS_IOC_EVENTS_NEXT,
     ZFS_IOC_EVENTS_CLEAR,
     ZFS_IOC_EVENTS_SEEK,
     ZFS_IOC_NEXTBOOT,
     ZFS_IOC_JAIL,
     ZFS_IOC_UNJAIL,
     ZFS_IOC_SET_BOOTENV,
     ZFS_IOC_GET_BOOTENV,
     ZFS_IOC_LAST]"

definition ioctl_numbers :: "IoctlNumber \<Rightarrow> IoctlNumber list" where
  "ioctl_numbers ioc_first = map (\<lambda>f. f ioc_first) (common_ioctls @ platform_ioctls)"

definition ioctl_offsets :: "nat list" where
  "ioctl_offsets = [0..<72] @ [0x80..<0x80 + 10]"

lemma ioctl_numbers_offsets: "ioctl_numbers ioc_first = map (\<lambda>k. ioc_first + word_of_nat k) ioctl_offsets"
  by (simp add: ioctl_numbers_def ioctl_offsets_def common_ioctls_def platform_ioctls_def ioctl_defs upt_rec)

lemma distinct_ioctl_numbers: "distinct (ioctl_numbers ioc_first)"
proof -
  have "inj_on (\<lambda>k. ioc_first + (word_of_nat k :: IoctlNumber)) (set ioctl_offsets)"
  proof (rule inj_onI)
    fix j k assume "j \<in> set ioctl_offsets" "k \<in> set ioctl_offsets"
      and "ioc_first + (word_of_nat j :: IoctlNumber) = ioc_first + word_of_nat k"
    then have "(word_of_nat j :: IoctlNumber) = word_of_nat k" and "j < 2 ^ 32" "k < 2 ^ 32"
      by (auto simp: ioctl_offsets_def)
    then show "j = k" by (simp add: word_of_nat_eq_iff take_bit_eq_mod)
  qed
  moreover have "distinct ioctl_offsets" by (auto simp: ioctl_offsets_def)
  ultimately show ?thesis by (simp add: ioctl_numbers_offsets distinct_map)
qed

section \<open>Other constants\<close>

text \<open>
  What types.go declares beside the numbers. Only object types have a typed constant; the states and
  failure modes are untyped integers.
\<close>

type_synonym State = "64 word"

type_synonym FailMode = "64 word"

type_synonym ObjectType = "32 word"

definition StateUnknown :: "int" where "StateUnknown = 0"

definition StateClosed :: "int" where "StateClosed = 1"

definition StateOffline :: "int" where "StateOffline = 2"

definition StateRemoved :: "int" where "StateRemoved = 3"

definition StateCantOpen :: "int" where "StateCantOpen = 4"

definition StateFaulted :: "int" where "StateFaulted = 5"

definition StateDegraded :: "int" where "StateDegraded = 6"

definition StateHealthy :: "int" where "StateHealthy = 7"

definition FailWait :: "int" where "FailWait = 0"

definition FailContinue :: "int" where "FailContinue = 1"

definition FailPanic :: "int" where "FailPanic = 2"

definition ObjectTypeNone :: "ObjectType" where "ObjectTypeNone = 0"

definition ObjectTypeMeta :: "ObjectType" where "ObjectTypeMeta = 1"

definition ObjectTypeZFS :: "ObjectType" where "ObjectTypeZFS = 2"

definition ObjectTypeZvol :: "ObjectType" where "ObjectTypeZvol = 3"

definition ObjectTypeOther :: "ObjectType" where "ObjectTypeOther = 4"

definition ObjectTypeAny :: "ObjectType" where "ObjectTypeAny = 5"

definition ObjectTypeNumtypes :: "ObjectType" where "ObjectTypeNumtypes = 6"

definition ErrorPropClearFailed :: "int" where "ErrorPropClearFailed = 0x01"

definition ErrorPropRestoreFailed :: "int" where "ErrorPropRestoreFailed = 0x02"

end
