(* ===== verification/Ioctl_Cmd.thy ===== *)
theory Ioctl_Cmd
  imports Ioctl_Consts
begin

text \<open>
  zfs/ioctl/types.go and ioctl.go: the command block that every ZFS ioctl exchanges with the
  kernel, its name field, and the system call with its retry loop.

  Shown here: a name of up to 4095 bytes without a NUL survives the way through a cleared block;
  without \<open>Clear\<close> the tail of a longer, earlier name remains.
\<close>

section \<open>The command block\<close>

record DMUObjectSetStats =
  Num_clones :: "64 word"
  Creation_txg :: "64 word"
  Dmu_Guid :: "64 word"
  Dmu_Type :: "32 word"
  Is_snapshot :: "8 word"
  Inconsistent :: "8 word"
  Origin :: "byte list"
  Dmu_Pad_cgo_0 :: "byte list"

record ZInjectRecord =
  Objset :: "64 word"
  Object :: "64 word"
  Inject_Start :: "64 word"
  Inject_End :: "64 word"
  Inject_Guid :: "64 word"
  Level :: "32 word"
  Inject_Error :: "32 word"
  Inject_Type :: "64 word"
  Freq :: "32 word"
  Failfast :: "32 word"
  Inject_Func :: "byte list"
  Inject_Pad_cgo_0 :: "byte list"
  Iotype :: "32 word"
  Duration :: "32 word"
  Timer :: "64 word"
  Nlanes :: "64 word"
  Inject_Cmd :: "32 word"
  Inject_Pad :: "32 word"

record Share =
  Exportdata :: "64 word"
  Sharedata :: "64 word"
  Sharetype :: "64 word"
  Sharemax :: "64 word"

record Stat =
  Gen :: "64 word"
  Mode :: "64 word"
  Links :: "64 word"
  Ctime :: "64 word list"

record DRRBegin =
  Magic :: "64 word"
  Versioninfo :: "64 word"
  Creation_time :: "64 word"
  Drr_Type :: "32 word"
  Drr_Flags :: "32 word"
  Toguid :: "64 word"
  Fromguid :: "64 word"
  Toname :: "byte list"
  Drr_Pad_cgo_0 :: "byte list"

text \<open>An array field is the list of its elements; \<open>zero_cmd\<close> has the lengths of the source.\<close>

record Cmd =
  CmdName :: "byte list"
  Nvlist_src :: "64 word"
  Nvlist_src_size :: "64 word"
  Nvlist_dst :: "64 word"
  Nvlist_dst_size :: "64 word"
  Nvlist_dst_filled :: bool
  Pad_cgo_0 :: "byte list"
  Pad2 :: "32 word"
  History :: "64 word"
  CmdValue :: "byte list"
  CmdString :: "byte list"
  Guid :: "64 word"
  Nvlist_conf :: "64 word"
  Nvlist_conf_size :: "64 word"
  Cookie :: "64 word"
  Objset_type :: "64 word"
  Perm_action :: "64 word"
  History_len :: "64 word"
  History_offset :: "64 word"
  Obj :: "64 word"
  Iflags :: "64 word"
  CmdShare :: Share
  Objset_stats :: DMUObjectSetStats
  Begin_record :: DRRBegin
  Inject_record :: ZInjectRecord
  Defer_destroy :: "32 word"
  CmdFlags :: "32 word"
  Action_handle :: "64 word"
  Cleanup_fd :: "32 word"
  Simple :: "8 word"
  Pad :: "byte list"
  Sendobj :: "64 word"
  Fromobj :: "64 word"
  Createtxg :: "64 word"
  CmdStat :: Stat

definition zero_bytes :: "nat \<Rightarrow> byte list" where
  "zero_bytes n = replicate n 0"

definition zero_dmu :: DMUObjectSetStats where
  "zero_dmu = \<lparr>Num_clones = 0, Creation_txg = 0, Dmu_Guid = 0, Dmu_Type = 0, Is_snapshot = 0,
     Inconsistent = 0, Origin = zero_bytes 256, Dmu_Pad_cgo_0 = zero_bytes 2\<rparr>"

definition zero_inject :: ZInjectRecord where
  "zero_inject = \<lparr>Objset = 0, Object = 0, Inject_Start = 0, Inject_End = 0, Inject_Guid = 0, Level = 0,
     Inject_Error = 0, Inject_Type = 0, Freq = 0, Failfast = 0, Inject_Func = zero_bytes 255,
     Inject_Pad_cgo_0 = zero_bytes 1, Iotype = 0, Duration = 0, Timer = 0, Nlanes = 0,
     Inject_Cmd = 0, Inject_Pad = 0\<rparr>"

definition zero_share :: Share where
  "zero_share = \<lparr>Exportdata = 0, Sharedata = 0, Sharetype = 0, Sharemax = 0\<rparr>"

definition zero_stat :: Stat where
  "zero_stat = \<lparr>Gen = 0, Mode = 0, Links = 0, Ctime = [0, 0]\<rparr>"

definition zero_drr :: DRRBegin where
  "zero_drr = \<lparr>Magic = 0, Versioninfo = 0, Creation_time = 0, Drr_Type = 0, Drr_Flags = 0, Toguid = 0,
     Fromguid = 0, Toname = zero_bytes 255, Drr_Pad_cgo_0 = zero_bytes 1\<rparr>"

text \<open>\<open>Cmd{}\<close>, the zero value.\<close>

definition zero_cmd :: Cmd where
  "zero_cmd = \<lparr>CmdName = zero_bytes 4096, Nvlist_src = 0, Nvlist_src_size = 0, Nvlist_dst = 0,
     Nvlist_dst_size = 0, Nvlist_dst_filled = False, Pad_cgo_0 = zero_bytes 3, Pad2 = 0, History = 0,
     CmdValue = zero_bytes 8192, CmdString = zero_bytes 256, Guid = 0, Nvlist_conf = 0,
     Nvlist_conf_size = 0, Cookie = 0, Objset_type = 0, Perm_action = 0, History_len = 0,
     History_offset = 0, Obj = 0, Iflags = 0, CmdShare = zero_share, Objset_stats = zero_dmu,
     Begin_record = zero_drr, Inject_record = zero_inject, Defer_destroy = 0, CmdFlags = 0,
     Action_handle = 0, Cleanup_fd = 0, Simple = 0, Pad = zero_bytes 3, Sendobj = 0, Fromobj = 0,
     Createtxg = 0, CmdStat = zero_stat\<rparr>"

section \<open>Delimited buffers\<close>

text \<open>The loop of \<open>delimitedBufToString\<close> stops at the first NUL or at the end of the buffer.\<close>

function delimiter_index :: "byte list \<Rightarrow> nat \<Rightarrow> nat" where
  "delimiter_index buf i =
     (if i < length buf then (if buf ! i = 0 then i else delimiter_index buf (i + 1)) else i)"
  by pat_completeness auto
termination
  by (relation "measure (\<lambda>(buf, i). length buf - i)") auto

declare delimiter_index.simps [simp del]

definition delimitedBufToString :: "byte list \<Rightarrow> string" where
  "delimitedBufToString buf = string_of_bytes (take (delimiter_index buf 0) buf)"

text \<open>
  The copying loop of \<open>stringToDelimitedBuf\<close> on the string's bytes from index \<open>i\<close>. It writes to
  the buffer as it goes, and gives up at a NUL; the bytes written so far stay.
\<close>

fun copy_bytes :: "byte list \<Rightarrow> nat \<Rightarrow> (byte list, unit) proc" where
  "copy_bytes [] i buf = (Inr (), buf)"
| "copy_bytes (b # bs) i buf =
     (if b = 0
      then (Inl (Err (Errorf ''String contains null byte, this is unsupported by ZFS'')), buf)
      else if i < length buf then copy_bytes bs (i + 1) (buf[i := b])
      else (Inl (Panic IndexOutOfRange), buf))"

definition stringToDelimitedBuf :: "string \<Rightarrow> (byte list, unit) proc" where
  "stringToDelimitedBuf str buf =
     (if int (length str) > int (length buf) - 1
      then (Inl (Err (Errorf ''String longer than target buffer (%v > %v)'')), buf)
      else copy_bytes (bytes_of_string str) 0 buf)"

definition Clear :: "Cmd \<Rightarrow> Cmd" where
  "Clear c = zero_cmd"

text \<open>\<open>SetName\<close> drops the error of \<open>stringToDelimitedBuf\<close>; a panic would go through it.\<close>

definition SetName :: "string \<Rightarrow> (Cmd, unit) proc" where
  "SetName name c =
     (case stringToDelimitedBuf name (CmdName c) of
        (Inl (Panic p), buf) \<Rightarrow> (Inl (Panic p), c\<lparr>CmdName := buf\<rparr>)
      | (_, buf) \<Rightarrow> (Inr (), c\<lparr>CmdName := buf\<rparr>))"

definition GetName :: "Cmd \<Rightarrow> string" where
  "GetName c = delimitedBufToString (CmdName c)"

section \<open>Names\<close>

lemma delimiter_index_run:
  "0 \<notin> set bs \<Longrightarrow> delimiter_index (pre @ bs @ 0 # rest) (length pre) = length pre + length bs"
proof (induction bs arbitrary: pre)
  case Nil
  show ?case by (subst delimiter_index.simps) (simp add: nth_append)
next
  case (Cons b bs)
  from Cons.IH [of "pre @ [b]"] Cons.prems show ?case
    by (subst delimiter_index.simps) (simp add: nth_append)
qed

lemma delimitedBufToString_run:
  "0 \<notin> set bs \<Longrightarrow> delimitedBufToString (bs @ 0 # rest) = string_of_bytes bs"
  using delimiter_index_run [of bs "[]" rest] by (simp add: delimitedBufToString_def)

text \<open>What the copying loop leaves in a buffer with room for the string.\<close>

lemma copy_bytes_run:
  "length pre + length bs \<le> length buf \<Longrightarrow> take (length pre) buf = pre \<Longrightarrow>
   snd (copy_bytes bs (length pre) buf) =
     pre @ takeWhile (\<lambda>b. b \<noteq> 0) bs @ drop (length pre + length (takeWhile (\<lambda>b. b \<noteq> 0) bs)) buf \<and>
   returns (fst (copy_bytes bs (length pre) buf))"
proof (induction bs arbitrary: pre buf)
  case Nil
  then show ?case by (metis (no_types) add_0_right append_Nil append_take_drop_id copy_bytes.simps(1)
        fst_conv length_0_conv returns.simps(1) snd_conv takeWhile.simps(1))
next
  case (Cons b bs)
  have split: "buf = pre @ drop (length pre) buf"
    using Cons.prems(2) by (metis append_take_drop_id)
  show ?case
  proof (cases "b = 0")
    case True
    with split show ?thesis by simp
  next
    case False
    let ?buf = "buf[length pre := b]"
    have "take (length (pre @ [b])) ?buf = pre @ [b]"
      using Cons.prems by (simp add: take_Suc_conv_app_nth)
    moreover have "length (pre @ [b]) + length bs \<le> length ?buf" using Cons.prems(1) by simp
    ultimately show ?thesis using Cons.IH [of "pre @ [b]" ?buf] False Cons.prems(1)
      by simp
  qed
qed

lemma takeWhile_bytes:
  "takeWhile (\<lambda>b. b \<noteq> 0) (bytes_of_string s) = bytes_of_string (takeWhile (\<lambda>c. c \<noteq> CHR 0x00) s)"
proof (induction s)
  case (Cons c s)
  have "(word_of_nat (of_char c) :: byte) = 0 \<longleftrightarrow> c = CHR 0x00"
  proof
    assume "(word_of_nat (of_char c) :: byte) = 0"
    then have "char_of (unat (0 :: byte)) = c" using byte_char [of c] by simp
    then show "c = CHR 0x00" by (simp add: char_of_def)
  qed simp
  with Cons show ?case by (simp add: bytes_of_string_def)
qed (simp add: bytes_of_string_def)

lemma zero_notin_bytes: "0 \<notin> set (takeWhile (\<lambda>b. b \<noteq> (0 :: byte)) bs)"
  by (auto dest: set_takeWhileD)

text \<open>
  \<open>SetName\<close> on any block whose name array has its 4096 bytes: it never panics, and it
  overwrites the beginning of the array up to the first NUL of the name, or nothing at all when
  the name is too long.
\<close>

definition name_prefix :: "string \<Rightarrow> string" where
  "name_prefix name = (if length name \<le> 4095 then takeWhile (\<lambda>c. c \<noteq> CHR 0x00) name else [])"

lemma length_name_prefix: "length (name_prefix name) \<le> 4095"
  by (auto simp: name_prefix_def intro: le_trans [OF length_takeWhile_le])

lemma SetName_bytes:
  assumes "length (CmdName c) = 4096"
  shows "SetName name c =
    (Inr (), c\<lparr>CmdName := bytes_of_string (name_prefix name) @ drop (length (name_prefix name)) (CmdName c)\<rparr>)"
proof (cases "length name \<le> 4095")
  case False
  then show ?thesis using assms
    by (simp add: SetName_def stringToDelimitedBuf_def name_prefix_def bytes_of_string_def)
next
  case True
  let ?r = "copy_bytes (bytes_of_string name) 0 (CmdName c)"
  have r: "snd ?r = bytes_of_string (name_prefix name) @ drop (length (name_prefix name)) (CmdName c)"
    and ok: "returns (fst ?r)"
    using copy_bytes_run [of "[]" "bytes_of_string name" "CmdName c"] True assms
    by (simp_all add: takeWhile_bytes name_prefix_def)
  have "SetName name c = (Inr (), c\<lparr>CmdName := snd ?r\<rparr>)"
    using True ok assms
    by (auto simp: SetName_def stringToDelimitedBuf_def returns_iff split: prod.split sum.split exit.split)
  then show ?thesis by (simp add: r)
qed

lemma GetName_run: "CmdName c = bytes_of_string s @ 0 # rest \<Longrightarrow> CHR 0x00 \<notin> set s \<Longrightarrow> GetName c = s"
proof -
  assume c: "CmdName c = bytes_of_string s @ 0 # rest" and s: "CHR 0x00 \<notin> set s"
  from s have eq: "takeWhile (\<lambda>c. c \<noteq> CHR 0x00) s = s" by (auto simp: takeWhile_eq_all_conv)
  have "0 \<notin> set (bytes_of_string s)"
    using zero_notin_bytes [of "bytes_of_string s"] unfolding takeWhile_bytes eq .
  then show ?thesis by (simp add: GetName_def c delimitedBufToString_run)
qed

lemma name_prefix_no_NUL: "CHR 0x00 \<notin> set (name_prefix name)"
  by (auto simp: name_prefix_def dest: set_takeWhileD)

lemma drop_zero_bytes: "n < m \<Longrightarrow> drop n (zero_bytes m) = 0 # zero_bytes (m - n - 1)"
  unfolding zero_bytes_def
  by (metis Suc_diff_Suc diff_Suc_1 diff_commute drop_replicate minus_nat.diff_0 One_nat_def replicate_Suc diff_Suc_eq_diff_pred)

lemma GetName_SetName_cleared:
  "GetName (snd (SetName name (Clear c))) = name_prefix name"
proof -
  have "SetName name (Clear c) = (Inr (), zero_cmd
      \<lparr>CmdName := bytes_of_string (name_prefix name) @ drop (length (name_prefix name)) (zero_bytes 4096)\<rparr>)"
    using SetName_bytes [of "Clear c" name] by (simp add: Clear_def zero_cmd_def zero_bytes_def)
  moreover have "drop (length (name_prefix name)) (zero_bytes 4096) =
      0 # zero_bytes (4096 - length (name_prefix name) - 1)"
    using length_name_prefix [of name] by (intro drop_zero_bytes) simp
  ultimately show ?thesis by (simp add: GetName_run [OF _ name_prefix_no_NUL])
qed

lemma GetName_SetName_stale:
  assumes "length b < length a" and "length a \<le> 4095" and "CHR 0x00 \<notin> set a" and "CHR 0x00 \<notin> set b"
  shows "GetName (snd (SetName b (snd (SetName a (Clear c))))) = b @ drop (length b) a"
proof -
  have pre: "name_prefix a = a" "name_prefix b = b"
    using assms by (auto simp: name_prefix_def takeWhile_eq_all_conv)
  let ?c = "snd (SetName a (Clear c))"
  have c: "CmdName ?c = bytes_of_string a @ 0 # zero_bytes (4095 - length a)"
    using SetName_bytes [of "Clear c" a] assms(2)
    by (simp add: Clear_def zero_cmd_def pre drop_zero_bytes) (simp add: zero_bytes_def)
  then have "length (CmdName ?c) = 4096" using assms(2) by (simp add: zero_bytes_def)
  from SetName_bytes [OF this, of b]
  have "CmdName (snd (SetName b ?c)) = bytes_of_string (b @ drop (length b) a) @ 0 # zero_bytes (4095 - length a)"
    using assms(1) by (simp add: pre c bytes_of_string_def drop_map)
  moreover have "CHR 0x00 \<notin> set (b @ drop (length b) a)"
    using assms(3,4) by (auto dest: in_set_dropD)
  ultimately show ?thesis by (rule GetName_run)
qed

end
