(* ===== verification/Ioctl_Call.thy ===== *)
theory Ioctl_Call
  imports Ioctl_Cmd
begin

text \<open>
  zfs/ioctl/ioctl.go, \<open>(*ZFSHandle).Ioctl\<close>: the system call with its retry loop, which answers
  the kernel's ENOMEM by a response buffer of the length the kernel asks for. The kernel and
  the allocator are parameters of the model, collected in a record \<open>host\<close>; the state of the
  machine outside the process is a value of type \<open>'w\<close> that every call may change.

  Shown here: against a kernel that refuses short buffers with the length it needs and
  otherwise writes its reply, two attempts are enough and the reply stands at the beginning of
  the buffer; other error numbers are returned as they are; a kernel that keeps refusing
  keeps the loop going for ever.
\<close>

section \<open>The host\<close>

text \<open>A non-nil slice of bytes: the address of its first element and its contents.\<close>

record buffer =
  buf_addr :: "64 word"
  buf_bytes :: "byte list"

text \<open>
  \<open>sys_ioctl\<close> gets the ioctl number, the command block and the memory of the request and the
  configuration; it returns the error number, the block and the bytes it wrote at the
  destination. \<open>allocate\<close> gives the address of a new slice of some length, and slices longer
  than \<open>max_alloc\<close> bytes make the run time panic.
\<close>

record 'w host =
  sys_ioctl :: "IoctlNumber \<Rightarrow> Cmd \<Rightarrow> buffer option \<Rightarrow> buffer option \<Rightarrow> 'w \<Rightarrow> (nat \<times> Cmd \<times> byte list) \<times> 'w"
  allocate :: "nat \<Rightarrow> 'w \<Rightarrow> 64 word \<times> 'w"
  max_alloc :: nat

text \<open>Error numbers of golang.org/x/sys/unix; they are the same on Linux and on FreeBSD.\<close>

definition ENOMEM :: nat where "ENOMEM = 12"

definition ESRCH :: nat where "ESRCH = 3"

section \<open>The call\<close>

text \<open>What \<open>Ioctl\<close> works on: the world, \<open>*cmd\<close>, and \<open>*resp\<close> (\<open>None\<close> for nil).\<close>

record 'w io =
  io_world :: 'w
  io_cmd :: Cmd
  io_resp :: "buffer option"

definition make_bytes :: "('w, 'm) host_scheme \<Rightarrow> nat \<Rightarrow> 'w \<Rightarrow> (exit + buffer) \<times> 'w" where
  "make_bytes H n w =
     (if n > max_alloc H then (Inl (Panic MakeSliceLen), w)
      else (case allocate H n w of (a, w') \<Rightarrow> (Inr \<lparr>buf_addr = a, buf_bytes = zero_bytes n\<rparr>, w')))"

text \<open>\<open>&b[0]\<close> of an empty slice panics.\<close>

definition point_at :: "buffer option \<Rightarrow> (64 word \<Rightarrow> 64 word \<Rightarrow> Cmd \<Rightarrow> Cmd) \<Rightarrow> ('w io, unit) proc" where
  "point_at b f s =
     (case b of
        None \<Rightarrow> (Inr (), s)
      | Some b \<Rightarrow>
          if buf_bytes b = [] then (Inl (Panic IndexOutOfRange), s)
          else (Inr (), s\<lparr>io_cmd := f (buf_addr b) (word_of_nat (length (buf_bytes b))) (io_cmd s)\<rparr>))"

definition set_dst :: "64 word \<Rightarrow> 64 word \<Rightarrow> Cmd \<Rightarrow> Cmd" where
  "set_dst a n c = c\<lparr>Nvlist_dst := a, Nvlist_dst_size := n\<rparr>"

definition set_src :: "64 word \<Rightarrow> 64 word \<Rightarrow> Cmd \<Rightarrow> Cmd" where
  "set_src a n c = c\<lparr>Nvlist_src := a, Nvlist_src_size := n\<rparr>"

definition set_conf :: "64 word \<Rightarrow> 64 word \<Rightarrow> Cmd \<Rightarrow> Cmd" where
  "set_conf a n c = c\<lparr>Nvlist_conf := a, Nvlist_conf_size := n\<rparr>"

text \<open>The kernel writes at the beginning of the response buffer and not past its end.\<close>

definition written_over :: "byte list \<Rightarrow> byte list \<Rightarrow> byte list" where
  "written_over new old = take (length old) new @ drop (length new) old"

definition issue :: "('w, 'm) host_scheme \<Rightarrow> IoctlNumber \<Rightarrow> buffer option \<Rightarrow> buffer option \<Rightarrow> ('w io, nat) proc" where
  "issue H num request config s =
     (case sys_ioctl H num (io_cmd s) request config (io_world s) of
        ((errno, c, new), w) \<Rightarrow>
          (Inr errno, s\<lparr>io_world := w, io_cmd := c,
             io_resp := map_option (\<lambda>b. b\<lparr>buf_bytes := written_over new (buf_bytes b)\<rparr>) (io_resp s)\<rparr>))"

definition grow_resp :: "('w, 'm) host_scheme \<Rightarrow> ('w io, unit) proc" where
  "grow_resp H s =
     (case make_bytes H (unat (Nvlist_dst_size (io_cmd s))) (io_world s) of
        (Inl e, w) \<Rightarrow> (Inl e, s\<lparr>io_world := w\<rparr>)
      | (Inr b, w) \<Rightarrow> (Inr (), s\<lparr>io_world := w, io_resp := Some b\<rparr>))"

text \<open>One round of the loop up to the system call, and the loop with a bound on its rounds.\<close>

definition attempt :: "('w, 'm) host_scheme \<Rightarrow> IoctlNumber \<Rightarrow> buffer option \<Rightarrow> buffer option \<Rightarrow> ('w io, nat) proc" where
  "attempt H num request config =
     bindE (gets io_resp) (\<lambda>resp.
     bindE (point_at resp set_dst) (\<lambda>_.
     bindE (point_at request set_src) (\<lambda>_.
     bindE (point_at config set_conf) (\<lambda>_.
     issue H num request config))))"

fun Ioctl :: "nat \<Rightarrow> ('w, 'm) host_scheme \<Rightarrow> IoctlNumber \<Rightarrow> buffer option \<Rightarrow> buffer option \<Rightarrow> ('w io, unit) proc" where
  "Ioctl 0 H num request config s = (Inl OutOfFuel, s)"
| "Ioctl (Suc n) H num request config s =
     bindE (attempt H num request config) (\<lambda>errno.
     bindE (gets io_resp) (\<lambda>resp.
     if errno = ENOMEM \<and> resp \<noteq> None then bindE (grow_resp H) (\<lambda>_. Ioctl n H num request config)
     else if errno \<noteq> 0 then fail (Errno errno)
     else ret ())) s"

section \<open>The bound on the rounds\<close>

lemma Ioctl_more:
  "fst (Ioctl n H num request config s) \<noteq> Inl OutOfFuel \<Longrightarrow> n \<le> m \<Longrightarrow>
   Ioctl m H num request config s = Ioctl n H num request config s"
proof (induction n arbitrary: m s)
  case (Suc n)
  then obtain m' where m: "m = Suc m'" and "n \<le> m'" by (cases m) auto
  show ?case unfolding m Ioctl.simps
  proof (intro bindE_cong refl, goal_cases)
    case (1 errno s1 resp s2)
    show ?case
    proof (cases "errno = ENOMEM \<and> resp \<noteq> None")
      case True
      have "Ioctl m' H num request config s3 = Ioctl n H num request config s3"
        if "grow_resp H s2 = (Inr (), s3)" for s3
      proof (rule Suc.IH [OF _ \<open>n \<le> m'\<close>])
        have "Ioctl (Suc n) H num request config s = Ioctl n H num request config s3"
          using 1 True that by (simp add: bindE_def)
        with Suc.prems(1) show "fst (Ioctl n H num request config s3) \<noteq> Inl OutOfFuel" by simp
      qed
      with True show ?thesis by (auto intro!: bindE_cong)
    next
      case False
      show ?thesis by (simp only: if_not_P [OF False])
    qed
  qed
qed simp

section \<open>Kernels\<close>

text \<open>
  A kernel that serves an ioctl with a reply: a destination that is too small is refused with
  ENOMEM and the size that is needed, into a large enough one the reply is written.
\<close>

definition serves :: "('w, 'm) host_scheme \<Rightarrow> IoctlNumber \<Rightarrow> byte list \<Rightarrow> bool" where
  "serves H num reply \<longleftrightarrow> (\<forall>c w. \<exists>c' w' new.
     sys_ioctl H num c None None w =
       (if unat (Nvlist_dst_size c) < length reply
        then ((ENOMEM, c'\<lparr>Nvlist_dst_size := word_of_nat (length reply)\<rparr>, new), w')
        else ((0, c', reply), w')))"

text \<open>A kernel that answers with the same error number whatever it is given.\<close>

definition refuses :: "('w, 'm) host_scheme \<Rightarrow> IoctlNumber \<Rightarrow> nat \<Rightarrow> 64 word \<Rightarrow> bool" where
  "refuses H num errno need \<longleftrightarrow> (\<forall>c w. \<exists>c' w' new.
     sys_ioctl H num c None None w = ((errno, c'\<lparr>Nvlist_dst_size := need\<rparr>, new), w'))"

lemma point_at_None: "point_at None f s = (Inr (), s)"
  by (simp add: point_at_def)

lemma attempt_resp:
  assumes "io_resp s = Some b" and "buf_bytes b \<noteq> []"
  shows "attempt H num None None s =
    issue H num None None (s\<lparr>io_cmd := set_dst (buf_addr b) (word_of_nat (length (buf_bytes b))) (io_cmd s)\<rparr>)"
  using assms by (simp add: attempt_def proc_simps point_at_def bindE_def)

lemma unat_length: "length xs < 2 ^ 64 \<Longrightarrow> unat (word_of_nat (length xs) :: 64 word) = length xs"
  by (simp add: unat_of_nat)

lemma length_written_over [simp]: "length (written_over new old) = length old"
  by (simp add: written_over_def)

lemma attempt_served:
  assumes "serves H num reply" and b: "io_resp s = Some b" "buf_bytes b \<noteq> []"
    and size: "length reply \<le> length (buf_bytes b)" "length (buf_bytes b) < 2 ^ 64"
  shows "\<exists>s'. attempt H num None None s = (Inr 0, s') \<and>
    io_resp s' = Some (b\<lparr>buf_bytes := reply @ drop (length reply) (buf_bytes b)\<rparr>)"
proof -
  let ?c = "set_dst (buf_addr b) (word_of_nat (length (buf_bytes b))) (io_cmd s)"
  obtain c' w' where "sys_ioctl H num ?c None None (io_world s) = ((0, c', reply), w')"
    using assms(1) [unfolded serves_def, rule_format, of ?c "io_world s"] size(1) unat_length [OF size(2)]
    by (auto simp: set_dst_def)
  then show ?thesis
    using size(1) by (auto simp: attempt_resp [OF b] issue_def b written_over_def)
qed

lemma attempt_refused:
  assumes "serves H num reply" and b: "io_resp s = Some b" "buf_bytes b \<noteq> []"
    and size: "length (buf_bytes b) < length reply" "length (buf_bytes b) < 2 ^ 64"
  shows "\<exists>s' b'. attempt H num None None s = (Inr ENOMEM, s') \<and> io_resp s' = Some b' \<and>
    Nvlist_dst_size (io_cmd s') = word_of_nat (length reply)"
proof -
  let ?c = "set_dst (buf_addr b) (word_of_nat (length (buf_bytes b))) (io_cmd s)"
  obtain c' w' new where "sys_ioctl H num ?c None None (io_world s) =
      ((ENOMEM, c'\<lparr>Nvlist_dst_size := word_of_nat (length reply)\<rparr>, new), w')"
    using assms(1) [unfolded serves_def, rule_format, of ?c "io_world s"] size(1) unat_length [OF size(2)]
    by (auto simp: set_dst_def)
  then show ?thesis by (auto simp: attempt_resp [OF b] issue_def b)
qed

lemma grow_resp_eq:
  assumes "Nvlist_dst_size (io_cmd s) = word_of_nat n" and "n < 2 ^ 64" and "n \<le> max_alloc H"
  shows "\<exists>s' a. grow_resp H s = (Inr (), s') \<and> io_resp s' = Some \<lparr>buf_addr = a, buf_bytes = zero_bytes n\<rparr>"
proof -
  have "unat (Nvlist_dst_size (io_cmd s)) = n" using assms(1,2) by (simp add: unat_of_nat)
  with assms(3) show ?thesis by (auto simp: grow_resp_def make_bytes_def split: prod.split)
qed

text \<open>An attempt that ends in a number decides how the loop goes on.\<close>

lemma Ioctl_done:
  "attempt H num request config s = (Inr 0, s') \<Longrightarrow> Ioctl (Suc n) H num request config s = (Inr (), s')"
  by (simp add: bindE_def proc_simps ENOMEM_def)

lemma Ioctl_errno:
  "attempt H num request config s = (Inr e, s') \<Longrightarrow> e \<noteq> 0 \<Longrightarrow> e = ENOMEM \<Longrightarrow> io_resp s' = None \<Longrightarrow>
   Ioctl (Suc n) H num request config s = (Inl (Err (Errno e)), s')"
  "attempt H num request config s = (Inr e, s') \<Longrightarrow> e \<noteq> 0 \<Longrightarrow> e \<noteq> ENOMEM \<Longrightarrow>
   Ioctl (Suc n) H num request config s = (Inl (Err (Errno e)), s')"
  by (simp_all add: bindE_def proc_simps)

lemma Ioctl_grow:
  "attempt H num request config s = (Inr ENOMEM, s1) \<Longrightarrow> io_resp s1 = Some b \<Longrightarrow>
   grow_resp H s1 = (Inr (), s2) \<Longrightarrow>
   Ioctl (Suc n) H num request config s = Ioctl n H num request config s2"
  by (simp add: bindE_def proc_simps)

text \<open>Two rounds are enough for a kernel that serves the call.\<close>

lemma Ioctl_served:
  assumes H: "serves H num reply" and reply: "reply \<noteq> []" "length reply < 2 ^ 64" "length reply \<le> max_alloc H"
    and b: "io_resp s = Some b" "buf_bytes b \<noteq> []" "length (buf_bytes b) < 2 ^ 64" and n: "2 \<le> n"
  shows "\<exists>s' b'. Ioctl n H num None None s = (Inr (), s') \<and> io_resp s' = Some b' \<and>
    buf_bytes b' = reply @ drop (length reply) (buf_bytes b)"
proof -
  obtain k where k: "n = Suc (Suc k)" using n by (cases n; cases "n - 1") auto
  show ?thesis
  proof (cases "length reply \<le> length (buf_bytes b)")
    case True
    from attempt_served [OF H b(1,2) True b(3)] obtain s'
      where "attempt H num None None s = (Inr 0, s')"
        and b': "io_resp s' = Some (b\<lparr>buf_bytes := reply @ drop (length reply) (buf_bytes b)\<rparr>)" by blast
    then have "Ioctl n H num None None s = (Inr (), s')" unfolding k by (intro Ioctl_done)
    with b' show ?thesis by simp
  next
    case False
    then obtain s1 b1 where a1: "attempt H num None None s = (Inr ENOMEM, s1)" and b1: "io_resp s1 = Some b1"
        and need: "Nvlist_dst_size (io_cmd s1) = word_of_nat (length reply)"
      using attempt_refused [OF H b(1,2) _ b(3)] by auto
    obtain s2 a where g: "grow_resp H s1 = (Inr (), s2)"
        and b2: "io_resp s2 = Some \<lparr>buf_addr = a, buf_bytes = zero_bytes (length reply)\<rparr>"
      using grow_resp_eq [OF need reply(2,3)] by blast
    obtain s3 where a3: "attempt H num None None s2 = (Inr 0, s3)"
        and b3: "io_resp s3 = Some \<lparr>buf_addr = a, buf_bytes = reply\<rparr>"
      using attempt_served [OF H b2] reply by (auto simp: zero_bytes_def)
    have "Ioctl n H num None None s = Ioctl (Suc k) H num None None s2"
      unfolding k by (rule Ioctl_grow [OF a1 b1 g])
    also have "\<dots> = (Inr (), s3)" by (rule Ioctl_done [OF a3])
    finally show ?thesis using b3 False by simp
  qed
qed

text \<open>A kernel that never stops asking for more keeps the loop running.\<close>

lemma Ioctl_stuck:
  assumes H: "refuses H num ENOMEM need" and need: "0 < need" "unat need \<le> max_alloc H"
    and b: "io_resp s = Some b" "buf_bytes b \<noteq> []"
  shows "\<exists>s'. Ioctl n H num None None s = (Inl OutOfFuel, s')"
  using b
proof (induction n arbitrary: s b)
  case (Suc n)
  let ?c = "set_dst (buf_addr b) (word_of_nat (length (buf_bytes b))) (io_cmd s)"
  obtain c' w' new where "sys_ioctl H num ?c None None (io_world s) = ((ENOMEM, c'\<lparr>Nvlist_dst_size := need\<rparr>, new), w')"
    using H [unfolded refuses_def, rule_format, of ?c "io_world s"] by blast
  then obtain s1 b1 where a1: "attempt H num None None s = (Inr ENOMEM, s1)" and b1: "io_resp s1 = Some b1"
      and "Nvlist_dst_size (io_cmd s1) = need"
    by (auto simp: attempt_resp [OF Suc.prems] issue_def Suc.prems(1))
  with grow_resp_eq [of s1 "unat need" H] need(2) obtain s2 a
    where g: "grow_resp H s1 = (Inr (), s2)" and b2: "io_resp s2 = Some \<lparr>buf_addr = a, buf_bytes = zero_bytes (unat need)\<rparr>"
    using unsigned_less [of need, where ?'a = nat] by auto
  have "buf_bytes \<lparr>buf_addr = a, buf_bytes = zero_bytes (unat need)\<rparr> \<noteq> []"
    using need(1) by (simp add: zero_bytes_def unat_gt_0)
  from Suc.IH [OF b2 this] show ?case using Ioctl_grow [OF a1 b1 g] by simp
qed simp

end
