(* ===== verification/Ioctl_States.thy ===== *)
theory Ioctl_States
  imports Go_Prelude
begin

text \<open>
  zfs/ioctl/util.go: the indices into the kernel's vdev_stat_t array, the state and aux numbers
  of vdevs and the state numbers of pools, and the names under which the exporter reports them.

  Shown here: for both kinds of state, whatever the kernel reports, exactly one of the gauges
  that the exporter emits for it is 1.
\<close>

section \<open>Constants\<close>

text \<open>Indices into the uint64 array \<open>vdev_stats\<close>.\<close>

definition VDevStats_vs_timestamp :: "int" where "VDevStats_vs_timestamp = 0"

definition VDevStats_vs_state :: "int" where "VDevStats_vs_state = 1"

definition VDevStats_vs_aux :: "int" where "VDevStats_vs_aux = 2"

definition VDevStats_vs_alloc :: "int" where "VDevStats_vs_alloc = 3"

definition VDevStats_vs_space :: "int" where "VDevStats_vs_space = 4"

definition VDevStats_vs_dspace :: "int" where "VDevStats_vs_dspace = 5"

definition VDevStats_vs_rsize :: "int" where "VDevStats_vs_rsize = 6"

definition VDevStats_vs_esize :: "int" where "VDevStats_vs_esize = 7"

definition VDevStats_vs_ops_null :: "int" where "VDevStats_vs_ops_null = 8"

definition VDevStats_vs_ops_read :: "int" where "VDevStats_vs_ops_read = 9"

definition VDevStats_vs_ops_write :: "int" where "VDevStats_vs_ops_write = 10"

definition VDevStats_vs_ops_free :: "int" where "VDevStats_vs_ops_free = 11"

definition VDevStats_vs_ops_claim :: "int" where "VDevStats_vs_ops_claim = 12"

definition VDevStats_vs_ops_flush :: "int" where "VDevStats_vs_ops_flush = 13"

definition VDevStats_vs_ops_trim :: "int" where "VDevStats_vs_ops_trim = 14"

definition VDevStats_vs_bytes_read :: "int" where "VDevStats_vs_bytes_read = 15"

definition VDevStats_vs_bytes_write :: "int" where "VDevStats_vs_bytes_write = 16"

definition VDevStats_vs_bytes_free :: "int" where "VDevStats_vs_bytes_free = 17"

definition VDevStats_vs_bytes_claim :: "int" where "VDevStats_vs_bytes_claim = 18"

definition VDevStats_vs_bytes_flush :: "int" where "VDevStats_vs_bytes_flush = 19"

definition VDevStats_vs_bytes_trim :: "int" where "VDevStats_vs_bytes_trim = 20"

definition VDevStats_vs_read_errors :: "int" where "VDevStats_vs_read_errors = 21"

definition VDevStats_vs_write_errors :: "int" where "VDevStats_vs_write_errors = 22"

definition VDevStats_vs_checksum_errors :: "int" where "VDevStats_vs_checksum_errors = 23"

definition VDevStats_vs_initialize_errors :: "int" where "VDevStats_vs_initialize_errors = 24"

definition VDevStats_vs_self_healed :: "int" where "VDevStats_vs_self_healed = 25"

definition VDevStats_vs_scan_removing :: "int" where "VDevStats_vs_scan_removing = 26"

definition VDevStats_vs_scan_processed :: "int" where "VDevStats_vs_scan_processed = 27"

definition VDevStats_vs_fragmentation :: "int" where "VDevStats_vs_fragmentation = 28"

definition VDevStats_vs_initialize_bytes_done :: "int" where "VDevStats_vs_initialize_bytes_done = 29"

definition VDevStats_vs_initialize_bytes_est :: "int" where "VDevStats_vs_initialize_bytes_est = 30"

definition VDevStats_vs_initialize_state :: "int" where "VDevStats_vs_initialize_state = 31"

definition VDevStats_vs_initialize_action_time :: "int" where "VDevStats_vs_initialize_action_time = 32"

definition VDevStats_vs_checkpoint_space :: "int" where "VDevStats_vs_checkpoint_space = 33"

definition VDevStats_vs_resilver_deferred :: "int" where "VDevStats_vs_resilver_deferred = 34"

definition VDevStats_vs_slow_ios :: "int" where "VDevStats_vs_slow_ios = 35"

definition VDevStats_vs_trim_errors :: "int" where "VDevStats_vs_trim_errors = 36"

definition VDevStats_vs_trim_notsup :: "int" where "VDevStats_vs_trim_notsup = 37"

definition VDevStats_vs_trim_bytes_done :: "int" where "VDevStats_vs_trim_bytes_done = 38"

definition VDevStats_vs_trim_bytes_est :: "int" where "VDevStats_vs_trim_bytes_est = 39"

definition VDevStats_vs_trim_state :: "int" where "VDevStats_vs_trim_state = 40"

definition VDevStats_vs_trim_action_time :: "int" where "VDevStats_vs_trim_action_time = 41"

definition VDevStats_vs_rebuild_processed :: "int" where "VDevStats_vs_rebuild_processed = 42"

definition VDevStats_vs_configured_ashift :: "int" where "VDevStats_vs_configured_ashift = 43"

definition VDevStats_vs_logical_ashift :: "int" where "VDevStats_vs_logical_ashift = 44"

definition VDevStats_vs_physical_ashift :: "int" where "VDevStats_vs_physical_ashift = 45"

definition VDevStats_vs_noalloc :: "int" where "VDevStats_vs_noalloc = 46"

definition VDevStats_vs_pspace :: "int" where "VDevStats_vs_pspace = 47"

definition VDevStats_vs_dio_verify_errors :: "int" where "VDevStats_vs_dio_verify_errors = 48"

lemmas vs_index_defs =
  VDevStats_vs_timestamp_def
  VDevStats_vs_state_def
  VDevStats_vs_aux_def
  VDevStats_vs_alloc_def
  VDevStats_vs_space_def
  VDevStats_vs_dspace_def
  VDevStats_vs_rsize_def
  VDevStats_vs_esize_def
  VDevStats_vs_ops_null_def
  VDevStats_vs_ops_read_def
  VDevStats_vs_ops_write_def
  VDevStats_vs_ops_free_def
  VDevStats_vs_ops_claim_def
  VDevStats_vs_ops_flush_def
  VDevStats_vs_ops_trim_def
  VDevStats_vs_bytes_read_def
  VDevStats_vs_bytes_write_def
  VDevStats_vs_bytes_free_def
  VDevStats_vs_bytes_claim_def
  VDevStats_vs_bytes_flush_def
  VDevStats_vs_bytes_trim_def
  VDevStats_vs_read_errors_def
  VDevStats_vs_write_errors_def
  VDevStats_vs_checksum_errors_def
  VDevStats_vs_initialize_errors_def
  VDevStats_vs_self_healed_def
  VDevStats_vs_scan_removing_def
  VDevStats_vs_scan_processed_def
  VDevStats_vs_fragmentation_def
  VDevStats_vs_initialize_bytes_done_def
  VDevStats_vs_initialize_bytes_est_def
  VDevStats_vs_initialize_state_def
  VDevStats_vs_initialize_action_time_def
  VDevStats_vs_checkpoint_space_def
  VDevStats_vs_resilver_deferred_def
  VDevStats_vs_slow_ios_def
  VDevStats_vs_trim_errors_def
  VDevStats_vs_trim_notsup_def
  VDevStats_vs_trim_bytes_done_def
  VDevStats_vs_trim_bytes_est_def
  VDevStats_vs_trim_state_def
  VDevStats_vs_trim_action_time_def
  VDevStats_vs_rebuild_processed_def
  VDevStats_vs_configured_ashift_def
  VDevStats_vs_logical_ashift_def
  VDevStats_vs_physical_ashift_def
  VDevStats_vs_noalloc_def
  VDevStats_vs_pspace_def
  VDevStats_vs_dio_verify_errors_def

text \<open>States and aux codes of vdevs, states of pools: compared with \<open>uint64\<close> values.\<close>

definition vdevState_UNKNOWN :: "64 word" where "vdevState_UNKNOWN = 0"

definition vdevState_CLOSED :: "64 word" where "vdevState_CLOSED = 1"

definition vdevState_OFFLINE :: "64 word" where "vdevState_OFFLINE = 2"

definition vdevState_REMOVED :: "64 word" where "vdevState_REMOVED = 3"

definition vdevState_CANT_OPEN :: "64 word" where "vdevState_CANT_OPEN = 4"

definition vdevState_FAULTED :: "64 word" where "vdevState_FAULTED = 5"

definition vdevState_DEGRADED :: "64 word" where "vdevState_DEGRADED = 6"

definition vdevState_HEALTHY :: "64 word" where "vdevState_HEALTHY = 7"

definition vdevState_ONLINE :: "64 word" where "vdevState_ONLINE = vdevState_HEALTHY"

definition vdevAux_NONE :: "64 word" where "vdevAux_NONE = 0"

definition vdevAux_OPEN_FAILED :: "64 word" where "vdevAux_OPEN_FAILED = 1"

definition vdevAux_CORRUPT_DATA :: "64 word" where "vdevAux_CORRUPT_DATA = 2"

definition vdevAux_NO_REPLICAS :: "64 word" where "vdevAux_NO_REPLICAS = 3"

definition vdevAux_BAD_GUID_SUM :: "64 word" where "vdevAux_BAD_GUID_SUM = 4"

definition vdevAux_TOO_SMALL :: "64 word" where "vdevAux_TOO_SMALL = 5"

definition vdevAux_BAD_LABEL :: "64 word" where "vdevAux_BAD_LABEL = 6"

definition vdevAux_VERSION_NEWER :: "64 word" where "vdevAux_VERSION_NEWER = 7"

definition vdevAux_VERSION_OLDER :: "64 word" where "vdevAux_VERSION_OLDER = 8"

definition vdevAux_UNSUP_FEAT :: "64 word" where "vdevAux_UNSUP_FEAT = 9"

definition vdevAux_SPARED :: "64 word" where "vdevAux_SPARED = 10"

definition vdevAux_ERR_EXCEEDED :: "64 word" where "vdevAux_ERR_EXCEEDED = 11"

definition vdevAux_IO_FAILURE :: "64 word" where "vdevAux_IO_FAILURE = 12"

definition vdevAux_BAD_LOG :: "64 word" where "vdevAux_BAD_LOG = 13"

definition vdevAux_EXTERNAL :: "64 word" where "vdevAux_EXTERNAL = 14"

definition vdevAux_SPLIT_POOL :: "64 word" where "vdevAux_SPLIT_POOL = 15"

definition vdevAux_BAD_ASHIFT :: "64 word" where "vdevAux_BAD_ASHIFT = 16"

definition vdevAux_EXTERNAL_PERSIST :: "64 word" where "vdevAux_EXTERNAL_PERSIST = 17"

definition vdevAux_ACTIVE :: "64 word" where "vdevAux_ACTIVE = 18"

definition vdevAux_CHILDREN_OFFLINE :: "64 word" where "vdevAux_CHILDREN_OFFLINE = 19"

definition vdevAux_ASHIFT_TOO_BIG :: "64 word" where "vdevAux_ASHIFT_TOO_BIG = 20"

definition poolState_ACTIVE :: "64 word" where "poolState_ACTIVE = 0"

definition poolState_EXPORTED :: "64 word" where "poolState_EXPORTED = 1"

definition poolState_DESTROYED :: "64 word" where "poolState_DESTROYED = 2"

definition poolState_SPARE :: "64 word" where "poolState_SPARE = 3"

definition poolState_L2CACHE :: "64 word" where "poolState_L2CACHE = 4"

definition poolState_UNINITIALIZED :: "64 word" where "poolState_UNINITIALIZED = 5"

definition poolState_UNAVAIL :: "64 word" where "poolState_UNAVAIL = 6"

definition poolState_POTENTIALLY_ACTIVE :: "64 word" where "poolState_POTENTIALLY_ACTIVE = 7"

lemmas vdev_state_defs =
  vdevState_UNKNOWN_def
  vdevState_CLOSED_def
  vdevState_OFFLINE_def
  vdevState_REMOVED_def
  vdevState_CANT_OPEN_def
  vdevState_FAULTED_def
  vdevState_DEGRADED_def
  vdevState_HEALTHY_def

lemmas pool_state_defs =
  poolState_ACTIVE_def
  poolState_EXPORTED_def
  poolState_DESTROYED_def
  poolState_SPARE_def
  poolState_L2CACHE_def
  poolState_UNINITIALIZED_def
  poolState_UNAVAIL_def
  poolState_POTENTIALLY_ACTIVE_def

section \<open>Names\<close>

definition PoolStates :: "string list" where
  "PoolStates =
     [''ACTIVE'', ''EXPORTED'', ''DESTROYED'', ''SPARE'', ''L2CACHE'', ''UNINITIALIZED'', ''UNAVAIL'',
      ''POTENTIALLY_ACTIVE'', ''UNKNOWN'']"

definition VDevStates :: "string list" where
  "VDevStates =
     [''OFFLINE'', ''REMOVED'', ''FAULTED'', ''SPLIT'', ''UNAVAIL'', ''DEGRADED'', ''ONLINE'', ''UNKNOWN'']"

definition PoolStateString :: "64 word \<Rightarrow> string" where
  "PoolStateString state =
     (if state = poolState_ACTIVE then ''ACTIVE''
      else if state = poolState_EXPORTED then ''EXPORTED''
      else if state = poolState_DESTROYED then ''DESTROYED''
      else if state = poolState_SPARE then ''SPARE''
      else if state = poolState_L2CACHE then ''L2CACHE''
      else if state = poolState_UNINITIALIZED then ''UNINITIALIZED''
      else if state = poolState_UNAVAIL then ''UNAVAIL''
      else if state = poolState_POTENTIALLY_ACTIVE then ''POTENTIALLY_ACTIVE''
      else ''UNKNOWN'')"

text \<open>
  A Go \<open>case\<close> does not fall through: the empty \<open>case vdevState_CLOSED\<close> leaves the
  switch, and the function returns \<open>UNKNOWN\<close>.
\<close>

definition VDevStateString :: "64 word \<Rightarrow> 64 word \<Rightarrow> string" where
  "VDevStateString state aux =
     (if state = vdevState_CLOSED then ''UNKNOWN''
      else if state = vdevState_OFFLINE then ''OFFLINE''
      else if state = vdevState_REMOVED then ''REMOVED''
      else if state = vdevState_CANT_OPEN then
        (if aux = vdevAux_CORRUPT_DATA \<or> aux = vdevAux_BAD_LOG then ''FAULTED''
         else if aux = vdevAux_SPLIT_POOL then ''SPLIT''
         else ''UNAVAIL'')
      else if state = vdevState_FAULTED then ''FAULTED''
      else if state = vdevState_DEGRADED then ''DEGRADED''
      else if state = vdevState_HEALTHY then ''ONLINE''
      else ''UNKNOWN'')"

section \<open>One gauge per state\<close>

text \<open>
  The exporter emits, for each name in a list, a gauge that is 1 when the name is the current
  one and 0 otherwise. The interface between the name functions and that loop: the names are
  distinct, and the function only returns names of the list.
\<close>

lemma filter_current: "distinct names \<Longrightarrow> current \<in> set names \<Longrightarrow> filter (\<lambda>n. n = current) names = [current]"
  by (induction names) (auto simp: filter_empty_conv)

locale state_labels =
  fixes names :: "string list"
    and name_of :: "'s \<Rightarrow> string"
  assumes distinct_names: "distinct names"
    and name_listed: "name_of s \<in> set names"
begin

lemma one_current: "filter (\<lambda>n. n = name_of s) names = [name_of s]"
  using distinct_names name_listed by (rule filter_current)

text \<open>The gauges with the value \<open>on\<close> are the one of the current name, and no other.\<close>

lemma one_hot:
  assumes "on \<noteq> off"
  shows "filter (\<lambda>(n, v). v = on) (map (\<lambda>n. (n, if n = name_of s then on else off)) names) = [(name_of s, on)]"
proof -
  have "filter (\<lambda>(n, v). v = on) (map (\<lambda>n. (n, if n = name_of s then on else off)) ns) =
      map (\<lambda>n. (n, on)) (filter (\<lambda>n. n = name_of s) ns)" for ns
    using assms by (induction ns) auto
  then show ?thesis by (simp add: one_current)
qed

end

lemma distinct_states: "distinct PoolStates" "distinct VDevStates"
  by (simp_all add: PoolStates_def VDevStates_def)

lemma PoolStateString_listed: "PoolStateString s \<in> set PoolStates"
  by (simp add: PoolStateString_def PoolStates_def)

lemma VDevStateString_listed: "VDevStateString s aux \<in> set VDevStates"
  by (simp add: VDevStateString_def VDevStates_def)

interpretation pool_labels: state_labels PoolStates PoolStateString
  by unfold_locales (simp_all add: PoolStateString_listed distinct_states)

interpretation vdev_state_labels: state_labels VDevStates "\<lambda>(state, aux). VDevStateString state aux"
  by unfold_locales (simp_all add: VDevStateString_listed distinct_states split: prod.split)

end
