(* ===== verification/Go_Float.thy ===== *)
theory Go_Float
  imports Complex_Main Go_Prelude
begin

text \<open>
  Go's \<open>float64\<close>, as far as the exporter uses it: the conversion of a \<open>uint64\<close> and the
  division of such a value by 100, both rounded to the nearest value with 53 significant bits,
  ties to even. The values stay between 1/100 and \<open>2 ^ 64\<close>, so that neither infinities nor
  subnormal numbers occur and a float is a significand and a binary exponent.

  Shown here: the error of rounding is at most \<open>2 ^ -53\<close> of the value, and an integer up to
  \<open>2 ^ 53\<close> is converted exactly.
\<close>

section \<open>Values\<close>

datatype float64 = F64 (significand: nat) (expo: int)

definition float_val :: "float64 \<Rightarrow> real" where
  "float_val x = real (significand x) * 2 powi expo x"

section \<open>Rounding\<close>

fun bit_length :: "nat \<Rightarrow> nat" where
  "bit_length n = (if n = 0 then 0 else Suc (bit_length (n div 2)))"

declare bit_length.simps [simp del]

definition round_div :: "nat \<Rightarrow> nat \<Rightarrow> nat" where
  "round_div n d =
     (let q = n div d; r = n mod d
      in if 2 * r < d \<or> (2 * r = d \<and> even q) then q else q + 1)"

text \<open>\<open>n / d\<close> in units of \<open>2 ^ e\<close>, rounded.\<close>

definition in_units :: "nat \<Rightarrow> nat \<Rightarrow> int \<Rightarrow> nat" where
  "in_units n d e = (if e < 0 then round_div (n * 2 ^ nat (- e)) d else round_div n (d * 2 ^ nat e))"

text \<open>The unit in which \<open>n / d\<close> has 53 bits.\<close>

definition unit_of :: "nat \<Rightarrow> nat \<Rightarrow> int" where
  "unit_of n d =
     (let e = int (bit_length n) - int (bit_length d) - 53
      in if (if e < 0 then n * 2 ^ nat (- e) \<ge> d * 2 ^ 53 else n \<ge> d * 2 ^ nat e * 2 ^ 53)
         then e + 1 else e)"

definition round_ratio :: "nat \<Rightarrow> nat \<Rightarrow> float64" where
  "round_ratio n d = (if n = 0 then F64 0 0 else F64 (in_units n d (unit_of n d)) (unit_of n d))"

definition float64_of :: "64 word \<Rightarrow> float64" where
  "float64_of v = round_ratio (unat v) 1"

text \<open>\<open>x / 100\<close>.\<close>

definition div_100 :: "float64 \<Rightarrow> float64" where
  "div_100 x =
     (if expo x < 0 then round_ratio (significand x) (100 * 2 ^ nat (- expo x))
      else round_ratio (significand x * 2 ^ nat (expo x)) 100)"

section \<open>Error bounds\<close>

lemma bit_length_bounds:
  "0 < n \<Longrightarrow> 2 ^ (bit_length n - 1) \<le> n \<and> n < 2 ^ bit_length n \<and> 0 < bit_length n"
proof (induction n rule: bit_length.induct)
  case (1 n)
  show ?case
  proof (cases "n div 2 = 0")
    case True
    with 1 have "n = 1" by simp
    then show ?thesis by (simp add: bit_length.simps)
  next
    case False
    with 1 have ih: "2 ^ (bit_length (n div 2) - 1) \<le> n div 2" "n div 2 < 2 ^ bit_length (n div 2)"
      "0 < bit_length (n div 2)" by auto
    have b: "bit_length n = Suc (bit_length (n div 2))" using 1 by (subst bit_length.simps) simp
    obtain k where k: "bit_length (n div 2) = Suc k" using ih(3) by (cases "bit_length (n div 2)") auto
    define q where "q = (2::nat) ^ k"
    from ih have "q \<le> n div 2" and "n div 2 < 2 * q" by (simp_all add: k q_def)
    then have "2 * q \<le> n" and "n < 4 * q" by linarith+
    then show ?thesis by (simp add: b k q_def)
  qed
qed

lemma round_div_error:
  assumes "0 < d"
  shows "\<bar>real (round_div n d) - real n / real d\<bar> \<le> 1 / 2"
proof -
  have n: "real n = real (n div d) * real d + real (n mod d)"
    by (metis div_mult_mod_eq of_nat_add of_nat_mult)
  have lt: "n mod d < d" using assms by simp
  have eq: "real n / real d = real (n div d) + real (n mod d) / real d"
    using assms by (subst n) (simp add: field_simps)
  show ?thesis
  proof (cases "round_div n d = n div d")
    case True
    then have "2 * (n mod d) \<le> d" by (auto simp: round_div_def Let_def split: if_splits)
    then have "2 * real (n mod d) \<le> real d" by linarith
    then have "real (n mod d) / real d \<le> 1 / 2" using assms by (simp add: field_simps)
    then show ?thesis by (simp add: eq True)
  next
    case False
    then have r: "round_div n d = n div d + 1" and "d \<le> 2 * (n mod d)"
      by (auto simp: round_div_def Let_def split: if_splits)
    then have "real d \<le> 2 * real (n mod d)" by linarith
    then have "1 / 2 \<le> real (n mod d) / real d" using assms by (simp add: field_simps)
    moreover have "real (n mod d) / real d < 1" using assms lt by simp
    ultimately show ?thesis by (simp add: eq r)
  qed
qed

lemma powi_neg_nat: "e < 0 \<Longrightarrow> (2 :: real) powi e = 1 / 2 ^ nat (- e)"
  by (simp add: power_int_def field_simps)

lemma powi_nat: "0 \<le> e \<Longrightarrow> (2 :: real) powi e = 2 ^ nat e"
  by (simp add: power_int_def)

lemma in_units_error:
  assumes "0 < d"
  shows "\<bar>real (in_units n d e) * 2 powi e - real n / real d\<bar> \<le> 2 powi e / 2"
proof -
  let ?x = "real n / real d / 2 powi e"
  have "\<bar>real (in_units n d e) - ?x\<bar> \<le> 1 / 2"
  proof (cases "e < 0")
    case True
    with round_div_error [OF assms, of "n * 2 ^ nat (- e)"] show ?thesis
      by (simp add: in_units_def powi_neg_nat)
  next
    case False
    with round_div_error [of "d * 2 ^ nat e" n] assms show ?thesis
      by (simp add: in_units_def powi_nat)
  qed
  moreover have "real (in_units n d e) * 2 powi e - real n / real d = (real (in_units n d e) - ?x) * 2 powi e"
    by (simp add: field_simps)
  ultimately show ?thesis by (simp add: abs_mult)
qed

lemma unit_of_lower:
  assumes n: "0 < n" and d: "0 < d"
  shows "2 ^ 52 * 2 powi unit_of n d \<le> real n / real d"
proof -
  define e where "e = int (bit_length n) - int (bit_length d) - 53"
  define top where "top \<longleftrightarrow> (if e < 0 then n * 2 ^ nat (- e) \<ge> d * 2 ^ 53 else n \<ge> d * 2 ^ nat e * 2 ^ 53)"
  have unit: "unit_of n d = (if top then e + 1 else e)"
    by (simp add: unit_of_def e_def top_def Let_def)
  show ?thesis
  proof (cases top)
    case True
    have "2 ^ 53 * 2 powi e \<le> real n / real d"
    proof (cases "e < 0")
      case True
      with \<open>top\<close> have "d * 2 ^ 53 \<le> n * 2 ^ nat (- e)" by (simp add: top_def)
      then have "real (d * 2 ^ 53) \<le> real (n * 2 ^ nat (- e))" by (rule of_nat_mono)
      then show ?thesis using d True by (simp add: powi_neg_nat field_simps)
    next
      case False
      with \<open>top\<close> have "d * 2 ^ nat e * 2 ^ 53 \<le> n" by (simp add: top_def)
      then have "real (d * 2 ^ nat e * 2 ^ 53) \<le> real n" by (rule of_nat_mono)
      then show ?thesis using d False by (simp add: powi_nat field_simps)
    qed
    moreover have "(2::real) powi (e + 1) = 2 * 2 powi e" by (simp add: power_int_add)
    ultimately show ?thesis using True by (simp add: unit)
  next
    case False
    let ?bn = "bit_length n" and ?bd = "bit_length d"
    have bn: "2 ^ (?bn - 1) \<le> n" "0 < ?bn" and bd: "d < 2 ^ ?bd"
      using bit_length_bounds [OF n] bit_length_bounds [OF d] by auto
    have "real (2 ^ (?bn - 1)) \<le> real n" by (rule of_nat_mono [OF bn(1)])
    moreover have "real d \<le> real (2 ^ ?bd)" using bd by (intro of_nat_mono) simp
    ultimately have "2 ^ (?bn - 1) / 2 ^ ?bd \<le> real n / real d"
      using d by (intro frac_le) auto
    moreover have "(2::real) ^ (?bn - 1) / 2 ^ ?bd = 2 ^ 52 * 2 powi e"
    proof -
      have "2 ^ 52 * (2::real) powi e = 2 powi (52 + e)" by (simp add: power_int_add)
      also have "52 + e = int (?bn - 1) - int ?bd" using bn(2) by (simp add: e_def)
      also have "(2::real) powi \<dots> = 2 ^ (?bn - 1) / 2 ^ ?bd" by (simp add: power_int_diff)
      finally show ?thesis by simp
    qed
    ultimately show ?thesis using False by (simp add: unit)
  qed
qed

text \<open>Rounding errs by at most \<open>2 ^ -53\<close> of the value.\<close>

lemma round_ratio_error:
  assumes "0 < d"
  shows "\<bar>float_val (round_ratio n d) - real n / real d\<bar> \<le> real n / real d / 2 ^ 53"
proof (cases "n = 0")
  case True
  then show ?thesis by (simp add: round_ratio_def float_val_def)
next
  case False
  then have "\<bar>float_val (round_ratio n d) - real n / real d\<bar> \<le> 2 powi unit_of n d / 2"
    using in_units_error [OF assms, of n "unit_of n d"] by (simp add: round_ratio_def float_val_def)
  also have "\<dots> \<le> real n / real d / 2 ^ 53"
    using unit_of_lower [of n d] False assms by (simp add: field_simps)
  finally show ?thesis .
qed

lemma bit_length_le: "n < 2 ^ k \<Longrightarrow> bit_length n \<le> k"
proof (cases "n = 0")
  case False
  assume "n < 2 ^ k"
  with bit_length_bounds [of n] False have "(2::nat) ^ (bit_length n - 1) < 2 ^ k"
    by (meson le_less_trans not_gr_zero)
  then have "bit_length n - 1 < k" by simp
  then show ?thesis by simp
qed (simp add: bit_length.simps)

lemma round_ratio_exact:
  assumes "n < 2 ^ 53"
  shows "float_val (round_ratio n 1) = real n"
proof (cases "n = 0")
  case True
  then show ?thesis by (simp add: round_ratio_def float_val_def)
next
  case False
  have one: "bit_length 1 = 1" by (simp add: bit_length.simps)
  have "unit_of n 1 \<le> 0" using bit_length_le [OF assms] one by (simp add: unit_of_def Let_def)
  moreover have "round_div m 1 = m" for m by (simp add: round_div_def)
  ultimately have "in_units n 1 (unit_of n 1) = n * 2 ^ nat (- unit_of n 1)"
    by (cases "unit_of n 1 = 0") (simp_all add: in_units_def)
  moreover have "real (2 ^ nat (- u)) * 2 powi u = 1" if "u \<le> 0" for u :: int
    using that by (cases "u = 0") (simp_all add: powi_neg_nat)
  ultimately show ?thesis using False \<open>unit_of n 1 \<le> 0\<close>
    by (simp add: round_ratio_def float_val_def mult.assoc)
qed

lemma float64_of_exact: "unat v < 2 ^ 53 \<Longrightarrow> float_val (float64_of v) = real (unat v)"
  using round_ratio_exact [of "unat v"] by (simp only: float64_of_def)

lemma float64_of_error: "\<bar>float_val (float64_of v) - real (unat v)\<bar> \<le> real (unat v) / 2 ^ 53"
  using round_ratio_error [of 1 "unat v"] by (simp add: float64_of_def)

lemma div_100_error: "\<bar>float_val (div_100 x) - float_val x / 100\<bar> \<le> float_val x / 100 / 2 ^ 53"
proof (cases "expo x < 0")
  case True
  with round_ratio_error [of "100 * 2 ^ nat (- expo x)" "significand x"] show ?thesis
    by (simp add: div_100_def float_val_def powi_neg_nat field_simps)
next
  case False
  with round_ratio_error [of 100 "significand x * 2 ^ nat (expo x)"] show ?thesis
    by (simp add: div_100_def float_val_def powi_nat field_simps)
qed

section \<open>Correct rounding\<close>

text \<open>
  The reference notion: \<open>x\<close> is rounded to a value of the format that no other value of the format
  is nearer to, and when another one is as near, to one with an even significand.
\<close>

definition representable :: "real \<Rightarrow> bool" where
  "representable y \<longleftrightarrow> (\<exists>m e. m < (2 :: nat) ^ 53 \<and> y = real m * 2 powi e)"

definition nearest_even :: "float64 \<Rightarrow> real \<Rightarrow> bool" where
  "nearest_even f x \<longleftrightarrow> representable (float_val f) \<and>
     (\<forall>y. representable y \<longrightarrow> \<bar>float_val f - x\<bar> \<le> \<bar>y - x\<bar> \<and>
        (\<bar>y - x\<bar> = \<bar>float_val f - x\<bar> \<longrightarrow> y = float_val f \<or> even (significand f)))"

lemma round_div_nearest:
  fixes k :: int
  assumes "0 < d"
  shows "\<bar>real (round_div n d) - real n / real d\<bar> \<le> \<bar>real_of_int k - real n / real d\<bar>"
    and "\<bar>real_of_int k - real n / real d\<bar> = \<bar>real (round_div n d) - real n / real d\<bar> \<Longrightarrow>
      k = int (round_div n d) \<or> even (round_div n d)"
proof -
  define q f where "q = n div d" and "f = real (n mod d) / real d"
  have n: "real n = real q * real d + real (n mod d)"
    unfolding q_def by (metis div_mult_mod_eq of_nat_add of_nat_mult)
  have x: "real n / real d = real q + f" using assms by (subst n) (simp add: f_def field_simps)
  have f: "0 \<le> f" "f < 1" using assms by (simp_all add: f_def)
  have half: "2 * (n mod d) < d \<longleftrightarrow> f < 1 / 2" "2 * (n mod d) = d \<longleftrightarrow> f = 1 / 2"
  proof -
    have "2 * (n mod d) < d \<longleftrightarrow> 2 * real (n mod d) < real d" by linarith
    also have "\<dots> \<longleftrightarrow> f < 1 / 2" using assms by (simp add: f_def field_simps)
    finally show "2 * (n mod d) < d \<longleftrightarrow> f < 1 / 2" .
    have "2 * (n mod d) = d \<longleftrightarrow> 2 * real (n mod d) = real d" by linarith
    also have "\<dots> \<longleftrightarrow> f = 1 / 2" using assms by (auto simp: f_def field_simps)
    finally show "2 * (n mod d) = d \<longleftrightarrow> f = 1 / 2" .
  qed
  have r: "round_div n d = (if f < 1 / 2 \<or> (f = 1 / 2 \<and> even q) then q else q + 1)"
    by (simp only: round_div_def Let_def half q_def)
  have k: "k \<le> int q \<or> int q + 1 \<le> k" by linarith
  then have rk: "real_of_int k \<le> real q \<or> real q + 1 \<le> real_of_int k" by linarith
  show "\<bar>real (round_div n d) - real n / real d\<bar> \<le> \<bar>real_of_int k - real n / real d\<bar>"
    unfolding x r using rk f by (cases "f < 1 / 2 \<or> (f = 1 / 2 \<and> even q)") auto
  assume "\<bar>real_of_int k - real n / real d\<bar> = \<bar>real (round_div n d) - real n / real d\<bar>"
  then have eq: "\<bar>real_of_int k - (real q + f)\<bar> = \<bar>real (round_div n d) - (real q + f)\<bar>" by (simp only: x)
  show "k = int (round_div n d) \<or> even (round_div n d)"
  proof (cases "f = 1 / 2")
    case True
    then show ?thesis by (simp add: r)
  next
    case False
    then have "real_of_int k = real (round_div n d)"
      using eq rk f unfolding r by (cases "f < 1 / 2") auto
    then have "k = int (round_div n d)" by linarith
    then show ?thesis ..
  qed
qed

lemma in_units_ratio:
  assumes "0 < d"
  obtains n' d' where "0 < d'" and "in_units n d e = round_div n' d'"
    and "real n' / real d' = real n / real d / 2 powi e"
proof (cases "e < 0")
  case True
  then show thesis
    by (intro that [of d "n * 2 ^ nat (- e)"]) (simp_all add: assms in_units_def powi_neg_nat)
next
  case False
  then show thesis
    by (intro that [of "d * 2 ^ nat e" n]) (simp_all add: assms in_units_def powi_nat)
qed

lemma unit_of_upper:
  assumes n: "0 < n" and d: "0 < d"
  shows "real n / real d < 2 ^ 53 * 2 powi unit_of n d"
proof -
  define e where "e = int (bit_length n) - int (bit_length d) - 53"
  define top where "top \<longleftrightarrow> (if e < 0 then n * 2 ^ nat (- e) \<ge> d * 2 ^ 53 else n \<ge> d * 2 ^ nat e * 2 ^ 53)"
  have unit: "unit_of n d = (if top then e + 1 else e)"
    by (simp add: unit_of_def e_def top_def Let_def)
  show ?thesis
  proof (cases top)
    case False
    have "real n / real d < 2 ^ 53 * 2 powi e"
    proof (cases "e < 0")
      case True
      with \<open>\<not> top\<close> have "n * 2 ^ nat (- e) < d * 2 ^ 53" by (simp add: top_def)
      then have "real (n * 2 ^ nat (- e)) < real (d * 2 ^ 53)" by (rule of_nat_less_iff [THEN iffD2])
      then show ?thesis using d True by (simp add: powi_neg_nat field_simps)
    next
      case False
      with \<open>\<not> top\<close> have "n < d * 2 ^ nat e * 2 ^ 53" by (simp add: top_def)
      then have "real n < real (d * 2 ^ nat e * 2 ^ 53)" by (rule of_nat_less_iff [THEN iffD2])
      then show ?thesis using d False by (simp add: powi_nat field_simps)
    qed
    with False show ?thesis by (simp add: unit)
  next
    case True
    let ?bn = "bit_length n" and ?bd = "bit_length d"
    have bn: "n < 2 ^ ?bn" and bd: "2 ^ (?bd - 1) \<le> d" "0 < ?bd"
      using bit_length_bounds [OF n] bit_length_bounds [OF d] by auto
    have "real n < real (2 ^ ?bn)" using bn by (rule of_nat_less_iff [THEN iffD2])
    moreover have "real (2 ^ (?bd - 1)) \<le> real d" by (rule of_nat_mono [OF bd(1)])
    ultimately have "real n / real d < 2 ^ ?bn / 2 ^ (?bd - 1)"
      using d by (intro frac_less) auto
    also have "\<dots> = 2 ^ 53 * (2::real) powi (e + 1)"
    proof -
      have "2 ^ 53 * (2::real) powi (e + 1) = 2 powi (53 + (e + 1))" by (subst power_int_add) simp_all
      also have "53 + (e + 1) = int ?bn - int (?bd - 1)" using bd(2) by (simp add: e_def)
      also have "(2::real) powi \<dots> = 2 ^ ?bn / 2 ^ (?bd - 1)" by (simp add: power_int_diff)
      finally show ?thesis by simp
    qed
    finally show ?thesis using True by (simp add: unit)
  qed
qed

text \<open>A value of the format, in units of \<open>2 ^ u\<close>: an integer, or below \<open>2 ^ 52\<close>.\<close>

lemma representable_units:
  assumes "representable y"
  obtains k :: nat where "y = real k * 2 powi u" | "y < 2 ^ 52 * 2 powi u"
proof -
  from assms obtain m e where m: "m < (2 :: nat) ^ 53" and y: "y = real m * 2 powi e"
    by (auto simp: representable_def)
  show thesis
  proof (cases "u \<le> e")
    case True
    then have "(2 :: real) powi e = 2 ^ nat (e - u) * 2 powi u"
      by (metis add_diff_cancel_left' diff_add_cancel le_add_diff_inverse nat_0_le power_int_add
          power_int_of_nat zero_neq_numeral diff_ge_0_iff_ge)
    then show thesis by (intro that(1) [of "m * 2 ^ nat (e - u)"]) (simp add: y)
  next
    case False
    have "real m < 2 ^ 53" using m by (metis of_nat_less_iff of_nat_numeral of_nat_power)
    then have "y < 2 ^ 53 * 2 powi e" by (simp add: y)
    also have "\<dots> \<le> 2 ^ 53 * 2 powi (u - 1)"
      using False by (intro mult_left_mono power_int_increasing) auto
    also have "\<dots> = 2 ^ 52 * 2 powi u" by (simp add: power_int_diff)
    finally show thesis by (rule that(2))
  qed
qed

lemma nearest_round_ratio:
  assumes d: "0 < d"
  shows "nearest_even (round_ratio n d) (real n / real d)"
proof (cases "n = 0")
  case True
  have "representable 0" by (auto simp: representable_def intro: exI [of _ 0])
  with True show ?thesis by (simp add: nearest_even_def round_ratio_def float_val_def)
next
  case False
  then have n: "0 < n" by simp
  define u x where "u = unit_of n d" and "x = real n / real d / 2 powi u"
  obtain n' d' where d': "0 < d'" and unit: "in_units n d u = round_div n' d'" and "real n' / real d' = x"
    using in_units_ratio [OF d, of n u] unfolding x_def by blast
  note near = round_div_nearest [OF d', where n = n', unfolded this(3)]
  define q where "q = round_div n' d'"
  have val: "round_ratio n d = F64 q u" using False by (simp add: round_ratio_def u_def [symmetric] unit q_def)
  have pos: "(0 :: real) < 2 powi u" by simp
  have x: "2 ^ 52 \<le> x" "x < 2 ^ 53"
    using unit_of_lower [OF n d] unit_of_upper [OF n d] pos unfolding x_def u_def
    by (simp_all only: pos_le_divide_eq pos_divide_less_eq zero_less_power_int)
  have scale: "\<bar>y * 2 powi u - real n / real d\<bar> = \<bar>y - x\<bar> * 2 powi u" for y
  proof -
    have "real n / real d = x * 2 powi u" by (simp add: x_def)
    then have "y * 2 powi u - real n / real d = (y - x) * 2 powi u" by (simp add: left_diff_distrib)
    then show ?thesis by (simp add: abs_mult)
  qed
  have "\<bar>real q - x\<bar> \<le> \<bar>2 ^ 53 - x\<bar>" using near(1) [where k = "2 ^ 53"] by (simp add: q_def)
  then have "real q \<le> 2 ^ 53" using x(2) by (auto simp: abs_le_iff)
  then have "q \<le> 2 ^ 53" by (metis of_nat_le_iff of_nat_numeral of_nat_power)
  have rep: "representable (real q * 2 powi u)"
  proof (cases "q = 2 ^ 53")
    case True
    then have "real q * 2 powi u = real (2 ^ 52) * 2 powi (u + 1)" by (simp add: power_int_add)
    moreover have "(2 :: nat) ^ 52 < 2 ^ 53" by simp
    ultimately show ?thesis unfolding representable_def by blast
  next
    case False
    with \<open>q \<le> 2 ^ 53\<close> have "q < 2 ^ 53" by (rule le_neq_implies_less)
    then show ?thesis unfolding representable_def by blast
  qed
  have "\<bar>real q * 2 powi u - real n / real d\<bar> \<le> \<bar>y - real n / real d\<bar> \<and>
      (\<bar>y - real n / real d\<bar> = \<bar>real q * 2 powi u - real n / real d\<bar> \<longrightarrow> y = real q * 2 powi u \<or> even q)"
    if y: "representable y" for y
    using y
  proof (cases rule: representable_units [where u = u])
    case (1 k)
    then show ?thesis using near(1) [where k = "int k"] near(2) [where k = "int k"] pos
      by (simp add: scale q_def)
  next
    case 2
    define z where "z = y / 2 powi u"
    have yz: "y = z * 2 powi u" by (simp add: z_def)
    have "z < 2 ^ 52" using 2 pos by (simp add: z_def field_simps)
    moreover have "\<bar>real q - x\<bar> \<le> \<bar>2 ^ 52 - x\<bar>" using near(1) [where k = "2 ^ 52"] by (simp add: q_def)
    ultimately have "\<bar>real q - x\<bar> < \<bar>z - x\<bar>" using x(1) by linarith
    then show ?thesis using pos by (simp add: yz scale)
  qed
  with rep show ?thesis by (simp add: nearest_even_def val float_val_def)
qed

lemma nearest_float64_of: "nearest_even (float64_of v) (real (unat v))"
  using nearest_round_ratio [of 1 "unat v"] by (simp add: float64_of_def)

lemma nearest_div_100: "nearest_even (div_100 x) (float_val x / 100)"
proof (cases "expo x < 0")
  case True
  with nearest_round_ratio [of "100 * 2 ^ nat (- expo x)" "significand x"] show ?thesis
    by (simp add: div_100_def float_val_def powi_neg_nat field_simps)
next
  case False
  with nearest_round_ratio [of 100 "significand x * 2 ^ nat (expo x)"] show ?thesis
    by (simp add: div_100_def float_val_def powi_nat field_simps)
qed

text \<open>The constants \<open>0.0\<close> and \<open>1.0\<close>.\<close>

definition float_0 :: float64 where "float_0 = F64 0 0"

definition float_1 :: float64 where "float_1 = F64 (2 ^ 52) (- 52)"

lemma float_0_1: "float_val float_0 = 0" "float_val float_1 = 1" "float_1 \<noteq> float_0" "float_0 \<noteq> float_1"
  by (simp_all add: float_0_def float_1_def float_val_def powi_neg_nat)

end
