(* ===== verification/Host_Properties.thy ===== *)
theory Host_Properties
  imports KStat_Table Ioctl_Call Ioctl_States Go_Float
begin

text \<open>
  The properties of the exporter's interface to the system: numbers in text, the kstat reader,
  the ioctl command block and its retry loop, the state names, and the conversion to floats.
\<close>

section \<open>Numbers in text\<close>

lemma ParseUint_Inl: "ParseUint s b = Inl e \<Longrightarrow> e = ErrSyntax \<or> e = ErrRange"
proof -
  have "ParseUint_loop m s n = Inl e \<Longrightarrow> e = ErrSyntax \<or> e = ErrRange" for m n
    by (induction s arbitrary: n) (auto split: if_splits)
  then show "ParseUint s b = Inl e \<Longrightarrow> e = ErrSyntax \<or> e = ErrRange" by (auto simp: ParseUint_def split: if_splits)
qed

text \<open>
  The data of a row as a number: \<open>RowDataAsUInt64\<close> returns the value of the data when they are a
  nonempty string of decimal digits whose value is below \<open>2 ^ 64\<close>, and for all other data the
  error of \<open>strconv\<close>, of syntax or of range, wrapped; it never returns a number together with an error.
\<close>

theorem RowDataAsUInt64_exact:
  "if RowData r \<noteq> [] \<and> list_all is_digit (RowData r) \<and> decimal_value (RowData r) < 2 ^ 64
   then \<exists>w. RowDataAsUInt64 r = Inr w \<and> unat w = decimal_value (RowData r)
   else \<exists>e. RowDataAsUInt64 r = Inl (Err (Wrapf ''error parsing row data as uint64: %w'' e)) \<and> e \<in> {ErrSyntax, ErrRange}"
proof (cases "ParseUint (RowData r) 64")
  case (Inl e)
  with ParseUint_Inl [OF Inl] ParseUint_Inr [of 64 "RowData r" "decimal_value (RowData r)"]
  show ?thesis by (auto simp: RowDataAsUInt64_def)
next
  case (Inr k)
  then have k: "RowData r \<noteq> []" "list_all is_digit (RowData r)" "k = decimal_value (RowData r)" "k < 2 ^ 64"
    by (simp_all add: ParseUint_Inr)
  have "unat (word_of_nat k :: 64 word) = k" using k(4) by (simp add: unat_of_nat take_bit_eq_mod)
  with Inr k show ?thesis by (simp add: RowDataAsUInt64_def)
qed

section \<open>Kstats\<close>

text \<open>
  C24. The kstat reader on any text: it always returns and never panics; every row consumes
  text; and it reports \<open>io.EOF\<close> only when it stands at the end of the text, so that a loop
  that takes \<open>io.EOF\<close> for the regular end never takes a truncated row for it.
\<close>

theorem kstat_Next_contract:
  "returns (fst (kstat_Next r)) \<and>
   (\<forall>s r'. kstat_Next r = (Inr s, r') \<longrightarrow>
      kData r' = kData r \<and> kpos r < kpos r' \<and> kpos r' \<le> length (kData r)) \<and>
   (\<forall>r'. kstat_Next r = (Inl (Err EOF), r') \<longrightarrow> kData r' = kData r \<and> kpos r' = length (kData r))"
proof (intro conjI allI impI)
  show "returns (fst (kstat_Next r))" by (rule totalD [OF total_kstat_Next])
next
  fix s r' assume run: "kstat_Next r = (Inr s, r')"
  show "kData r' = kData r" and "kpos r < kpos r'" and "kpos r' \<le> length (kData r)"
    using kstat_Next_Inr [OF run] by blast+
next
  fix r' assume run: "kstat_Next r = (Inl (Err EOF), r')"
  show "kData r' = kData r" using kstat_Next_EOF(2) [OF run] by (simp add: text_advances_def)
  then show "kpos r' = length (kData r)" using kstat_Next_EOF(1) [OF run] by simp
qed

definition sample_kstat_header :: kstat_header where
  "sample_kstat_header = \<lparr>hdr_kid = ''33'', hdr_type = ''1'', hdr_middle = (''0x01'', ''7'', ''2160'', ''5214787''),
     hdr_snaptime = ''994857''\<rparr>"

definition sample_kstat_rows :: "kstat_row list" where
  "sample_kstat_rows =
    [\<lparr>row_name = ''dataset_name'', row_type = ''7'', row_data = ''tank/a'', row_pads = (0, 20, 4)\<rparr>,
     \<lparr>row_name = ''writes'', row_type = ''4'', row_data = ''17'', row_pads = (0, 26, 4)\<rparr>]"

theorem kstat_Next_contract_witness:
  "returns (fst (kstat_Next (new_kstat_reader (kstat_text sample_kstat_header (0, 28, 4) sample_kstat_rows))))"
  using kstat_Next_contract
    [of "new_kstat_reader (kstat_text sample_kstat_header (0, 28, 4) sample_kstat_rows)"] by blast

text \<open>
  A well-formed row, wherever it stands in the text behind the headers, is read with its
  name, type and data, whatever the padding; the reader then stands behind its newline.
\<close>

theorem kstat_reads_row:
  assumes "at_text r (row_text w @ rest)" and "wf_row w" and "kpos r > 0"
  shows "\<exists>r'. kstat_Next r = (Inr (row_name w), r') \<and> at_text r' rest \<and>
    rowType r' = row_type w \<and> RowData r' = row_data w"
  using kstat_Next_row [OF assms] at_text_take_row [OF assms(1)] by (simp add: take_row_def RowData_def)

text \<open>
  C25. Round trip of a counter: a row that the kernel prints for a counter, with the counter in decimal, is
  read back by \<open>Next\<close> and \<open>RowDataAsUInt64\<close> as the counter's name and value, whatever the padding, for
  every value of 64 bits; the reader then stands behind the row.
\<close>

theorem counter_roundtrip:
  assumes "at_text r (row_text w @ rest)" and "wf_row w" and "kpos r > 0" and "row_data w = show_nat (unat (v :: 64 word))"
  shows "\<exists>r'. kstat_Next r = (Inr (row_name w), r') \<and> at_text r' rest \<and> RowDataAsUInt64 r' = Inr v"
proof -
  have "ParseUint (show_nat (unat v)) 64 = Inr (unat v)"
    using unsigned_less [of v] by (intro ParseUint_show_nat) simp_all
  with kstat_Next_row [OF assms(1-3)] at_text_take_row [OF assms(1)] assms(4) show ?thesis
    by (simp add: take_row_def RowData_def RowDataAsUInt64_def)
qed

definition sample_row_reader :: KStatReader where
  "sample_row_reader = (new_kstat_reader (''x'' @ concat (map row_text sample_kstat_rows)))\<lparr>kpos := 1\<rparr>"

definition printed_row :: kstat_row where
  "printed_row = \<lparr>row_name = ''nread'', row_type = ''4'', row_data = ''44'', row_pads = (0, 2, 5)\<rparr>"

theorem counter_roundtrip_witness:
  "\<exists>r'. kstat_Next ((new_kstat_reader (''x'' @ row_text printed_row))\<lparr>kpos := 1\<rparr>) = (Inr ''nread'', r') \<and>
     RowDataAsUInt64 r' = Inr 44"
proof -
  have "row_data printed_row = show_nat (unat (44 :: 64 word))" by code_simp
  from counter_roundtrip [OF _ _ _ this, of "(new_kstat_reader (''x'' @ row_text printed_row))\<lparr>kpos := 1\<rparr>" "[]"]
  show ?thesis
    by (auto simp: at_text_def new_kstat_reader_def wf_row_def wf_word_def wf_data_def newline_def printed_row_def)
qed

theorem kstat_reads_row_witness:
  "\<exists>r'. kstat_Next sample_row_reader = (Inr ''dataset_name'', r') \<and> RowData r' = ''tank/a''"
  using kstat_reads_row [of sample_row_reader "sample_kstat_rows ! 0" "row_text (sample_kstat_rows ! 1)"]
  by (auto simp: sample_row_reader_def sample_kstat_rows_def at_text_def new_kstat_reader_def
      wf_row_def wf_word_def wf_data_def newline_def)

text \<open>
  The type of a kstat is kept in eight bits: the reader goes on to the column headers for
  every header whose type is 1 modulo 256, and refuses the others with an error of its own.
\<close>

theorem kstat_type_truncated:
  assumes "wf_header h" and "ParseInt (hdr_type h) 32 = Inr t"
  shows "fst (readPreamble (new_kstat_reader (header_text h @ columns_text pads))) =
    (if t mod 256 = 1 then Inr ()
     else Inl (Err (Errorf ''KStatReader only supports kstat that are of type key-value pair'')))"
proof -
  let ?r = "new_kstat_reader (header_text h @ columns_text pads)"
  have at: "at_text ?r (header_text h @ columns_text pads @ [])"
    by (simp add: at_text_def new_kstat_reader_def)
  have type: "(word_of_int t :: 8 word) = 1 \<longleftrightarrow> t mod 256 = 1"
    using word_of_int_eq_iff [where ?'a = 8, of t 1] by (simp add: take_bit_eq_mod)
  show ?thesis
  proof (cases "(word_of_int t :: 8 word) = 1")
    case True
    with readPreamble_text [OF at assms True] type show ?thesis by simp
  next
    case False
    from readHeader_text [OF at assms] obtain r1
      where hdr: "readHeader ?r = (Inr (), r1)" and "HeaderType r1 = word_of_int t" by auto
    then have "fst (readPreamble ?r) =
        Inl (Err (Errorf ''KStatReader only supports kstat that are of type key-value pair''))"
      using False unfolding readPreamble_def bindE_Inr [of readHeader, OF hdr] bindE_gets
      by (simp add: fail_apply)
    with False type show ?thesis by simp
  qed
qed

theorem kstat_type_truncated_witness:
  "fst (readPreamble (new_kstat_reader
     (header_text (sample_kstat_header\<lparr>hdr_type := ''257''\<rparr>) @ columns_text (0, 28, 4)))) = Inr ()"
proof -
  let ?h = "sample_kstat_header\<lparr>hdr_type := ''257''\<rparr>"
  have wf: "wf_header ?h" by (simp add: wf_header_def sample_kstat_header_def newline_def)
  have "ParseUint ''257'' 32 = Inr 257"
    by (simp add: ParseUint_Inr is_digit_def decimal_value_def digit_value_def)
  then have parse: "ParseInt (hdr_type ?h) 32 = Inr 257" by (simp add: ParseInt_def)
  show ?thesis by (rule trans [OF kstat_type_truncated [OF wf parse] if_P]) simp
qed

section \<open>The ioctl interface\<close>

text \<open>
  C26. A dataset's name through a cleared command block: \<open>GetName\<close> gives back every name of up
  to 4095 bytes without a NUL; of a name with a NUL it gives the part before it, and of a
  longer name nothing, because \<open>SetName\<close> drops the error and leaves the block as it was.
\<close>

theorem name_roundtrip:
  "fst (SetName name (Clear c)) = Inr () \<and>
   GetName (snd (SetName name (Clear c))) =
     (if length name \<le> 4095 then takeWhile (\<lambda>ch. ch \<noteq> CHR 0x00) name else [])"
  using GetName_SetName_cleared [of name c] SetName_bytes [of "Clear c" name]
  by (simp add: name_prefix_def Clear_def zero_cmd_def zero_bytes_def)

text \<open>
  \<open>SetName\<close> alone does not replace a name: it writes no terminating NUL, so the tail of a
  longer name that was set before stays. The loop over the datasets needs its \<open>Clear\<close>.
\<close>

theorem name_needs_clear:
  assumes "length b < length a" and "length a \<le> 4095" and "CHR 0x00 \<notin> set a" and "CHR 0x00 \<notin> set b"
  shows "GetName (snd (SetName b (snd (SetName a (Clear c))))) = b @ drop (length b) a"
  using GetName_SetName_stale [OF assms] .

theorem name_needs_clear_witness:
  "GetName (snd (SetName ''tank'' (snd (SetName ''tank/home'' (Clear zero_cmd))))) = ''tank/home''"
  using name_needs_clear [of "''tank''" "''tank/home''" zero_cmd] by simp

text \<open>
  C12. The retry loop of \<open>Ioctl\<close> against a kernel that answers a short buffer with ENOMEM and the
  size it needs: two rounds are enough, the call succeeds, and the reply stands at the
  beginning of the response buffer, whatever size the buffer had.
\<close>

theorem Ioctl_retries:
  assumes "serves H num reply" and "reply \<noteq> []" "length reply < 2 ^ 64" "length reply \<le> max_alloc H"
    and "io_resp s = Some b" "buf_bytes b \<noteq> []" "length (buf_bytes b) < 2 ^ 64" and "2 \<le> n"
  shows "\<exists>s' b'. Ioctl n H num None None s = (Inr (), s') \<and> io_resp s' = Some b' \<and>
    buf_bytes b' = reply @ drop (length reply) (buf_bytes b)"
  using Ioctl_served [OF assms] .

definition sample_host :: "unit host" where
  "sample_host = \<lparr>
     sys_ioctl = (\<lambda>num c request config w.
       if unat (Nvlist_dst_size c) < 3
       then ((ENOMEM, c\<lparr>Nvlist_dst_size := 3\<rparr>, []), w) else ((0, c, [1, 2, 3]), w)),
     allocate = (\<lambda>n w. (4096, w)), max_alloc = 1000\<rparr>"

theorem Ioctl_retries_witness:
  "\<exists>s' b'. Ioctl 2 sample_host 0 None None
       \<lparr>io_world = (), io_cmd = zero_cmd, io_resp = Some \<lparr>buf_addr = 64, buf_bytes = [0]\<rparr>\<rparr> = (Inr (), s') \<and>
     io_resp s' = Some b' \<and> buf_bytes b' = [1, 2, 3]"
proof -
  have "serves sample_host 0 [1, 2, 3]"
    unfolding serves_def sample_host_def by (auto intro!: exI)
  from Ioctl_retries [OF this, of "\<lparr>io_world = (), io_cmd = zero_cmd, io_resp = Some \<lparr>buf_addr = 64, buf_bytes = [0]\<rparr>\<rparr>"
      "\<lparr>buf_addr = 64, buf_bytes = [0]\<rparr>" 2]
  show ?thesis by (simp add: sample_host_def del: Ioctl.simps)
qed

text \<open>
  C27. The loop has no bound of its own: against a kernel that keeps answering ENOMEM with some
  positive size, no number of rounds is enough.
\<close>

theorem Ioctl_never_gives_up:
  assumes "refuses H num ENOMEM need" and "0 < need" "unat need \<le> max_alloc H"
    and "io_resp s = Some b" "buf_bytes b \<noteq> []"
  shows "fst (Ioctl n H num None None s) = Inl OutOfFuel"
  using Ioctl_stuck [OF assms, of n] by auto

definition stubborn_host :: "unit host" where
  "stubborn_host = \<lparr>sys_ioctl = (\<lambda>num c request config w. ((ENOMEM, c\<lparr>Nvlist_dst_size := 3\<rparr>, []), w)),
     allocate = (\<lambda>n w. (4096, w)), max_alloc = 1000\<rparr>"

theorem Ioctl_never_gives_up_witness:
  "fst (Ioctl 5 stubborn_host 0 None None
     \<lparr>io_world = (), io_cmd = zero_cmd, io_resp = Some \<lparr>buf_addr = 64, buf_bytes = [0]\<rparr>\<rparr>) = Inl OutOfFuel"
proof -
  have "refuses stubborn_host 0 ENOMEM 3" unfolding refuses_def stubborn_host_def by (auto intro!: exI)
  then show ?thesis
    by (rule Ioctl_never_gives_up [where b = "\<lparr>buf_addr = 64, buf_bytes = [0]\<rparr>"])
      (simp_all add: stubborn_host_def)
qed

text \<open>
  The ioctl numbers of a platform are pairwise distinct, in the common block and in the
  platform block that starts at offset 0x80, whatever number the platform starts from; the
  two calls for the pools and the one for the datasets have the offsets of the kernel's enum.
\<close>

theorem ioctl_numbers_distinct:
  "distinct (ioctl_numbers ioc_first) \<and>
   ioctl_numbers ioc_first = map (\<lambda>k. ioc_first + word_of_nat k) ioctl_offsets \<and>
   ZFS_IOC_POOL_CONFIGS ioc_first = ioc_first + 4 \<and> ZFS_IOC_POOL_STATS ioc_first = ioc_first + 5 \<and>
   ZFS_IOC_DATASET_LIST_NEXT ioc_first = ioc_first + 20 \<and> ZFS_IOC_FIRST_most = 0x5a00"
  using distinct_ioctl_numbers ioctl_numbers_offsets
  by (simp add: ZFS_IOC_POOL_CONFIGS_def ZFS_IOC_POOL_STATS_def ZFS_IOC_DATASET_LIST_NEXT_def
      ZFS_IOC_FIRST_most_def push_bit_eq_mult)

section \<open>States\<close>

text \<open>
  C28. The state gauges: whatever state and aux numbers the kernel reports, exactly one of the
  names that the exporter goes through is the current one, for pools and for vdevs.
\<close>

theorem one_state_is_current:
  "filter (\<lambda>n. n = PoolStateString s) PoolStates = [PoolStateString s] \<and>
   filter (\<lambda>n. n = VDevStateString s aux) VDevStates = [VDevStateString s aux]"
  using pool_labels.one_current [of s] vdev_state_labels.one_current [of "(s, aux)"] by simp

text \<open>
  What is reported as UNKNOWN: of the pool states every number beyond the known eight; of the
  vdev states every number beyond the known eight, the state UNKNOWN, and the state CLOSED,
  whose \<open>case\<close> is empty and does not fall through to OFFLINE.
\<close>

theorem unknown_states:
  "(PoolStateString s = ''UNKNOWN'' \<longleftrightarrow> 8 \<le> s) \<and>
   (VDevStateString s aux = ''UNKNOWN'' \<longleftrightarrow> s = vdevState_UNKNOWN \<or> s = vdevState_CLOSED \<or> 8 \<le> s)"
proof -
  have "unat s < 8 \<longleftrightarrow> unat s = 0 \<or> unat s = 1 \<or> unat s = 2 \<or> unat s = 3 \<or> unat s = 4 \<or>
      unat s = 5 \<or> unat s = 6 \<or> unat s = 7" by arith
  then have lt: "s < 8 \<longleftrightarrow> s \<in> set [0, 1, 2, 3, 4, 5, 6, 7]"
    by (simp add: word_less_nat_alt word_unat_eq_iff)
  have "8 \<le> s \<longleftrightarrow> \<not> s < 8" by (simp add: not_less)
  with lt show ?thesis
    by (auto simp: PoolStateString_def VDevStateString_def pool_state_defs vdev_state_defs)
qed

section \<open>Floats\<close>

text \<open>
  The conversion of a counter to float64 is exact below \<open>2 ^ 53\<close>, and above errs by at most
  \<open>2 ^ -53\<close> of the value; dividing by 100, as for the compress ratios, adds no more than that.
\<close>

theorem float_error:
  "\<bar>float_val (float64_of v) - real (unat v)\<bar> \<le> real (unat v) / 2 ^ 53 \<and>
   (unat v < 2 ^ 53 \<longrightarrow>
      float_val (float64_of v) = real (unat v) \<and>
      \<bar>float_val (div_100 (float64_of v)) - real (unat v) / 100\<bar> \<le> real (unat v) / 100 / 2 ^ 53)"
proof (intro conjI impI)
  show "\<bar>float_val (float64_of v) - real (unat v)\<bar> \<le> real (unat v) / 2 ^ 53" by (rule float64_of_error)
next
  assume "unat v < 2 ^ 53"
  then show e: "float_val (float64_of v) = real (unat v)" by (rule float64_of_exact)
  from div_100_error [of "float64_of v"]
  show "\<bar>float_val (div_100 (float64_of v)) - real (unat v) / 100\<bar> \<le> real (unat v) / 100 / 2 ^ 53"
    unfolding e .
qed

theorem float_error_witness:
  "float_val (float64_of 123) = 123 \<and> \<bar>float_val (div_100 (float64_of 123)) - 123 / 100\<bar> \<le> 123 / 100 / 2 ^ 53"
  using float_error [of 123] by simp

end
