(* ===== verification/Vdevs.thy ===== *)
theory Vdevs
  imports NV_Leaf Ioctl_States
begin

text \<open>
  main.go, the vdev tree of a pool: \<open>vdevStats\<close>, \<open>parseVdevStats\<close>, \<open>vdev\<close> and
  \<open>parseVdevs\<close>.

  Shown here: the recursive parser ends on every input and satisfies the source's equation
  without a bound; on an encoded list of pairs, in any order and with unknown pairs among
  them, it reads exactly that list and returns the vdev that the list describes, children
  included; a statistics array of fewer than 29 elements makes it panic.
\<close>

section \<open>Data\<close>

record vdevStats =
  alloc :: "64 word"
  free :: "64 word"
  vsize :: "64 word"
  readOperations :: "64 word"
  bytesRead :: "64 word"
  readErrors :: "64 word"
  writeOperations :: "64 word"
  bytesWritten :: "64 word"
  writeErrors :: "64 word"
  checksumErrors :: "64 word"
  fragmentation :: "64 word"
  vstate :: string

definition zero_vdevStats :: vdevStats where
  "zero_vdevStats = \<lparr>alloc = 0, free = 0, vsize = 0, readOperations = 0, bytesRead = 0, readErrors = 0,
     writeOperations = 0, bytesWritten = 0, writeErrors = 0, checksumErrors = 0, fragmentation = 0,
     vstate = []\<rparr>"

datatype vdev = Vdev
  (vdevType: string) (vid: "64 word") (vpath: string) (children: "vdev list") (stats: vdevStats)

definition zero_vdev :: vdev where
  "zero_vdev = Vdev [] 0 [] [] zero_vdevStats"

text \<open>Assignments to the fields of the vdev under construction.\<close>

fun set_type :: "string \<Rightarrow> vdev \<Rightarrow> vdev" where
  "set_type s (Vdev t i p cs st) = Vdev s i p cs st"

fun set_id :: "64 word \<Rightarrow> vdev \<Rightarrow> vdev" where
  "set_id w (Vdev t i p cs st) = Vdev t w p cs st"

fun set_path :: "string \<Rightarrow> vdev \<Rightarrow> vdev" where
  "set_path s (Vdev t i p cs st) = Vdev t i s cs st"

fun append_children :: "vdev list \<Rightarrow> vdev \<Rightarrow> vdev" where
  "append_children new (Vdev t i p cs st) = Vdev t i p (cs @ new) st"

fun set_stats :: "vdevStats \<Rightarrow> vdev \<Rightarrow> vdev" where
  "set_stats s (Vdev t i p cs st) = Vdev t i p cs s"

section \<open>Statistics\<close>

definition stat_at :: "int \<Rightarrow> (64 word list, 64 word) proc" where
  "stat_at i = query (\<lambda>a. go_index a i)"

definition read_vdevStats :: "(64 word list, vdevStats) proc" where
  "read_vdevStats =
     bindE (stat_at VDevStats_vs_alloc) (\<lambda>al.
     bindE (stat_at VDevStats_vs_space) (\<lambda>sp.
     bindE (stat_at VDevStats_vs_ops_read) (\<lambda>ro.
     bindE (stat_at VDevStats_vs_bytes_read) (\<lambda>br.
     bindE (stat_at VDevStats_vs_read_errors) (\<lambda>re.
     bindE (stat_at VDevStats_vs_ops_write) (\<lambda>wo.
     bindE (stat_at VDevStats_vs_bytes_write) (\<lambda>bw.
     bindE (stat_at VDevStats_vs_write_errors) (\<lambda>we.
     bindE (stat_at VDevStats_vs_checksum_errors) (\<lambda>ce.
     bindE (stat_at VDevStats_vs_fragmentation) (\<lambda>fr.
     bindE (stat_at VDevStats_vs_state) (\<lambda>st.
     bindE (stat_at VDevStats_vs_aux) (\<lambda>aux.
     ret \<lparr>alloc = al, free = sp - al, vsize = sp, readOperations = ro, bytesRead = br, readErrors = re,
          writeOperations = wo, bytesWritten = bw, writeErrors = we, checksumErrors = ce,
          fragmentation = fr, vstate = VDevStateString st aux\<rparr>))))))))))))"

definition parseVdevStats :: "64 word list \<Rightarrow> exit + vdevStats" where
  "parseVdevStats vs = fst (read_vdevStats vs)"

text \<open>The statistics that an array of sufficient length stands for.\<close>

definition stats_of :: "64 word list \<Rightarrow> vdevStats" where
  "stats_of a = \<lparr>alloc = a ! 3, free = a ! 4 - a ! 3, vsize = a ! 4, readOperations = a ! 9,
     bytesRead = a ! 15, readErrors = a ! 21, writeOperations = a ! 10, bytesWritten = a ! 16,
     writeErrors = a ! 22, checksumErrors = a ! 23, fragmentation = a ! 28,
     vstate = VDevStateString (a ! 1) (a ! 2)\<rparr>"

lemma bind_stat_at:
  "0 \<le> i \<Longrightarrow> bindE (stat_at i) f a = (if nat i < length a then f (a ! nat i) a else (Inl (Panic IndexOutOfRange), a))"
  by (auto simp: stat_at_def bindE_def query_apply go_index_def)

lemma parseVdevStats_eq:
  "parseVdevStats a = (if 29 \<le> length a then Inr (stats_of a) else Inl (Panic IndexOutOfRange))"
  unfolding parseVdevStats_def read_vdevStats_def
  by (simp add: bind_stat_at vs_index_defs ret_apply stats_of_def)

section \<open>The parser\<close>

text \<open>
  One round of the loop: what \<open>parseVdevs\<close> does with the pair \<open>Next\<close> has delivered.
  \<open>parse_child\<close> is the recursive call.
\<close>

definition vdev_step :: "(NVListReader, vdev) proc \<Rightarrow> NVType \<Rightarrow> vdev \<Rightarrow> (NVListReader, vdev) proc" where
  "vdev_step parse_child token v =
     bindE (gets Name) (\<lambda>name.
     if name = ''children'' then
       if token \<noteq> TypeNvlistArray then fail (Errorf ''invalid children'')
       else bindE (gets NumElements) (\<lambda>numChildren.
         bindE (collectE numChildren parse_child) (\<lambda>new. ret (append_children new v)))
     else if name = ''type'' then
       if token \<noteq> TypeString then fail (Errorf ''invalid type'')
       else bindE (query NV_String) (\<lambda>s. ret (set_type s v))
     else if name = ''id'' then
       if token \<noteq> TypeUint64 then fail (Errorf ''invalid type'')
       else bindE (query UInt64) (\<lambda>i. ret (set_id i v))
     else if name = ''path'' then
       if token \<noteq> TypeString then fail (Errorf ''invalid type'')
       else bindE (query NV_String) (\<lambda>s. ret (set_path s v))
     else if name = ''vdev_stats'' then
       if token \<noteq> TypeUint64Array then fail (Errorf ''invalid vdev_stats'')
       else bindE (query UInt64Array) (\<lambda>a. bindE (query (\<lambda>_. parseVdevStats a)) (\<lambda>st. ret (set_stats st v)))
     else if token = TypeNvlist \<or> token = TypeNvlistArray then bindE Skip (\<lambda>_. ret v)
     else ret v)"

fun parseVdevs_fuel :: "nat \<Rightarrow> (NVListReader, vdev) proc" where
  "parseVdevs_fuel n = forNext Next n (\<lambda>k. vdev_step (parseVdevs_fuel k)) zero_vdev"

declare parseVdevs_fuel.simps [simp del]

definition parseVdevs :: "(NVListReader, vdev) proc" where
  "parseVdevs = unbounded remaining parseVdevs_fuel"

section \<open>Termination\<close>

lemma parseVdevStats_total: "parseVdevStats a \<noteq> Inl OutOfFuel"
  by (simp add: parseVdevStats_eq)

lemmas settled_reads = settled_query [of UInt64, OF UInt64_total]
  settled_query [of NV_String, OF NV_String_total] settled_query [of UInt64Array, OF UInt64Array_total]
  settled_query [of "\<lambda>_. parseVdevStats a" for a, OF parseVdevStats_total]

lemma settled_vdev_step:
  assumes "\<And>r'. remaining r' \<le> remaining r \<Longrightarrow> settled remaining child n r'"
  shows "settled remaining (\<lambda>k. vdev_step (child k) token v) n r"
  unfolding vdev_step_def
  by (rule settled_bindE, rule settled_gets)
    ((rule settled_if settled_bindE settled_collectE settled_gets settled_ret settled_fail
        settled_reads settled_Skip_const | rule assms, simp)+)

definition vdev_loop_fuel :: "nat \<Rightarrow> vdev \<Rightarrow> (NVListReader, vdev) proc" where
  "vdev_loop_fuel n = forNext Next n (\<lambda>k. vdev_step (parseVdevs_fuel k))"

lemma parseVdevs_fuel_loop: "parseVdevs_fuel n = vdev_loop_fuel n zero_vdev"
  unfolding vdev_loop_fuel_def by (rule parseVdevs_fuel.simps)

lemma settled_parseVdevs: "remaining r < n \<Longrightarrow> settled remaining parseVdevs_fuel n r"
proof (induction n arbitrary: r rule: less_induct)
  case (less n)
  have "settled remaining (\<lambda>k. vdev_step (parseVdevs_fuel k) token v) k r'"
    if "k < n" "remaining r' < k" for k token v r'
    by (rule settled_vdev_step, rule less.IH) (use that in auto)
  from nv.settled_forNext [OF less.prems this]
  have "settled remaining (\<lambda>n. vdev_loop_fuel n zero_vdev) n r" by (simp only: vdev_loop_fuel_def)
  then show ?case unfolding parseVdevs_fuel_loop [symmetric] .
qed

lemma bounded_parseVdevs: "bounded_by remaining parseVdevs_fuel"
  by (simp add: bounded_by_def settled_parseVdevs)

lemma parseVdevs_total: "fst (parseVdevs r) \<noteq> Inl OutOfFuel"
  using unbounded_terminates [OF bounded_parseVdevs] by (metis parseVdevs_def prod.collapse)

text \<open>The loop of the source, with the recursive call and without bounds.\<close>

definition vdev_loop :: "vdev \<Rightarrow> (NVListReader, vdev) proc" where
  "vdev_loop v r = vdev_loop_fuel (Suc (remaining r)) v r"

lemma parseVdevs_loop: "parseVdevs = vdev_loop zero_vdev"
  by (simp add: fun_eq_iff parseVdevs_def unbounded_def vdev_loop_def parseVdevs_fuel_loop)

lemma vdev_step_unbounded:
  assumes "remaining r < n"
  shows "vdev_step (parseVdevs_fuel n) token v r = vdev_step parseVdevs token v r"
proof -
  have "bindE (collectE k (parseVdevs_fuel n)) f r = bindE (collectE k parseVdevs) f r"
    for k and f :: "vdev list \<Rightarrow> (NVListReader, vdev) proc"
    unfolding bindE_def parseVdevs_def collectE_unbounded [OF bounded_parseVdevs assms] ..
  then show ?thesis by (simp only: vdev_step_def bindE_gets if_app)
qed

lemma vdev_loop_unfold:
  "vdev_loop v r =
     (case Next r of
        (Inl e, r') \<Rightarrow> if e = Err EOF then (Inr v, r') else (Inl e, r')
      | (Inr token, r') \<Rightarrow> bindE (vdev_step parseVdevs token v) vdev_loop r')"
  by (rule nv.loop_unfold [where body = "\<lambda>k. vdev_step (parseVdevs_fuel k)"])
    (auto simp: vdev_loop_def vdev_loop_fuel_def vdev_step_unbounded
      intro!: settled_vdev_step settled_parseVdevs)

section \<open>Encoded vdevs\<close>

text \<open>
  What a list of pairs says about a vdev. \<open>vdev_pair_ok\<close>: the pairs with the names the parser
  knows have the types it wants; pairs with other names may be anything. \<open>apply_pair\<close>: the
  change of one pair to the vdev under construction, so that \<open>vdev_of_pairs\<close> is the vdev.
\<close>

definition vdev_names :: "string list" where
  "vdev_names = [''children'', ''type'', ''id'', ''path'', ''vdev_stats'']"

fun leaf_stats :: "nvpair \<Rightarrow> vdevStats option" where
  "leaf_stats p = (case leaf_uint64s p of
     None \<Rightarrow> None | Some ws \<Rightarrow> if 29 \<le> length ws then Some (stats_of ws) else None)"

definition vdev_leaf_ok :: "nvpair \<Rightarrow> bool" where
  "vdev_leaf_ok p \<longleftrightarrow>
     (if pair_name p = ''type'' \<or> pair_name p = ''path'' then leaf_string p \<noteq> None
      else if pair_name p = ''id'' then leaf_uint64 p \<noteq> None
      else if pair_name p = ''vdev_stats'' then leaf_stats p \<noteq> None
      else pair_name p \<noteq> ''children'')"

fun vdev_pair_ok :: "nvpair \<Rightarrow> bool" where
  "vdev_pair_ok (Leaf nm t n bs) = vdev_leaf_ok (Leaf nm t n bs)"
| "vdev_pair_ok (Embedded nm ps) = (nm \<notin> set vdev_names)"
| "vdev_pair_ok (EmbeddedArray nm pss) =
     (if nm = ''children'' then list_all (list_all vdev_pair_ok) pss
      else nm \<notin> set vdev_names \<and> length pss = 1)"

definition apply_leaf :: "nvpair \<Rightarrow> vdev \<Rightarrow> vdev" where
  "apply_leaf p v =
     (if pair_name p = ''type'' then set_type (the (leaf_string p)) v
      else if pair_name p = ''path'' then set_path (the (leaf_string p)) v
      else if pair_name p = ''id'' then set_id (the (leaf_uint64 p)) v
      else if pair_name p = ''vdev_stats'' then set_stats (the (leaf_stats p)) v
      else v)"

fun apply_pair :: "nvpair \<Rightarrow> vdev \<Rightarrow> vdev" where
  "apply_pair (Leaf nm t n bs) v = apply_leaf (Leaf nm t n bs) v"
| "apply_pair (Embedded nm ps) v = v"
| "apply_pair (EmbeddedArray nm pss) v =
     (if nm = ''children'' then append_children (map (\<lambda>ps. fold apply_pair ps zero_vdev) pss) v else v)"

definition vdev_of_pairs :: "nvpair list \<Rightarrow> vdev" where
  "vdev_of_pairs ps = fold apply_pair ps zero_vdev"

lemma next_loop_vdev: "next_loop (vdev_step parseVdevs) vdev_loop"
  by (simp add: next_loop_def vdev_loop_unfold)

lemma vdev_names_distinct:
  "''type'' \<noteq> ''children''" "''path'' \<noteq> ''children''" "''id'' \<noteq> ''children''" "''vdev_stats'' \<noteq> ''children''"
  "''path'' \<noteq> ''type''" "''id'' \<noteq> ''type''" "''vdev_stats'' \<noteq> ''type''" "''path'' \<noteq> ''id''"
  "''vdev_stats'' \<noteq> ''id''" "''vdev_stats'' \<noteq> ''path''"
  by simp_all

lemma vdev_step_leaf:
  assumes r: "at_pair r p post" and ok: "vdev_leaf_ok p"
    and leaf: "pair_tag p \<noteq> TypeNvlist" "pair_tag p \<noteq> TypeNvlistArray"
  shows "vdev_step child (pair_tag p) v r = (Inr (apply_leaf p v), r)"
proof -
  note name = at_pair_name [OF r]
  consider "pair_name p = ''type''" | "pair_name p = ''path''" | "pair_name p = ''id''"
    | "pair_name p = ''vdev_stats''" | "pair_name p \<notin> set vdev_names"
    using ok unfolding vdev_names_def vdev_leaf_ok_def by (auto split: if_splits)
  then show ?thesis
  proof cases
    case 1
    with ok obtain s where s: "leaf_string p = Some s" by (auto simp: vdev_leaf_ok_def)
    with at_pair_string [OF r s] name 1 show ?thesis
      by (simp add: vdev_step_def bindE_gets bindE_query ret_apply apply_leaf_def)
  next
    case 2
    with ok obtain s where s: "leaf_string p = Some s" by (auto simp: vdev_leaf_ok_def)
    with at_pair_string [OF r s] name 2 show ?thesis
      by (simp add: vdev_step_def bindE_gets bindE_query ret_apply apply_leaf_def)
  next
    case 3
    with ok obtain w where w: "leaf_uint64 p = Some w" by (auto simp: vdev_leaf_ok_def)
    with at_pair_uint64 [OF r w] name 3 show ?thesis
      by (simp add: vdev_step_def bindE_gets bindE_query ret_apply apply_leaf_def)
  next
    case 4
    with ok obtain ws where ws: "leaf_uint64s p = Some ws" and len: "29 \<le> length ws"
      by (auto simp: vdev_leaf_ok_def split: option.splits if_splits)
    with at_pair_uint64s [OF r ws] name 4 show ?thesis
      by (simp add: vdev_step_def bindE_gets bindE_query parseVdevStats_eq ret_apply apply_leaf_def)
  next
    case 5
    with name leaf show ?thesis
      by (simp add: vdev_step_def bindE_gets ret_apply apply_leaf_def vdev_names_def)
  qed
qed

text \<open>A pair with an unknown name that announces one list: \<open>Skip\<close> reads that list.\<close>

lemma vdev_step_other:
  assumes r: "at_pair r p post" "pair_name p \<notin> set vdev_names"
    and t: "pair_tag p = TypeNvlist \<or> pair_tag p = TypeNvlistArray"
  shows "vdev_step child (pair_tag p) v r = bindE Skip (\<lambda>_. ret v) r"
proof -
  have "Name r \<noteq> ''children''" "Name r \<noteq> ''type''" "Name r \<noteq> ''id''" "Name r \<noteq> ''path''"
    "Name r \<noteq> ''vdev_stats''"
    using at_pair_name [OF r(1)] r(2) by (auto simp: vdev_names_def)
  with t show ?thesis unfolding vdev_step_def bindE_gets by (simp only: if_False if_True simp_thms)
qed

lemma skip_then_ret: "list_all wf_pair ps \<Longrightarrow> passes (bindE Skip (\<lambda>_. ret v)) v (encode_list ps) 0"
  using passes_bindE [OF Skip_passes passes_ret] by simp

lemma vdev_step_children:
  assumes r: "at_pair r p post" "pair_name p = ''children''" "pair_tag p = TypeNvlistArray"
  shows "vdev_step child (pair_tag p) v r =
    bindE (collectE (pair_count p) child) (\<lambda>new. ret (append_children new v)) r"
  using at_pair_name [OF r(1)] at_pair_count [OF r(1)] r(2,3) by (simp add: vdev_step_def bindE_gets)

lemma parseVdevs_list:
  assumes "list_all wf_pair ps" and "list_all (consumes_pair (vdev_step parseVdevs) apply_pair) ps"
  shows "passes parseVdevs (vdev_of_pairs ps) (encode_list ps) 0"
  unfolding parseVdevs_loop vdev_of_pairs_def
  using assms by (rule pairs_loop [OF next_loop_vdev])

lemma consumes_children:
  assumes "\<And>ps. ps \<in> set pss \<Longrightarrow> passes parseVdevs (vdev_of_pairs ps) (encode_list ps) 0"
  shows "consumes_pair (vdev_step parseVdevs) apply_pair (EmbeddedArray ''children'' pss)"
proof (rule consumes_pairI)
  fix v :: vdev and r rest
  let ?p = "EmbeddedArray ''children'' pss"
  assume r: "before r (pair_tail ?p @ rest)" and rest: "rest \<noteq> []" and at: "at_pair r ?p (pair_tail ?p @ rest)"
  have "list_all2 (\<lambda>a s. passes parseVdevs a s 0) (map vdev_of_pairs pss) (map encode_list pss)"
    using assms by (auto simp: list_all2_conv_all_nth)
  from passes_bindE [OF passes_collectE [OF this] passes_ret]
  have "passes (bindE (collectE (length pss) parseVdevs) (\<lambda>new. ret (append_children new v)))
      (append_children (map vdev_of_pairs pss) v) (concat (map encode_list pss)) 0" by simp
  with r rest have "\<exists>r'. bindE (collectE (length pss) parseVdevs) (\<lambda>new. ret (append_children new v)) r =
      (Inr (append_children (map vdev_of_pairs pss) v), r') \<and> before r' rest"
    by (auto elim: passesD)
  then show "\<exists>r'. vdev_step parseVdevs (pair_tag ?p) v r = (Inr (apply_pair ?p v), r') \<and> before r' rest"
    using vdev_step_children [OF at] by (simp add: vdev_of_pairs_def [abs_def])
qed

lemma consumes_other:
  assumes "pair_tail p = encode_list ps" and "list_all wf_pair ps" and "pair_name p \<notin> set vdev_names"
    and "pair_tag p = TypeNvlist \<or> pair_tag p = TypeNvlistArray" and "\<And>v. apply_pair p v = v"
  shows "consumes_pair (vdev_step parseVdevs) apply_pair p"
proof (rule consumes_pairI)
  fix v :: vdev and r rest
  assume r: "before r (pair_tail p @ rest)" and rest: "rest \<noteq> []" and at: "at_pair r p (pair_tail p @ rest)"
  have "before r (encode_list ps @ rest)" and "0 < length rest" using r rest assms(1) by auto
  then obtain r' where "bindE Skip (\<lambda>_. ret v) r = (Inr v, r')" and "before r' rest"
    by (rule passesD [OF skip_then_ret [OF assms(2)]])
  then show "\<exists>r'. vdev_step parseVdevs (pair_tag p) v r = (Inr (apply_pair p v), r') \<and> before r' rest"
    using vdev_step_other [OF at assms(3,4)] assms(5) by simp
qed

lemma consumes_vdev_pair:
  assumes "wf_pair p" and "vdev_pair_ok p"
  shows "consumes_pair (vdev_step parseVdevs) apply_pair p"
  using assms
proof (induction p)
  case (Leaf nm t n bs)
  show ?case
  proof (rule consumes_pairI)
    fix v r rest
    let ?p = "Leaf nm t n bs"
    assume r: "before r (pair_tail ?p @ rest)" and at: "at_pair r ?p (pair_tail ?p @ rest)"
    have "vdev_step parseVdevs (pair_tag ?p) v r = (Inr (apply_leaf ?p v), r)"
      by (rule vdev_step_leaf [OF at]) (use Leaf in auto)
    with r show "\<exists>r'. vdev_step parseVdevs (pair_tag ?p) v r = (Inr (apply_pair ?p v), r') \<and> before r' rest"
      by simp
  qed
next
  case (Embedded nm ps)
  then show ?case by (intro consumes_other [where ps = ps]) auto
next
  case (EmbeddedArray nm pss)
  show ?case
  proof (cases "nm = ''children''")
    case True
    have "passes parseVdevs (vdev_of_pairs ps) (encode_list ps) 0" if "ps \<in> set pss" for ps
      by (rule parseVdevs_list) (use EmbeddedArray that True in \<open>auto simp: list_all_iff\<close>)
    then show ?thesis unfolding True by (rule consumes_children)
  next
    case False
    then obtain ps where ps: "pss = [ps]" using EmbeddedArray.prems(2) by (cases pss) auto
    show ?thesis
      by (rule consumes_other [where ps = ps]) (use EmbeddedArray.prems False ps in auto)
  qed
qed

interpretation vdev_lists: list_parser "vdev_step parseVdevs" vdev_loop apply_pair vdev_pair_ok
  by unfold_locales (rule next_loop_vdev, rule consumes_vdev_pair)

lemma parseVdevs_passes:
  assumes "list_all wf_pair ps" and "list_all vdev_pair_ok ps"
  shows "passes parseVdevs (vdev_of_pairs ps) (encode_list ps) 0"
  unfolding parseVdevs_loop vdev_of_pairs_def by (rule vdev_lists.reads_list [OF assms])

lemma parseVdevs_stream:
  assumes "list_all wf_pair ps" and "list_all vdev_pair_ok ps" and "post \<noteq> []"
  shows "fst (parseVdevs (new_reader (encode_stream ps @ post))) = Inr (vdev_of_pairs ps)"
  unfolding parseVdevs_loop vdev_of_pairs_def by (rule vdev_lists.reads_stream [OF assms])

text \<open>
  An unknown array of two lists, such as the \<open>spares\<close> of a pool with two hot spares:
  \<open>Skip\<close> passes over the first list only. The pairs of the second are taken for those of the
  vdev itself, and the end of that list for the end of the vdev.
\<close>

lemma parseVdevs_second_list:
  assumes wf: "wire_fits nm 2 (replicate 64 0)" "list_all wf_pair ps1" "list_all wf_pair ps2"
    and nm: "nm \<notin> set vdev_names" and ok: "list_all vdev_pair_ok ps2"
  shows "passes parseVdevs (vdev_of_pairs ps2) (encode (EmbeddedArray nm [ps1, ps2])) 0"
proof (rule passesI)
  fix r rest
  let ?p = "EmbeddedArray nm [ps1, ps2]"
  assume r: "before r (encode ?p @ rest)" and rest: "0 < length rest"
  have tail: "pair_tail ?p = encode_list ps1 @ encode_list ps2" by simp
  have "4 < length (pair_tail ?p @ rest)"
    using length_encode_list [of ps1] rest unfolding tail length_append by linarith
  moreover have "wf_pair ?p" using wf by (simp add: numeral_2_eq_2)
  ultimately obtain r1 where next1: "Next r = (Inr TypeNvlistArray, r1)" and r1: "before r1 (pair_tail ?p @ rest)"
      and at: "at_pair r1 ?p (pair_tail ?p @ rest)"
    using Next_encode [OF r] by (auto simp: at_pair_def)
  obtain r2 where step: "vdev_step parseVdevs TypeNvlistArray zero_vdev r1 = (Inr zero_vdev, r2)"
      and r2: "before r2 (encode_list ps2 @ rest)"
  proof -
    have "before r1 (encode_list ps1 @ (encode_list ps2 @ rest))" and "0 < length (encode_list ps2 @ rest)"
      using r1 tail rest by simp_all
    then obtain r2 where "bindE Skip (\<lambda>_. ret zero_vdev) r1 = (Inr zero_vdev, r2)"
        and "before r2 (encode_list ps2 @ rest)"
      by (rule passesD [OF skip_then_ret [OF wf(2)]])
    then show ?thesis using that vdev_step_other [OF at, of parseVdevs zero_vdev] nm by simp
  qed
  obtain r3 where "parseVdevs r2 = (Inr (vdev_of_pairs ps2), r3)" and "before r3 rest"
    using parseVdevs_passes [OF wf(3) ok] r2 rest by (rule passesD)
  moreover have "vdev_loop zero_vdev r = vdev_loop zero_vdev r2"
    using next1 step by (simp add: vdev_loop_unfold [of _ r] bindE_Inr)
  then have "parseVdevs r = parseVdevs r2" by (simp only: parseVdevs_loop)
  ultimately show "\<exists>r'. parseVdevs r = (Inr (vdev_of_pairs ps2), r') \<and> before r' rest" by auto
qed

section \<open>Configurations as trees\<close>

text \<open>
  A vdev tree as the kernel describes it, and the list of pairs it is written as: the type, the
  id, the path of a leaf device, the statistics and the children. Parsing gives it back.
\<close>

datatype vdev_tree = VdevTree (tree_type: string) (tree_id: "64 word") (tree_path: string)
  (tree_stats: "64 word list") (tree_children: "vdev_tree list")

fun tree_pairs :: "vdev_tree \<Rightarrow> nvpair list" where
  "tree_pairs (VdevTree t i p ws cs) =
     [string_leaf ''type'' t, uint64_leaf ''id'' i] @
     (if p = [] then [] else [string_leaf ''path'' p]) @
     [uint64s_leaf ''vdev_stats'' ws, EmbeddedArray ''children'' (map tree_pairs cs)]"

fun tree_vdev :: "vdev_tree \<Rightarrow> vdev" where
  "tree_vdev (VdevTree t i p ws cs) = Vdev t i p (map tree_vdev cs) (stats_of ws)"

fun tree_ok :: "vdev_tree \<Rightarrow> bool" where
  "tree_ok (VdevTree t i p ws cs) \<longleftrightarrow>
     CHR 0x00 \<notin> set t \<and> CHR 0x00 \<notin> set p \<and> length t < 4096 \<and> length p < 4096 \<and>
     29 \<le> length ws \<and> length ws \<le> 65535 \<and> length cs \<le> 65535 \<and> list_all tree_ok cs"

lemma leaf_pairs:
  "vdev_pair_ok (string_leaf nm s) = vdev_leaf_ok (string_leaf nm s)"
  "vdev_pair_ok (uint64_leaf nm w) = vdev_leaf_ok (uint64_leaf nm w)"
  "vdev_pair_ok (uint64s_leaf nm ws) = vdev_leaf_ok (uint64s_leaf nm ws)"
  "apply_pair (string_leaf nm s) v = apply_leaf (string_leaf nm s) v"
  "apply_pair (uint64_leaf nm w) v = apply_leaf (uint64_leaf nm w) v"
  "apply_pair (uint64s_leaf nm ws) v = apply_leaf (uint64s_leaf nm ws) v"
  by (simp_all add: string_leaf_def uint64_leaf_def uint64s_leaf_def)

lemma tree_pairs_ok: "tree_ok vt \<Longrightarrow> list_all wf_pair (tree_pairs vt) \<and> list_all vdev_pair_ok (tree_pairs vt)"
proof (induction vt)
  case (VdevTree t i p ws cs)
  have "wire_fits ''children'' (length cs) (replicate (32 * length cs) 0)"
    using wire_size_le [of "''children''" "replicate (32 * length cs) 0"] VdevTree.prems
    by (simp add: wire_fits_def)
  with VdevTree show ?case
    by (auto simp: wf_leaves leaf_pairs vdev_leaf_ok_def list_all_iff)
qed

lemma tree_pairs_vdev: "tree_ok vt \<Longrightarrow> vdev_of_pairs (tree_pairs vt) = tree_vdev vt"
proof (induction vt)
  case (VdevTree t i p ws cs)
  have "map (\<lambda>c. fold apply_pair (tree_pairs c) zero_vdev) cs = map tree_vdev cs"
    using VdevTree by (auto simp: vdev_of_pairs_def list_all_iff)
  with VdevTree.prems show ?case
    by (simp add: vdev_of_pairs_def leaf_pairs apply_leaf_def comp_def zero_vdev_def)
qed

end
