(* ===== verification/Dataset_Props.thy ===== *)
theory Dataset_Props
  imports NV_Leaf KStat_Table
begin

text \<open>
  main.go, the properties of a dataset: \<open>datasetProps\<close> with \<open>parseProps\<close> and \<open>parseValue\<close>,
  which read the property list of the kernel, and \<open>parseKStat\<close>, which reads the dataset's I/O
  counters.

  Shown here: the loops end on every input and satisfy the source's equations; on an encoded
  property list, and on the text of a kstat, they return the record that the list or the table
  describes, whatever else stands in it.
\<close>

section \<open>Data\<close>

record datasetProps =
  objsetid :: "64 word"
  available :: "64 word"
  compressratio :: "64 word"
  used :: "64 word"
  usedbychildren :: "64 word"
  usedbydataset :: "64 word"
  usedbyrefreservation :: "64 word"
  usedbysnapshots :: "64 word"
  referenced :: "64 word"
  refcompressratio :: "64 word"
  logicalreferenced :: "64 word"
  logicalused :: "64 word"
  hasKStats :: bool
  writes :: "64 word"
  nwritten :: "64 word"
  reads :: "64 word"
  nread :: "64 word"
  nunlinks :: "64 word"
  nunlinked :: "64 word"

definition zero_props :: datasetProps where
  "zero_props = \<lparr>objsetid = 0, available = 0, compressratio = 0, used = 0, usedbychildren = 0, usedbydataset = 0, usedbyrefreservation = 0, usedbysnapshots = 0, referenced = 0, refcompressratio = 0, logicalreferenced = 0, logicalused = 0,
     hasKStats = False, writes = 0, nwritten = 0, reads = 0, nread = 0, nunlinks = 0, nunlinked = 0\<rparr>"

section \<open>The property list\<close>

text \<open>The switch over the property's name: the field it is stored in.\<close>

definition prop_setter :: "string \<Rightarrow> (64 word \<Rightarrow> datasetProps \<Rightarrow> datasetProps) option" where
  "prop_setter name =
     (if name = ''objsetid'' then Some (\<lambda>v. objsetid_update (\<lambda>_. v))
      else if name = ''available'' then Some (\<lambda>v. available_update (\<lambda>_. v))
      else if name = ''compressratio'' then Some (\<lambda>v. compressratio_update (\<lambda>_. v))
      else if name = ''used'' then Some (\<lambda>v. used_update (\<lambda>_. v))
      else if name = ''usedbychildren'' then Some (\<lambda>v. usedbychildren_update (\<lambda>_. v))
      else if name = ''usedbydataset'' then Some (\<lambda>v. usedbydataset_update (\<lambda>_. v))
      else if name = ''usedbyrefreservation'' then Some (\<lambda>v. usedbyrefreservation_update (\<lambda>_. v))
      else if name = ''usedbysnapshots'' then Some (\<lambda>v. usedbysnapshots_update (\<lambda>_. v))
      else if name = ''referenced'' then Some (\<lambda>v. referenced_update (\<lambda>_. v))
      else if name = ''refcompressratio'' then Some (\<lambda>v. refcompressratio_update (\<lambda>_. v))
      else if name = ''logicalreferenced'' then Some (\<lambda>v. logicalreferenced_update (\<lambda>_. v))
      else if name = ''logicalused'' then Some (\<lambda>v. logicalused_update (\<lambda>_. v))
      else None)"

definition value_step :: "string \<Rightarrow> NVType \<Rightarrow> datasetProps \<Rightarrow> (NVListReader, datasetProps) proc" where
  "value_step propName token d =
     bindE (gets Name) (\<lambda>name.
     if name = ''value'' then
       (case prop_setter propName of
          None \<Rightarrow> ret d
        | Some assign_field \<Rightarrow>
            if token \<noteq> TypeUint64 then fail (Errorf (''invalid type for '' @ propName))
            else bindE (query UInt64) (\<lambda>v. ret (assign_field v d)))
     else ret d)"

definition parseValue_fuel :: "nat \<Rightarrow> string \<Rightarrow> datasetProps \<Rightarrow> (NVListReader, datasetProps) proc" where
  "parseValue_fuel n propName d = forNext Next n (\<lambda>_. value_step propName) d"

definition parseValue :: "string \<Rightarrow> datasetProps \<Rightarrow> (NVListReader, datasetProps) proc" where
  "parseValue propName d r = parseValue_fuel (Suc (remaining r)) propName d r"

definition props_step :: "NVType \<Rightarrow> datasetProps \<Rightarrow> (NVListReader, datasetProps) proc" where
  "props_step token d =
     (if token = TypeNvlist then bindE (gets Name) (\<lambda>name. parseValue name d)
      else fail (ErrorfArg ''expected nvlist, got %v'' (NVType_String token)))"

definition parseProps_fuel :: "nat \<Rightarrow> datasetProps \<Rightarrow> (NVListReader, datasetProps) proc" where
  "parseProps_fuel n d = forNext Next n (\<lambda>_. props_step) d"

definition parseProps :: "datasetProps \<Rightarrow> (NVListReader, datasetProps) proc" where
  "parseProps d r = parseProps_fuel (Suc (remaining r)) d r"

section \<open>The kstat\<close>

definition kstat_setter :: "string \<Rightarrow> (64 word \<Rightarrow> datasetProps \<Rightarrow> datasetProps) option" where
  "kstat_setter name =
     (if name = ''writes'' then Some (\<lambda>v. writes_update (\<lambda>_. v))
      else if name = ''nwritten'' then Some (\<lambda>v. nwritten_update (\<lambda>_. v))
      else if name = ''reads'' then Some (\<lambda>v. reads_update (\<lambda>_. v))
      else if name = ''nread'' then Some (\<lambda>v. nread_update (\<lambda>_. v))
      else if name = ''nunlinks'' then Some (\<lambda>v. nunlinks_update (\<lambda>_. v))
      else if name = ''nunlinked'' then Some (\<lambda>v. nunlinked_update (\<lambda>_. v))
      else None)"

definition kstat_step :: "string \<Rightarrow> datasetProps \<Rightarrow> (KStatReader, datasetProps) proc" where
  \<open>kstat_step name d =
     (case kstat_setter name of
        None \<Rightarrow> ret d
      | Some assign_field \<Rightarrow>
          bindE (wrapE (''error reading "'' @ name @ ''" row: %w'') (query RowDataAsUInt64)) (\<lambda>v.
          ret (assign_field v d)))\<close>

definition parseKStat_fuel :: "nat \<Rightarrow> datasetProps \<Rightarrow> (KStatReader, datasetProps) proc" where
  "parseKStat_fuel n d = forNext kstat_Next n (\<lambda>_. kstat_step) d"

definition parseKStat :: "datasetProps \<Rightarrow> (KStatReader, datasetProps) proc" where
  "parseKStat d r = parseKStat_fuel (Suc (kstat_remaining r)) d r"

section \<open>Termination\<close>

lemma settled_value_step: "settled remaining (\<lambda>_. value_step propName token d) n r"
proof (rule settled_const)
  show "fst (value_step propName token d r) \<noteq> Inl OutOfFuel"
    using UInt64_total [of r]
    by (auto simp: value_step_def bindE_def proc_simps split: option.split sum.split)
  show "remaining s' \<le> remaining r" if "value_step propName token d r = (Inr a, s')" for a s'
    using that by (auto simp: value_step_def bindE_def proc_simps split: option.splits sum.splits if_splits)
qed

lemma settled_parseValue_fuel:
  "remaining r < n \<Longrightarrow> settled remaining (\<lambda>n. parseValue_fuel n propName d) n r"
  unfolding parseValue_fuel_def by (rule nv.settled_forNext) (auto intro: settled_value_step)

lemma parseValue_unbounded: "parseValue propName d = unbounded remaining (\<lambda>n. parseValue_fuel n propName d)"
  by (simp add: fun_eq_iff parseValue_def unbounded_def)

lemma bounded_parseValue: "bounded_by remaining (\<lambda>n. parseValue_fuel n propName d)"
  by (simp add: bounded_by_def settled_parseValue_fuel)

lemma parseValue_settled: "settled remaining (\<lambda>_. parseValue propName d) n r"
  using unbounded_terminates [OF bounded_parseValue] unbounded_consumes [OF bounded_parseValue]
  by (intro settled_const) (metis parseValue_unbounded prod.collapse, metis parseValue_unbounded)

lemma settled_props_step: "settled remaining (\<lambda>_. props_step token d) n r"
  unfolding props_step_def
  by (intro settled_if settled_bindE settled_gets settled_fail parseValue_settled)

lemma settled_parseProps_fuel: "remaining r < n \<Longrightarrow> settled remaining (\<lambda>n. parseProps_fuel n d) n r"
  unfolding parseProps_fuel_def by (rule nv.settled_forNext) (auto intro: settled_props_step)

lemma settled_kstat_step: "settled kstat_remaining (\<lambda>_. kstat_step name d) n r"
proof (rule settled_const)
  show "fst (kstat_step name d r) \<noteq> Inl OutOfFuel"
    by (auto simp: kstat_step_def bindE_def proc_simps wrapE_def RowDataAsUInt64_def split: option.split sum.split)
  show "kstat_remaining s' \<le> kstat_remaining r" if "kstat_step name d r = (Inr a, s')" for a s'
    using that by (auto simp: kstat_step_def bindE_def proc_simps wrapE_def RowDataAsUInt64_def
        split: option.splits sum.splits)
qed

lemma settled_parseKStat_fuel: "kstat_remaining r < n \<Longrightarrow> settled kstat_remaining (\<lambda>n. parseKStat_fuel n d) n r"
  unfolding parseKStat_fuel_def by (rule ks.settled_forNext) (auto intro: settled_kstat_step)

lemma props_total:
  "fst (parseProps d r) \<noteq> Inl OutOfFuel" "fst (parseKStat d k) \<noteq> Inl OutOfFuel"
  using settledD(1) [OF settled_parseProps_fuel, of r "Suc (remaining r)" d]
    settledD(1) [OF settled_parseKStat_fuel, of k "Suc (kstat_remaining k)" d]
  by (simp_all add: parseProps_def parseKStat_def)

lemma next_loop_value: "next_loop (value_step propName) (parseValue propName)"
  unfolding next_loop_def
  by (intro allI nv.loop_unfold [where body = "\<lambda>_. value_step propName"])
    (simp_all add: settled_value_step parseValue_def parseValue_fuel_def)

lemma next_loop_props: "next_loop props_step parseProps"
  unfolding next_loop_def
  by (intro allI nv.loop_unfold [where body = "\<lambda>_. props_step"])
    (simp_all add: settled_props_step parseProps_def parseProps_fuel_def)

section \<open>Encoded property lists\<close>

text \<open>
  What a property list says. Each property is an embedded list of leaves; of those named
  \<open>value\<close> the last one counts, and it must be a uint64 when the exporter knows the property.
\<close>

fun is_leaf :: "nvpair \<Rightarrow> bool" where
  "is_leaf (Leaf nm t n bs) = True"
| "is_leaf _ = False"

definition value_ok :: "string \<Rightarrow> nvpair \<Rightarrow> bool" where
  "value_ok propName p \<longleftrightarrow>
     is_leaf p \<and> (pair_name p = ''value'' \<and> prop_setter propName \<noteq> None \<longrightarrow> leaf_uint64 p \<noteq> None)"

definition apply_value :: "string \<Rightarrow> nvpair \<Rightarrow> datasetProps \<Rightarrow> datasetProps" where
  "apply_value propName p d =
     (case prop_setter propName of
        None \<Rightarrow> d
      | Some assign_field \<Rightarrow> if pair_name p = ''value'' then assign_field (the (leaf_uint64 p)) d else d)"

fun prop_ok :: "nvpair \<Rightarrow> bool" where
  "prop_ok (Embedded nm ps) = list_all (value_ok nm) ps"
| "prop_ok _ = False"

fun apply_prop :: "nvpair \<Rightarrow> datasetProps \<Rightarrow> datasetProps" where
  "apply_prop (Embedded nm ps) d = fold (apply_value nm) ps d"
| "apply_prop _ d = d"

lemma leaf_tail: "is_leaf p \<Longrightarrow> pair_tail p = []"
  by (cases p) simp_all

lemma value_step_pair:
  assumes r: "at_pair r p post" and ok: "value_ok propName p"
  shows "value_step propName (pair_tag p) d r = (Inr (apply_value propName p d), r)"
proof (cases "pair_name p = ''value'' \<and> prop_setter propName \<noteq> None")
  case True
  with ok obtain f w where f: "prop_setter propName = Some f" and w: "leaf_uint64 p = Some w"
    by (auto simp: value_ok_def)
  with at_pair_uint64 [OF r w] at_pair_name [OF r] True show ?thesis
    by (simp add: value_step_def bindE_gets bindE_query ret_apply apply_value_def)
next
  case False
  with at_pair_name [OF r] show ?thesis
    by (auto simp: value_step_def bindE_gets ret_apply apply_value_def split: option.split)
qed

lemma consumes_value:
  assumes "value_ok propName p"
  shows "consumes_pair (value_step propName) (apply_value propName) p"
proof (rule consumes_pairI)
  fix d r rest
  assume "before r (pair_tail p @ rest)" and "at_pair r p (pair_tail p @ rest)"
  then show "\<exists>r'. value_step propName (pair_tag p) d r = (Inr (apply_value propName p d), r') \<and> before r' rest"
    using assms value_step_pair [of r p _ propName d] leaf_tail by (auto simp: value_ok_def)
qed

interpretation value_lists: list_parser "value_step propName" "parseValue propName" "apply_value propName" "value_ok propName"
  for propName
  by unfold_locales (rule next_loop_value, rule consumes_value)

lemma consumes_prop:
  assumes "wf_pair p" and "prop_ok p"
  shows "consumes_pair props_step apply_prop p"
proof (cases p)
  case (Embedded nm ps)
  show ?thesis
  proof (rule consumes_pairI)
    fix d r rest
    assume r: "before r (pair_tail p @ rest)" and rest: "rest \<noteq> []" and at: "at_pair r p (pair_tail p @ rest)"
    have "passes (parseValue nm d) (apply_prop p d) (encode_list ps) 0"
      using value_lists.reads_list [of ps nm d] assms Embedded by simp
    moreover have "before r (encode_list ps @ rest)" and "0 < length rest" using r rest Embedded by simp_all
    ultimately obtain r' where "parseValue nm d r = (Inr (apply_prop p d), r')" and "before r' rest"
      by (rule passesD)
    then show "\<exists>r'. props_step (pair_tag p) d r = (Inr (apply_prop p d), r') \<and> before r' rest"
      using at_pair_name [OF at] Embedded by (simp add: props_step_def bindE_gets)
  qed
qed (use assms in simp_all)

interpretation prop_lists: list_parser props_step parseProps apply_prop prop_ok
  by unfold_locales (rule next_loop_props, rule consumes_prop)

section \<open>What a property list says\<close>

text \<open>
  The specification, without the parser's switch: each field of the record belongs to the property of
  its name; its value is the last \<open>value\<close> that the list gives for the property, or what it was
  when there is none.
\<close>

definition prop_names :: "string list" where
  "prop_names =
     [''objsetid'', ''available'', ''compressratio'', ''used'', ''usedbychildren'', ''usedbydataset'',
      ''usedbyrefreservation'', ''usedbysnapshots'', ''referenced'', ''refcompressratio'',
      ''logicalreferenced'', ''logicalused'']"

definition values_in :: "nvpair list \<Rightarrow> 64 word list" where
  "values_in qs = map (\<lambda>q. the (leaf_uint64 q)) (filter (\<lambda>q. pair_name q = ''value'') qs)"

fun values_of :: "string \<Rightarrow> nvpair \<Rightarrow> 64 word list" where
  "values_of name (Embedded nm qs) = (if nm = name then values_in qs else [])"
| "values_of name _ = []"

definition latest :: "string \<Rightarrow> nvpair list \<Rightarrow> 64 word \<Rightarrow> 64 word" where
  "latest name ps old = last (old # concat (map (values_of name) ps))"

definition props_listed :: "nvpair list \<Rightarrow> datasetProps \<Rightarrow> datasetProps" where
  "props_listed ps d = d
     \<lparr>objsetid := latest ''objsetid'' ps (objsetid d),
       available := latest ''available'' ps (available d),
       compressratio := latest ''compressratio'' ps (compressratio d),
       used := latest ''used'' ps (used d),
       usedbychildren := latest ''usedbychildren'' ps (usedbychildren d),
       usedbydataset := latest ''usedbydataset'' ps (usedbydataset d),
       usedbyrefreservation := latest ''usedbyrefreservation'' ps (usedbyrefreservation d),
       usedbysnapshots := latest ''usedbysnapshots'' ps (usedbysnapshots d),
       referenced := latest ''referenced'' ps (referenced d),
       refcompressratio := latest ''refcompressratio'' ps (refcompressratio d),
       logicalreferenced := latest ''logicalreferenced'' ps (logicalreferenced d),
       logicalused := latest ''logicalused'' ps (logicalused d)\<rparr>"

lemma prop_setter_names: "prop_setter name \<noteq> None \<longleftrightarrow> name \<in> set prop_names"
  by (simp add: prop_setter_def prop_names_def)

lemma prop_setterE:
  assumes "prop_setter name = Some f"
  obtains "name = ''objsetid''" "f = (\<lambda>v. objsetid_update (\<lambda>_. v))"
    | "name = ''available''" "f = (\<lambda>v. available_update (\<lambda>_. v))"
    | "name = ''compressratio''" "f = (\<lambda>v. compressratio_update (\<lambda>_. v))"
    | "name = ''used''" "f = (\<lambda>v. used_update (\<lambda>_. v))"
    | "name = ''usedbychildren''" "f = (\<lambda>v. usedbychildren_update (\<lambda>_. v))"
    | "name = ''usedbydataset''" "f = (\<lambda>v. usedbydataset_update (\<lambda>_. v))"
    | "name = ''usedbyrefreservation''" "f = (\<lambda>v. usedbyrefreservation_update (\<lambda>_. v))"
    | "name = ''usedbysnapshots''" "f = (\<lambda>v. usedbysnapshots_update (\<lambda>_. v))"
    | "name = ''referenced''" "f = (\<lambda>v. referenced_update (\<lambda>_. v))"
    | "name = ''refcompressratio''" "f = (\<lambda>v. refcompressratio_update (\<lambda>_. v))"
    | "name = ''logicalreferenced''" "f = (\<lambda>v. logicalreferenced_update (\<lambda>_. v))"
    | "name = ''logicalused''" "f = (\<lambda>v. logicalused_update (\<lambda>_. v))"
  using assms unfolding prop_setter_def by (simp split: if_split_asm)

lemma prop_setter_overwrites: "prop_setter name = Some f \<Longrightarrow> f v (f w d) = f v d"
  by (elim prop_setterE) simp_all

lemma prop_setter_commute:
  "prop_setter name = Some f \<Longrightarrow> prop_setter name' = Some g \<Longrightarrow> name \<noteq> name' \<Longrightarrow> f v (g w d) = g w (f v d)"
  by (elim prop_setterE) simp_all


lemma last_more: "last (last (x # as) # bs) = last (x # as @ bs)"
  by (cases bs) simp_all

lemma latest_Nil [simp]: "latest name [] old = old"
  by (simp add: latest_def)

lemma latest_Cons: "latest name (p # ps) old = latest name ps (latest name [p] old)"
  using last_more [of old "values_of name p"] by (simp add: latest_def)

lemma props_listed_Cons: "props_listed (p # ps) d = props_listed ps (props_listed [p] d)"
  by (simp add: props_listed_def latest_Cons [of _ p ps])

lemma values_in_simps [simp]:
  "values_in [] = []"
  "values_in (q # qs) = (if pair_name q = ''value'' then the (leaf_uint64 q) # values_in qs else values_in qs)"
  by (simp_all add: values_in_def)

lemma fold_apply_value:
  assumes "prop_setter nm = Some f"
  shows "fold (apply_value nm) qs d = (if values_in qs = [] then d else f (last (values_in qs)) d)"
proof (induction qs arbitrary: d)
  case (Cons q qs)
  have "apply_value nm q d = (if pair_name q = ''value'' then f (the (leaf_uint64 q)) d else d)"
    by (simp add: apply_value_def assms)
  then show ?case by (simp add: Cons prop_setter_overwrites [OF assms])
qed simp

lemma latest_one: "latest name [Embedded nm qs] old =
    (if nm = name \<and> values_in qs \<noteq> [] then last (values_in qs) else old)"
  by (simp add: latest_def)

lemma apply_prop_listed: "apply_prop (Embedded nm qs) d = props_listed [Embedded nm qs] d"
proof (cases "prop_setter nm")
  case None
  have "fold (apply_value nm) qs d = d" by (induction qs) (simp_all add: apply_value_def None)
  moreover have "nm \<notin> set prop_names" using None prop_setter_names by blast
  ultimately show ?thesis by (simp add: props_listed_def latest_one prop_names_def)
next
  case (Some f)
  from fold_apply_value [OF Some, of qs d] Some show ?thesis
    by (elim prop_setterE) (simp_all add: props_listed_def latest_one)
qed

lemma fold_props_listed: "list_all prop_ok ps \<Longrightarrow> fold apply_prop ps d = props_listed ps d"
proof (induction ps arbitrary: d)
  case (Cons p ps)
  then show ?case
    by (cases p) (simp_all add: apply_prop_listed props_listed_Cons [of _ ps] del: apply_prop.simps(1))
qed (simp add: props_listed_def)

text \<open>A pair at the top that is not a list, or a known value that is not a uint64, is an error.\<close>

lemma props_step_not_list:
  "token \<noteq> TypeNvlist \<Longrightarrow>
   props_step token d r = (Inl (Err (ErrorfArg ''expected nvlist, got %v'' (NVType_String token))), r)"
  by (simp add: props_step_def fail_apply)

lemma value_step_wrong_type:
  "Name r = ''value'' \<Longrightarrow> prop_setter propName = Some f \<Longrightarrow> token \<noteq> TypeUint64 \<Longrightarrow>
   value_step propName token d r = (Inl (Err (Errorf (''invalid type for '' @ propName))), r)"
  by (simp add: value_step_def bindE_gets fail_apply)

section \<open>Kstat tables\<close>

definition counter_ok :: "kstat_row \<Rightarrow> bool" where
  "counter_ok w \<longleftrightarrow> (kstat_setter (row_name w) \<noteq> None \<longrightarrow> (\<exists>n. ParseUint (row_data w) 64 = Inr n))"

definition apply_row :: "kstat_row \<Rightarrow> datasetProps \<Rightarrow> datasetProps" where
  "apply_row w d =
     (case kstat_setter (row_name w) of
        None \<Rightarrow> d
      | Some assign_field \<Rightarrow> assign_field (word_of_nat (decimal_value (row_data w))) d)"

text \<open>What a table says: each counter is the number in the last row of its name.\<close>

definition counters_of :: "string \<Rightarrow> kstat_row list \<Rightarrow> 64 word list" where
  "counters_of name rows = map (\<lambda>w. word_of_nat (decimal_value (row_data w))) (filter (\<lambda>w. row_name w = name) rows)"

definition latest_counter :: "string \<Rightarrow> kstat_row list \<Rightarrow> 64 word \<Rightarrow> 64 word" where
  "latest_counter name rows old = last (old # counters_of name rows)"

definition counters_listed :: "kstat_row list \<Rightarrow> datasetProps \<Rightarrow> datasetProps" where
  "counters_listed rows d = d
     \<lparr>writes := latest_counter ''writes'' rows (writes d),
       nwritten := latest_counter ''nwritten'' rows (nwritten d),
       reads := latest_counter ''reads'' rows (reads d),
       nread := latest_counter ''nread'' rows (nread d),
       nunlinks := latest_counter ''nunlinks'' rows (nunlinks d),
       nunlinked := latest_counter ''nunlinked'' rows (nunlinked d)\<rparr>"

lemma kstat_setterE:
  assumes "kstat_setter name = Some f"
  obtains "name = ''writes''" "f = (\<lambda>v. writes_update (\<lambda>_. v))"
    | "name = ''nwritten''" "f = (\<lambda>v. nwritten_update (\<lambda>_. v))"
    | "name = ''reads''" "f = (\<lambda>v. reads_update (\<lambda>_. v))"
    | "name = ''nread''" "f = (\<lambda>v. nread_update (\<lambda>_. v))"
    | "name = ''nunlinks''" "f = (\<lambda>v. nunlinks_update (\<lambda>_. v))"
    | "name = ''nunlinked''" "f = (\<lambda>v. nunlinked_update (\<lambda>_. v))"
  using assms unfolding kstat_setter_def by (simp split: if_split_asm)

lemma kstat_setter_unknown: "kstat_setter name = None \<longleftrightarrow> name \<notin> {''writes'', ''nwritten'', ''reads'', ''nread'', ''nunlinks'', ''nunlinked''}"
  by (simp add: kstat_setter_def)

lemma latest_counter_Cons: "latest_counter name (w # rows) old =
    latest_counter name rows (if row_name w = name then word_of_nat (decimal_value (row_data w)) else old)"
  by (simp add: latest_counter_def counters_of_def)

lemma counters_listed_Cons: "counters_listed (w # rows) d = counters_listed rows (apply_row w d)"
proof (cases "kstat_setter (row_name w)")
  case None
  then have "apply_row w d = d" by (simp add: apply_row_def)
  with None show ?thesis
    unfolding kstat_setter_unknown by (simp add: counters_listed_def latest_counter_Cons)
next
  case (Some f)
  then have "apply_row w d = f (word_of_nat (decimal_value (row_data w))) d" by (simp add: apply_row_def)
  with Some show ?thesis
    by (elim kstat_setterE) (simp_all add: counters_listed_def latest_counter_Cons)
qed

lemma fold_counters_listed: "fold apply_row rows d = counters_listed rows d"
proof (induction rows arbitrary: d)
  case Nil
  show ?case by (simp add: counters_listed_def latest_counter_def counters_of_def)
qed (simp add: counters_listed_Cons)

lemma kstat_step_row:
  assumes "RowData r = row_data w" and "counter_ok w"
  shows "kstat_step (row_name w) d r = (Inr (apply_row w d), r)"
proof (cases "kstat_setter (row_name w)")
  case None
  then show ?thesis by (simp add: kstat_step_def apply_row_def ret_apply)
next
  case (Some f)
  with assms(2) obtain n where n: "ParseUint (row_data w) 64 = Inr n" by (auto simp: counter_ok_def)
  then have "n = decimal_value (row_data w)" by (simp add: ParseUint_Inr)
  with n Some assms(1) show ?thesis
    by (simp add: kstat_step_def apply_row_def bindE_def wrapE_def query_apply RowDataAsUInt64_def ret_apply)
qed

lemma parseKStat_text:
  assumes h: "wf_header h" "ParseInt (hdr_type h) 32 = Inr t" "(word_of_int t :: 8 word) = 1"
    and rows: "list_all wf_row rows" "list_all counter_ok rows"
  shows "\<exists>r'. parseKStat d (new_kstat_reader (kstat_text h pads rows)) = (Inr (fold apply_row rows d), r')"
proof -
  let ?r = "new_kstat_reader (kstat_text h pads rows)"
  have "kstat_remaining ?r = length (kstat_text h pads rows)"
    by (simp add: kstat_remaining_def new_kstat_reader_def)
  then show ?thesis unfolding parseKStat_def parseKStat_fuel_def
    by (intro kstat_text_loop [OF _ h rows(1)]) (use rows(2) in \<open>auto simp: list_all_iff kstat_step_row\<close>)
qed

end
