(* ===== verification/Metrics.thy ===== *)
theory Metrics
  imports Vdevs Dataset_Props Go_Float
begin

text \<open>
  main.go, the metrics: \<open>zfsCollector\<close> with its descriptors, \<open>describe\<close>, \<open>export\<close>,
  \<open>handleVdev\<close> and \<open>handleDataset\<close>. The Prometheus client library is a parameter of the
  model: its descriptors and metrics are values of types \<open>'d\<close> and \<open>'m\<close>, and \<open>NewDesc\<close> and
  \<open>NewConstMetric\<close> are the two functions the exporter calls. A channel is the list of what was
  sent on it; the exporter also runs with a nil channel, on which it sends nothing.

  Shown here: every metric that the handlers export carries as many label values as its
  descriptor has label names, so that a library that checks no more than that never makes a
  handler fail; the handlers send exactly the metrics that the specification lists, in that
  order; of the state gauges of a vdev exactly one is 1.
\<close>

section \<open>The client library\<close>

datatype ValueType = CounterValue | GaugeValue

record ('d, 'm) prometheus =
  NewDesc :: "string \<Rightarrow> string \<Rightarrow> string list \<Rightarrow> 'd"
  NewConstMetric :: "'d \<Rightarrow> ValueType \<Rightarrow> float64 \<Rightarrow> string list \<Rightarrow> error + 'm"

text \<open>A channel, nil or not, with what has been sent.\<close>

record 'a chan =
  chan_open :: bool
  sent :: "'a list"

text \<open>\<open>if ch != nil { *ch <- x }\<close>\<close>

definition send :: "'a \<Rightarrow> ('a chan, unit) proc" where
  "send x ch = (Inr (), if chan_open ch then ch\<lparr>sent := sent ch @ [x]\<rparr> else ch)"

definition new_metric ::
  "('d, 'm) prometheus \<Rightarrow> 'd \<Rightarrow> ValueType \<Rightarrow> float64 \<Rightarrow> string list \<Rightarrow> ('m chan, 'm) proc" where
  "new_metric P d vt v labels =
     query (\<lambda>_. case NewConstMetric P d vt v labels of Inl e \<Rightarrow> Inl (Err e) | Inr m \<Rightarrow> Inr m)"

text \<open>The message of \<open>export\<close> also prints the descriptor.\<close>

definition export ::
  "('d, 'm) prometheus \<Rightarrow> 'd \<Rightarrow> ValueType \<Rightarrow> float64 \<Rightarrow> string list \<Rightarrow> ('m chan, unit) proc" where
  "export P d vt v labels =
     bindE (wrapE ''error exporting metric %v: %w'' (new_metric P d vt v labels)) send"

section \<open>Descriptors\<close>

record 'd zfsCollector =
  poolState :: "'d"
  poolErrorCount :: "'d"
  poolVdevState :: "'d"
  poolVdevAllocSpaceDesc :: "'d"
  poolVdevTotalSpaceDesc :: "'d"
  poolVdevDefSpaceDesc :: "'d"
  poolVdevRepDevSizeDesc :: "'d"
  poolVdevPhysSpace :: "'d"
  poolVdevReadOps :: "'d"
  poolVdevReadBytes :: "'d"
  poolVdevReadErrors :: "'d"
  poolVdevWriteOps :: "'d"
  poolVdevWriteBytes :: "'d"
  poolVdevWriteErrors :: "'d"
  poolVdevChechsumErrors :: "'d"
  poolVdevSlowIos :: "'d"
  datasetAvailable :: "'d"
  datasetCompressRatio :: "'d"
  datasetUsed :: "'d"
  datasetUsedByChildren :: "'d"
  datasetUsedByDataset :: "'d"
  datasetUsedByRefReservation :: "'d"
  datasetUsedBySnapshots :: "'d"
  datasetReferenced :: "'d"
  datasetRefCompressRatio :: "'d"
  datasetLogicalReferenced :: "'d"
  datasetLogicalUsed :: "'d"
  datasetWrites :: "'d"
  datasetNWritten :: "'d"
  datasetReads :: "'d"
  datasetNRead :: "'d"
  datasetUnlinks :: "'d"
  datasetNUnlinked :: "'d"

text \<open>\<open>describe(ch, &c.field, prometheus.NewDesc(name, "", labels, nil))\<close>\<close>

record 'd describing =
  collector :: "'d zfsCollector"
  descs :: "'d chan"

type_synonym 'd field_update = "('d \<Rightarrow> 'd) \<Rightarrow> 'd zfsCollector \<Rightarrow> 'd zfsCollector"

definition describe_field ::
  "('d, 'm) prometheus \<Rightarrow> 'd field_update \<Rightarrow> string \<Rightarrow> string list \<Rightarrow> ('d describing, unit) proc" where
  "describe_field P upd name labels =
     bindE (modify (collector_update (upd (\<lambda>_. NewDesc P name [] labels)))) (\<lambda>_.
     on_part descs (\<lambda>ch. descs_update (\<lambda>_. ch)) (send (NewDesc P name [] labels)))"

definition vdev_labels :: "string list" where
  "vdev_labels = [''pool'', ''vdev'', ''vdev_type'']"

definition dataset_labels :: "string list" where
  "dataset_labels = [''name'', ''pool'']"

text \<open>The calls of \<open>(*zfsCollector).describe\<close> in their order: field, name and label names.\<close>

definition descriptors :: "('d field_update \<times> string \<times> string list) list" where
  "descriptors =
    [(poolState_update, ''zfs_pool_state'', [''pool'', ''state'']),
     (poolErrorCount_update, ''zfs_pool_error_count'', [''pool'']),
     (poolVdevState_update, ''zfs_pool_vdev_state'', [''pool'', ''vdev'', ''vdev_type'', ''state'']),
     (poolVdevAllocSpaceDesc_update, ''zfs_pool_vdev_alloc_space'', vdev_labels),
     (poolVdevTotalSpaceDesc_update, ''zfs_pool_vdev_total_space'', vdev_labels),
     (poolVdevDefSpaceDesc_update, ''zfs_pool_vdev_def_space'', vdev_labels),
     (poolVdevRepDevSizeDesc_update, ''zfs_pool_vdev_rep_dev_size'', vdev_labels),
     (poolVdevPhysSpace_update, ''zfs_pool_vdev_phys_space'', vdev_labels),
     (poolVdevReadOps_update, ''zfs_pool_vdev_read_ops'', vdev_labels),
     (poolVdevReadBytes_update, ''zfs_pool_vdev_read_bytes'', vdev_labels),
     (poolVdevReadErrors_update, ''zfs_pool_vdev_read_errors'', vdev_labels),
     (poolVdevWriteOps_update, ''zfs_pool_vdev_write_ops'', vdev_labels),
     (poolVdevWriteBytes_update, ''zfs_pool_vdev_write_bytes'', vdev_labels),
     (poolVdevWriteErrors_update, ''zfs_pool_vdev_write_errors'', vdev_labels),
     (poolVdevChechsumErrors_update, ''zfs_pool_vdev_checksum_errors'', vdev_labels),
     (poolVdevSlowIos_update, ''zfs_pool_vdev_slow_ios'', vdev_labels),
     (datasetAvailable_update, ''zfs_dataset_available'', dataset_labels),
     (datasetCompressRatio_update, ''zfs_dataset_compress_ratio'', dataset_labels),
     (datasetUsed_update, ''zfs_dataset_used'', dataset_labels),
     (datasetUsedByChildren_update, ''zfs_dataset_used_by_children'', dataset_labels),
     (datasetUsedByDataset_update, ''zfs_dataset_used_by_dataset'', dataset_labels),
     (datasetUsedByRefReservation_update, ''zfs_dataset_used_by_ref_reservation'', dataset_labels),
     (datasetUsedBySnapshots_update, ''zfs_dataset_used_by_snapshots'', dataset_labels),
     (datasetReferenced_update, ''zfs_dataset_referenced'', dataset_labels),
     (datasetRefCompressRatio_update, ''zfs_dataset_ref_compress_ratio'', dataset_labels),
     (datasetLogicalReferenced_update, ''zfs_dataset_logical_referenced'', dataset_labels),
     (datasetLogicalUsed_update, ''zfs_dataset_logical_used'', dataset_labels),
     (datasetWrites_update, ''zfs_dataset_writes'', dataset_labels),
     (datasetNWritten_update, ''zfs_dataset_nwritten'', dataset_labels),
     (datasetReads_update, ''zfs_dataset_reads'', dataset_labels),
     (datasetNRead_update, ''zfs_dataset_nread'', dataset_labels),
     (datasetUnlinks_update, ''zfs_dataset_nunlinks'', dataset_labels),
     (datasetNUnlinked_update, ''zfs_dataset_nunlinked'', dataset_labels)]"

definition describe :: "('d, 'm) prometheus \<Rightarrow> ('d describing, unit) proc" where
  "describe P = forE descriptors (\<lambda>(upd, name, labels). describe_field P upd name labels)"

text \<open>\<open>Describe\<close> runs it on the registry's channel.\<close>

definition Describe :: "('d, 'm) prometheus \<Rightarrow> 'd zfsCollector \<Rightarrow> 'd chan \<Rightarrow> 'd zfsCollector \<times> 'd chan" where
  "Describe P c ch =
     (case snd (describe P \<lparr>collector = c, descs = ch\<rparr>) of s \<Rightarrow> (collector s, descs s))"

section \<open>Vdevs\<close>

definition vdev_name :: "string \<Rightarrow> string \<Rightarrow> vdev \<Rightarrow> string" where
  "vdev_name pool prefix v = prefix @
     (if vpath v \<noteq> [] then path_Base (vpath v)
      else if vdevType v = ''root'' then pool
      else vdevType v @ ''-'' @ show_nat (unat (vid v)))"

text \<open>The nine values exported for a vdev, with their descriptors.\<close>

definition vdev_values :: "'d zfsCollector \<Rightarrow> vdevStats \<Rightarrow> ('d \<times> ValueType \<times> float64) list" where
  "vdev_values c s =
    [(poolVdevAllocSpaceDesc c, GaugeValue, float64_of (alloc s)),
     (poolVdevTotalSpaceDesc c, GaugeValue, float64_of (vsize s)),
     (poolVdevReadOps c, CounterValue, float64_of (readOperations s)),
     (poolVdevReadBytes c, CounterValue, float64_of (bytesRead s)),
     (poolVdevReadErrors c, CounterValue, float64_of (readErrors s)),
     (poolVdevWriteOps c, CounterValue, float64_of (writeOperations s)),
     (poolVdevWriteBytes c, CounterValue, float64_of (bytesWritten s)),
     (poolVdevWriteErrors c, CounterValue, float64_of (writeErrors s)),
     (poolVdevChechsumErrors c, CounterValue, float64_of (checksumErrors s))]"

definition gauge :: "string \<Rightarrow> string \<Rightarrow> float64" where
  "gauge state current = (if state = current then float_1 else float_0)"

fun handleVdev ::
  "('d, 'm) prometheus \<Rightarrow> 'd zfsCollector \<Rightarrow> string \<Rightarrow> string \<Rightarrow> vdev \<Rightarrow> ('m chan, unit) proc" where
  "handleVdev P c pool prefix (Vdev ty i p cs st) =
     (let name = vdev_name pool prefix (Vdev ty i p cs st); labels = [pool, name, ty] in
      bindE (forE VDevStates (\<lambda>state.
        bindE (new_metric P (poolVdevState c) GaugeValue (gauge state (vstate st)) [pool, name, ty, state]) send)) (\<lambda>_.
      bindE (forE (vdev_values c st) (\<lambda>(d, vt, v). export P d vt v labels)) (\<lambda>_.
      forE cs (handleVdev P c pool (name @ ''/'')))))"

section \<open>Datasets\<close>

definition dataset_values :: "'d zfsCollector \<Rightarrow> datasetProps \<Rightarrow> ('d \<times> ValueType \<times> float64) list" where
  "dataset_values c props =
    [(datasetAvailable c, GaugeValue, float64_of (available props)),
     (datasetCompressRatio c, GaugeValue, div_100 (float64_of (compressratio props))),
     (datasetUsed c, GaugeValue, float64_of (used props)),
     (datasetUsedByChildren c, GaugeValue, float64_of (usedbychildren props)),
     (datasetUsedByDataset c, GaugeValue, float64_of (usedbydataset props)),
     (datasetUsedByRefReservation c, GaugeValue, float64_of (usedbyrefreservation props)),
     (datasetUsedBySnapshots c, GaugeValue, float64_of (usedbysnapshots props)),
     (datasetReferenced c, GaugeValue, float64_of (referenced props)),
     (datasetRefCompressRatio c, GaugeValue, div_100 (float64_of (refcompressratio props))),
     (datasetLogicalReferenced c, GaugeValue, float64_of (logicalreferenced props)),
     (datasetLogicalUsed c, GaugeValue, float64_of (logicalused props)),
     (datasetWrites c, CounterValue, float64_of (writes props)),
     (datasetNWritten c, CounterValue, float64_of (nwritten props)),
     (datasetReads c, CounterValue, float64_of (reads props)),
     (datasetNRead c, CounterValue, float64_of (nread props)),
     (datasetUnlinks c, CounterValue, float64_of (nunlinks props)),
     (datasetNUnlinked c, CounterValue, float64_of (nunlinked props))]"

definition handleDataset ::
  "('d, 'm) prometheus \<Rightarrow> 'd zfsCollector \<Rightarrow> string \<Rightarrow> string \<Rightarrow> datasetProps \<Rightarrow> ('m chan, unit) proc" where
  "handleDataset P c pool name props =
     forE (dataset_values c props) (\<lambda>(d, vt, v). export P d vt v [name, pool])"

section \<open>Exports as lists\<close>

text \<open>
  What a handler exports, as a flat list in the order of the code: whether the error is
  wrapped by \<open>export\<close>, and the arguments of \<open>NewConstMetric\<close>.
\<close>

type_synonym 'd item = "bool \<times> 'd \<times> ValueType \<times> float64 \<times> string list"

definition emit :: "('d, 'm) prometheus \<Rightarrow> 'd item \<Rightarrow> ('m chan, unit) proc" where
  "emit P = (\<lambda>(wrapped, d, vt, v, labels).
     if wrapped then export P d vt v labels else bindE (new_metric P d vt v labels) send)"

definition state_items :: "'d zfsCollector \<Rightarrow> string list \<Rightarrow> vdevStats \<Rightarrow> 'd item list" where
  "state_items c labels st =
     map (\<lambda>state. (False, poolVdevState c, GaugeValue, gauge state (vstate st), labels @ [state])) VDevStates"

definition value_items :: "string list \<Rightarrow> ('d \<times> ValueType \<times> float64) list \<Rightarrow> 'd item list" where
  "value_items labels = map (\<lambda>(d, vt, v). (True, d, vt, v, labels))"

fun vdev_items :: "'d zfsCollector \<Rightarrow> string \<Rightarrow> string \<Rightarrow> vdev \<Rightarrow> 'd item list" where
  "vdev_items c pool prefix (Vdev ty i p cs st) =
     (let name = vdev_name pool prefix (Vdev ty i p cs st); labels = [pool, name, ty] in
      state_items c labels st @ value_items labels (vdev_values c st) @
      concat (map (vdev_items c pool (name @ ''/'')) cs))"

definition dataset_items :: "'d zfsCollector \<Rightarrow> string \<Rightarrow> string \<Rightarrow> datasetProps \<Rightarrow> 'd item list" where
  "dataset_items c pool name props = value_items [name, pool] (dataset_values c props)"

lemma forE_map: "forE (map h xs) f = forE xs (\<lambda>x. f (h x))"
  by (induction xs) simp_all

lemma forE_concat: "forE (concat xss) f s = forE xss (\<lambda>xs. forE xs f) s"
  by (induction xss arbitrary: s) (auto simp: forE_append intro!: bindE_cong)

lemma emit_values:
  "forE (value_items labels vs) (emit P) = forE vs (\<lambda>(d, vt, v). export P d vt v labels)"
  unfolding value_items_def forE_map by (rule forE_cong) (auto simp: emit_def)

lemma emit_states:
  "forE (state_items c [pool, name, ty] st) (emit P) = forE VDevStates (\<lambda>state.
     bindE (new_metric P (poolVdevState c) GaugeValue (gauge state (vstate st)) [pool, name, ty, state]) send)"
  unfolding state_items_def forE_map by (rule forE_cong) (auto simp: emit_def)

lemma handleVdev_items: "handleVdev P c pool prefix v = forE (vdev_items c pool prefix v) (emit P)"
proof (induction v arbitrary: prefix)
  case (Vdev ty i p cs st)
  define name where "name = vdev_name pool prefix (Vdev ty i p cs st)"
  have rec: "forE cs (handleVdev P c pool (name @ ''/'')) =
      forE cs (\<lambda>v. forE (vdev_items c pool (name @ ''/'') v) (emit P))"
    using Vdev by (intro forE_cong) auto
  show ?case
    by (auto simp: fun_eq_iff name_def [symmetric] Let_def forE_append forE_concat forE_map emit_values
        emit_states rec intro!: bindE_cong)
qed

lemma handleDataset_items: "handleDataset P c pool name props = forE (dataset_items c pool name props) (emit P)"
  by (simp add: handleDataset_def dataset_items_def emit_values)

text \<open>What happens to a list of items: all are sent, or the first that the library refuses ends it.\<close>

definition send_all :: "'a list \<Rightarrow> 'a chan \<Rightarrow> 'a chan" where
  "send_all xs ch = (if chan_open ch then ch\<lparr>sent := sent ch @ xs\<rparr> else ch)"

definition accepts :: "('d, 'm) prometheus \<Rightarrow> 'd item \<Rightarrow> 'm \<Rightarrow> bool" where
  "accepts P = (\<lambda>(w, d, vt, v, labels) m. NewConstMetric P d vt v labels = Inr m)"

lemma send_all_Nil [simp]: "send_all [] ch = ch"
  by (simp add: send_all_def)

lemma send_all_append: "send_all ys (send_all xs ch) = send_all (xs @ ys) ch"
  by (simp add: send_all_def)

lemma emit_accepted: "accepts P item m \<Longrightarrow> emit P item ch = (Inr (), send_all [m] ch)"
  by (cases item) (auto simp: accepts_def emit_def export_def new_metric_def send_def send_all_def
      bindE_def wrapE_def query_apply)

lemma emit_all: "list_all2 (accepts P) items ms \<Longrightarrow> forE items (emit P) ch = (Inr (), send_all ms ch)"
  by (induction items ms arbitrary: ch rule: list_all2_induct)
    (auto simp: ret_apply bindE_Inr emit_accepted send_all_append)

lemma emit_refused:
  assumes "list_all2 (accepts P) items ms" and "NewConstMetric P d vt v labels = Inl e"
  shows "forE (items @ (w, d, vt, v, labels) # rest) (emit P) ch =
    (Inl (Err (if w then Wrapf ''error exporting metric %v: %w'' e else e)), send_all ms ch)"
  using assms by (simp add: forE_append bindE_Inr emit_all)
    (simp add: emit_def export_def new_metric_def bindE_def wrapE_def query_apply)

section \<open>Arities\<close>

text \<open>The collector with the descriptors that \<open>describe\<close> gives it.\<close>

definition described :: "('d, 'm) prometheus \<Rightarrow> 'd zfsCollector" where
  "described P =
     \<lparr>poolState = NewDesc P ''zfs_pool_state'' [] [''pool'', ''state''],
      poolErrorCount = NewDesc P ''zfs_pool_error_count'' [] [''pool''],
      poolVdevState = NewDesc P ''zfs_pool_vdev_state'' [] [''pool'', ''vdev'', ''vdev_type'', ''state''],
      poolVdevAllocSpaceDesc = NewDesc P ''zfs_pool_vdev_alloc_space'' [] vdev_labels,
      poolVdevTotalSpaceDesc = NewDesc P ''zfs_pool_vdev_total_space'' [] vdev_labels,
      poolVdevDefSpaceDesc = NewDesc P ''zfs_pool_vdev_def_space'' [] vdev_labels,
      poolVdevRepDevSizeDesc = NewDesc P ''zfs_pool_vdev_rep_dev_size'' [] vdev_labels,
      poolVdevPhysSpace = NewDesc P ''zfs_pool_vdev_phys_space'' [] vdev_labels,
      poolVdevReadOps = NewDesc P ''zfs_pool_vdev_read_ops'' [] vdev_labels,
      poolVdevReadBytes = NewDesc P ''zfs_pool_vdev_read_bytes'' [] vdev_labels,
      poolVdevReadErrors = NewDesc P ''zfs_pool_vdev_read_errors'' [] vdev_labels,
      poolVdevWriteOps = NewDesc P ''zfs_pool_vdev_write_ops'' [] vdev_labels,
      poolVdevWriteBytes = NewDesc P ''zfs_pool_vdev_write_bytes'' [] vdev_labels,
      poolVdevWriteErrors = NewDesc P ''zfs_pool_vdev_write_errors'' [] vdev_labels,
      poolVdevChechsumErrors = NewDesc P ''zfs_pool_vdev_checksum_errors'' [] vdev_labels,
      poolVdevSlowIos = NewDesc P ''zfs_pool_vdev_slow_ios'' [] vdev_labels,
      datasetAvailable = NewDesc P ''zfs_dataset_available'' [] dataset_labels,
      datasetCompressRatio = NewDesc P ''zfs_dataset_compress_ratio'' [] dataset_labels,
      datasetUsed = NewDesc P ''zfs_dataset_used'' [] dataset_labels,
      datasetUsedByChildren = NewDesc P ''zfs_dataset_used_by_children'' [] dataset_labels,
      datasetUsedByDataset = NewDesc P ''zfs_dataset_used_by_dataset'' [] dataset_labels,
      datasetUsedByRefReservation = NewDesc P ''zfs_dataset_used_by_ref_reservation'' [] dataset_labels,
      datasetUsedBySnapshots = NewDesc P ''zfs_dataset_used_by_snapshots'' [] dataset_labels,
      datasetReferenced = NewDesc P ''zfs_dataset_referenced'' [] dataset_labels,
      datasetRefCompressRatio = NewDesc P ''zfs_dataset_ref_compress_ratio'' [] dataset_labels,
      datasetLogicalReferenced = NewDesc P ''zfs_dataset_logical_referenced'' [] dataset_labels,
      datasetLogicalUsed = NewDesc P ''zfs_dataset_logical_used'' [] dataset_labels,
      datasetWrites = NewDesc P ''zfs_dataset_writes'' [] dataset_labels,
      datasetNWritten = NewDesc P ''zfs_dataset_nwritten'' [] dataset_labels,
      datasetReads = NewDesc P ''zfs_dataset_reads'' [] dataset_labels,
      datasetNRead = NewDesc P ''zfs_dataset_nread'' [] dataset_labels,
      datasetUnlinks = NewDesc P ''zfs_dataset_nunlinks'' [] dataset_labels,
      datasetNUnlinked = NewDesc P ''zfs_dataset_nunlinked'' [] dataset_labels\<rparr>"

lemma describe_field_eq:
  "describe_field P upd name labels s = (Inr (),
     s\<lparr>collector := upd (\<lambda>_. NewDesc P name [] labels) (collector s),
       descs := send_all [NewDesc P name [] labels] (descs s)\<rparr>)"
  by (simp add: describe_field_def bindE_modify on_part_def send_def send_all_def)

definition set_fields :: "('d, 'm) prometheus \<Rightarrow> ('d field_update \<times> string \<times> string list) list \<Rightarrow> 'd zfsCollector \<Rightarrow> 'd zfsCollector" where
  "set_fields P = fold (\<lambda>(upd, name, labels). upd (\<lambda>_. NewDesc P name [] labels))"

lemma describe_fields:
  "forE fs (\<lambda>(upd, name, labels). describe_field P upd name labels) s =
     (Inr (), s\<lparr>collector := set_fields P fs (collector s),
        descs := send_all (map (\<lambda>(upd, name, labels). NewDesc P name [] labels) fs) (descs s)\<rparr>)"
proof (induction fs arbitrary: s)
  case Nil
  show ?case by (simp add: ret_apply set_fields_def)
next
  case (Cons f fs)
  obtain upd name labels where f: "f = (upd, name, labels)" by (cases f)
  show ?case
    by (simp add: f bindE_Inr [OF describe_field_eq] Cons set_fields_def send_all_append)
qed

lemma set_descriptors: "set_fields P descriptors c = described P"
  by (simp add: set_fields_def descriptors_def described_def)

definition described_list :: "('d, 'm) prometheus \<Rightarrow> 'd list" where
  "described_list P = map (\<lambda>(upd, name, labels). NewDesc P name [] labels) (descriptors :: ('d field_update \<times> string \<times> string list) list)"

lemma Describe_eq: "Describe P c ch = (described P, send_all (described_list P) ch)"
  by (simp add: Describe_def describe_def describe_fields set_descriptors described_list_def)

text \<open>
  A library that accepts a metric when the number of its label values is the number of the label
  names of its descriptor (and may refuse it otherwise).
\<close>

definition checks_arity :: "('d, 'm) prometheus \<Rightarrow> bool" where
  "checks_arity P \<longleftrightarrow> (\<forall>name labels vt v vs. length vs = length labels \<longrightarrow>
     (\<exists>m. NewConstMetric P (NewDesc P name [] labels) vt v vs = Inr m))"

definition item_fits :: "('d, 'm) prometheus \<Rightarrow> 'd item \<Rightarrow> bool" where
  "item_fits P = (\<lambda>(w, d, vt, v, vs). \<exists>name labels. d = NewDesc P name [] labels \<and> length vs = length labels)"

lemma fitting_accepted: "checks_arity P \<Longrightarrow> item_fits P item \<Longrightarrow> \<exists>m. accepts P item m"
  by (cases item) (fastforce simp: checks_arity_def item_fits_def accepts_def)

lemma fitting_all:
  "checks_arity P \<Longrightarrow> list_all (item_fits P) items \<Longrightarrow> \<exists>ms. list_all2 (accepts P) items ms"
proof (induction items)
  case (Cons item items)
  then obtain ms m where "list_all2 (accepts P) items ms" and "accepts P item m"
    using fitting_accepted by fastforce
  then show ?case by (intro exI [of _ "m # ms"]) simp
qed (intro exI [of _ "[]"], simp)

lemma item_fits_I: "d = NewDesc P name [] labels \<Longrightarrow> length vs = length labels \<Longrightarrow> item_fits P (w, d, vt, v, vs)"
  by (auto simp: item_fits_def)

lemma dataset_items_fit: "list_all (item_fits P) (dataset_items (described P) pool name props)"
  unfolding dataset_items_def value_items_def dataset_values_def described_def
  by (simp add: item_fits_I [OF refl] dataset_labels_def)

lemma vdev_items_fit: "list_all (item_fits P) (vdev_items (described P) pool prefix v)"
proof (induction v arbitrary: prefix)
  case (Vdev ty i p cs st)
  have "list_all (item_fits P) (state_items (described P) [pool, name, ty] st)" for name
    unfolding state_items_def described_def
    by (auto simp: list_all_iff intro!: item_fits_I [OF refl])
  moreover have "list_all (item_fits P) (value_items [pool, name, ty] (vdev_values (described P) st))" for name
    unfolding value_items_def vdev_values_def described_def
    by (simp add: item_fits_I [OF refl] vdev_labels_def)
  ultimately show ?case using Vdev by (auto simp: Let_def list_all_iff)
qed

section \<open>Vdev names\<close>

text \<open>
  The \<open>vdev\<close> label is the path of local names from the root, joined by slashes. When the local
  names of siblings differ and contain no slash, no two vdevs of a pool share a label, as
  the registry demands of the series of a metric.
\<close>

fun vdev_names_of :: "string \<Rightarrow> string \<Rightarrow> vdev \<Rightarrow> string list" where
  "vdev_names_of pool prefix (Vdev ty i p cs st) =
     (let name = vdev_name pool prefix (Vdev ty i p cs st)
      in name # concat (map (vdev_names_of pool (name @ ''/'')) cs))"

definition local_name :: "string \<Rightarrow> vdev \<Rightarrow> string" where
  "local_name pool v = vdev_name pool [] v"

fun siblings_differ :: "string \<Rightarrow> vdev \<Rightarrow> bool" where
  "siblings_differ pool (Vdev ty i p cs st) \<longleftrightarrow>
     distinct (map (local_name pool) cs) \<and> list_all (\<lambda>v. CHR ''/'' \<notin> set (local_name pool v)) cs \<and>
     list_all (siblings_differ pool) cs"

lemma vdev_name_prefix: "vdev_name pool prefix v = prefix @ local_name pool v"
  by (simp add: local_name_def vdev_name_def)

lemma vdev_names_prefix:
  "x \<in> set (vdev_names_of pool prefix v) \<Longrightarrow>
   \<exists>s. x = prefix @ local_name pool v @ s \<and> (s = [] \<or> hd s = CHR ''/'')"
proof (induction v arbitrary: prefix x)
  case (Vdev ty i p cs st)
  let ?v = "Vdev ty i p cs st"
  consider "x = prefix @ local_name pool ?v"
    | c where "c \<in> set cs" "x \<in> set (vdev_names_of pool (prefix @ local_name pool ?v @ ''/'') c)"
    using Vdev.prems by (auto simp: Let_def vdev_name_prefix)
  then show ?case
  proof cases
    case 2
    from Vdev.IH [OF this] obtain s where "x = prefix @ local_name pool ?v @ ''/'' @ local_name pool c @ s"
      by auto
    then show ?thesis by (intro exI [of _ "''/'' @ local_name pool c @ s"]) simp
  qed auto
qed

lemma slash_split:
  assumes "a @ s = b @ s'" and "CHR ''/'' \<notin> set a" and "CHR ''/'' \<notin> set b"
    and "s = [] \<or> hd s = CHR ''/''" and "s' = [] \<or> hd s' = CHR ''/''"
  shows "a = b"
proof -
  have "takeWhile (\<lambda>c. c \<noteq> CHR ''/'') (x @ y) = x" if "CHR ''/'' \<notin> set x" "y = [] \<or> hd y = CHR ''/''" for x y
    using that by (cases y) (auto simp: takeWhile_append takeWhile_eq_all_conv)
  with assms show ?thesis by metis
qed

lemma distinct_concat_map:
  assumes "\<And>x. x \<in> set xs \<Longrightarrow> distinct (f x)" and "distinct (map key xs)"
    and "\<And>x y z. x \<in> set xs \<Longrightarrow> y \<in> set xs \<Longrightarrow> z \<in> set (f x) \<Longrightarrow> z \<in> set (f y) \<Longrightarrow> key x = key y"
  shows "distinct (concat (map f xs))"
  using assms
proof (induction xs)
  case (Cons x xs)
  have "z \<notin> set (concat (map f xs))" if z: "z \<in> set (f x)" for z
  proof
    assume "z \<in> set (concat (map f xs))"
    then obtain y where y: "y \<in> set xs" "z \<in> set (f y)" by auto
    with Cons.prems(3) [of x y z] z have "key x = key y" by simp
    with y(1) Cons.prems(2) show False by auto
  qed
  then have "set (f x) \<inter> set (concat (map f xs)) = {}" by auto
  moreover have "distinct (concat (map f xs))" by (rule Cons.IH) (use Cons.prems in auto)
  moreover have "distinct (f x)" using Cons.prems(1) by simp
  ultimately show ?case by simp
qed simp

lemma distinct_vdev_names: "siblings_differ pool v \<Longrightarrow> distinct (vdev_names_of pool prefix v)"
proof (induction v arbitrary: prefix)
  case (Vdev ty i p cs st)
  let ?name = "prefix @ local_name pool (Vdev ty i p cs st)"
  have sub: "\<exists>s. x = ?name @ ''/'' @ local_name pool c @ s \<and> (s = [] \<or> hd s = CHR ''/'')"
    if "x \<in> set (vdev_names_of pool (?name @ ''/'') c)" for x c
    using vdev_names_prefix [OF that] by auto
  have "distinct (concat (map (vdev_names_of pool (?name @ ''/'')) cs))"
  proof (rule distinct_concat_map [where key = "local_name pool"])
    show "distinct (vdev_names_of pool (?name @ ''/'') c)" if "c \<in> set cs" for c
      using Vdev that by (auto simp: list_all_iff)
    show "distinct (map (local_name pool) cs)" using Vdev.prems by simp
    show "local_name pool c = local_name pool c'"
      if cs: "c \<in> set cs" "c' \<in> set cs" and x: "x \<in> set (vdev_names_of pool (?name @ ''/'') c)"
        "x \<in> set (vdev_names_of pool (?name @ ''/'') c')" for c c' x
    proof -
      obtain s s' where "local_name pool c @ s = local_name pool c' @ s'"
          and "s = [] \<or> hd s = CHR ''/''" "s' = [] \<or> hd s' = CHR ''/''"
        using sub [OF x(1)] sub [OF x(2)] by auto
      then show ?thesis
        using Vdev.prems cs by (auto simp: list_all_iff intro: slash_split)
    qed
  qed
  moreover have "?name \<notin> set (concat (map (vdev_names_of pool (?name @ ''/'')) cs))"
    using sub by fastforce
  ultimately show ?case by (simp add: Let_def vdev_name_prefix)
qed

lemma length_concat_scaled:
  "(\<And>y. y \<in> set ys \<Longrightarrow> length (f y) = k * length (g y)) \<Longrightarrow>
   length (concat (map f ys)) = k * length (concat (map g ys))"
  by (induction ys) (simp_all add: distrib_left)

lemma vdev_items_count: "length (vdev_items c pool prefix v) = 17 * length (vdev_names_of pool prefix v)"
proof (induction v arbitrary: prefix)
  case (Vdev ty i p cs st)
  let ?name = "vdev_name pool prefix (Vdev ty i p cs st)"
  have "length (concat (map (vdev_items c pool (?name @ ''/'')) cs)) =
      17 * length (concat (map (vdev_names_of pool (?name @ ''/'')) cs))"
    using Vdev by (intro length_concat_scaled)
  then show ?case
    by (simp add: Let_def state_items_def value_items_def VDevStates_def vdev_values_def)
qed

end
