(* ===== verification/Exporter_Properties.thy ===== *)
theory Exporter_Properties
  imports NV_Properties Host_Properties Metrics
begin

text \<open>
  The properties of main.go's parsers and metric handlers.
\<close>

section \<open>The vdev tree\<close>

text \<open>
  C30. Termination of \<open>parseVdevs\<close>: on every reader it ends, and it is the loop of the source with
  its recursive call, without a bound.
\<close>

theorem parseVdevs_terminates:
  "fst (parseVdevs r) \<noteq> Inl OutOfFuel \<and> parseVdevs = vdev_loop zero_vdev \<and>
   vdev_loop v r =
     (case Next r of
        (Inl e, r') \<Rightarrow> if e = Err EOF then (Inr v, r') else (Inl e, r')
      | (Inr token, r') \<Rightarrow> bindE (vdev_step parseVdevs token v) vdev_loop r')"
  using parseVdevs_total parseVdevs_loop vdev_loop_unfold by blast

text \<open>
  C7. Round trip of vdev trees: from the stream that describes a tree of vdevs, with anything
  behind it, \<open>parseVdevs\<close> rebuilds the tree: types, ids, paths, statistics, children.
\<close>

theorem vdev_tree_roundtrip:
  assumes "tree_ok vt" and "post \<noteq> []"
  shows "fst (parseVdevs (new_reader (encode_stream (tree_pairs vt) @ post))) = Inr (tree_vdev vt)"
proof -
  from tree_pairs_ok [OF assms(1)] have "fst (parseVdevs (new_reader (encode_stream (tree_pairs vt) @ post))) =
      Inr (vdev_of_pairs (tree_pairs vt))"
    by (intro parseVdevs_stream assms(2)) simp_all
  with tree_pairs_vdev [OF assms(1)] show ?thesis by simp
qed

definition sample_stats :: "64 word list" where
  "sample_stats = map word_of_nat [100..<140]"

definition sample_tree :: vdev_tree where
  "sample_tree = VdevTree ''root'' 0 [] sample_stats
     [VdevTree ''mirror'' 0 [] sample_stats
        [VdevTree ''disk'' 0 ''/dev/sda1'' sample_stats [], VdevTree ''disk'' 1 ''/dev/sdb1'' sample_stats []]]"

theorem vdev_tree_roundtrip_witness:
  "fst (parseVdevs (new_reader (encode_stream (tree_pairs sample_tree) @ [0]))) = Inr (tree_vdev sample_tree)"
  by (rule vdev_tree_roundtrip) (simp_all add: sample_tree_def sample_stats_def)

text \<open>
  C31. The parser reads exactly the vdev's own list and returns the vdev that it describes, whatever the
  order of the pairs, when the names it knows have the types it expects and an array of lists under a name that
  it does not know holds exactly one list: unknown leaves, unknown lists and such arrays are passed over. The
  condition on arrays cannot be dropped, see \<open>second_spare_read_as_vdev\<close>.
\<close>

theorem parseVdevs_exact:
  assumes "list_all wf_pair ps" and "list_all vdev_pair_ok ps"
    and "before r (encode_list ps @ rest)" and "rest \<noteq> []"
  shows "\<exists>r'. parseVdevs r = (Inr (vdev_of_pairs ps), r') \<and> before r' rest"
  using parseVdevs_passes [OF assms(1,2)] assms(3,4) by (auto simp: passes_def)

definition odd_pairs :: "nvpair list" where
  "odd_pairs =
    [Embedded ''features'' [uint64_leaf ''x'' 1], uint64_leaf ''id'' 5, uint64_leaf ''ashift'' 12,
     EmbeddedArray ''spares'' [[uint64_leaf ''id'' 9]], string_leaf ''type'' ''disk'']"

lemma odd_pairs_ok: "list_all wf_pair odd_pairs" "list_all vdev_pair_ok odd_pairs"
  by (simp_all add: odd_pairs_def wf_leaves wire_fits_def wire_size_def name_end_def padding_def
      leaf_pairs vdev_leaf_ok_def vdev_names_def)

theorem parseVdevs_exact_witness:
  "\<exists>r'. parseVdevs (new_reader (encode_stream odd_pairs @ [1, 2, 3])) =
     (Inr (vdev_of_pairs odd_pairs), r') \<and> before r' [1, 2, 3]"
  by (rule parseVdevs_exact [OF odd_pairs_ok before_stream]) simp_all

text \<open>
  C32. An unknown array of two lists, such as two hot spares, breaks the parse: only the first
  list is skipped, the pairs of the second overwrite the vdev's, and its end is taken for the
  end of the vdev, so that the pairs of the vdev that follow are left to the caller.
\<close>

theorem second_spare_read_as_vdev:
  assumes "wire_fits nm 2 (replicate 64 0)" "list_all wf_pair ps1" "list_all wf_pair ps2"
    and "nm \<notin> set vdev_names" and "list_all vdev_pair_ok ps2"
    and "before r (encode (EmbeddedArray nm [ps1, ps2]) @ rest)" and "rest \<noteq> []"
  shows "\<exists>r'. parseVdevs r = (Inr (vdev_of_pairs ps2), r') \<and> before r' rest"
  using parseVdevs_second_list [OF assms(1-5)] assms(6,7) by (auto simp: passes_def)

definition two_spares :: nvpair where
  "two_spares = EmbeddedArray ''spares''
     [[string_leaf ''type'' ''disk'', uint64_leaf ''id'' 7], [string_leaf ''type'' ''disk'', uint64_leaf ''id'' 8]]"

definition two_spares_stream :: "byte list" where
  "two_spares_stream = encode_stream [two_spares, string_leaf ''type'' ''root'', uint64_leaf ''id'' 0] @ [0]"

theorem second_spare_read_as_vdev_witness:
  "fst (parseVdevs (new_reader two_spares_stream)) = Inr (Vdev ''disk'' 8 [] [] zero_vdevStats)"
proof -
  let ?ps = "\<lambda>i. [string_leaf ''type'' ''disk'', uint64_leaf ''id'' i]"
  let ?rest = "encode_list [string_leaf ''type'' ''root'', uint64_leaf ''id'' 0] @ [0]"
  have r: "before (new_reader two_spares_stream) (encode (EmbeddedArray ''spares'' [?ps 7, ?ps 8]) @ ?rest)"
    using before_stream [of "[0]" "[two_spares, string_leaf ''type'' ''root'', uint64_leaf ''id'' 0]"]
    by (simp add: two_spares_stream_def encode_list_Cons two_spares_def)
  have "\<exists>r'. parseVdevs (new_reader two_spares_stream) = (Inr (vdev_of_pairs (?ps 8)), r') \<and> before r' ?rest"
    by (rule second_spare_read_as_vdev [OF _ _ _ _ _ r])
      (simp_all add: wf_leaves leaf_pairs vdev_leaf_ok_def vdev_names_def wire_fits_def wire_size_def
        name_end_def padding_def)
  moreover have "vdev_of_pairs (?ps 8) = Vdev ''disk'' 8 [] [] zero_vdevStats"
    by (simp add: vdev_of_pairs_def leaf_pairs apply_leaf_def zero_vdev_def)
  ultimately show ?thesis by auto
qed

text \<open>
  C33. The statistics array: from 29 elements on \<open>parseVdevStats\<close> reads the documented indices,
  below that it panics; the free space is the total less the allocated space modulo
  \<open>2 ^ 64\<close>, the true difference exactly when no more than the total is allocated.
\<close>

theorem parseVdevStats_exact:
  "parseVdevStats a = (if 29 \<le> length a then Inr (stats_of a) else Inl (Panic IndexOutOfRange)) \<and>
   (int (unat (free (stats_of a))) = int (unat (vsize (stats_of a))) - int (unat (alloc (stats_of a)))
      \<longleftrightarrow> alloc (stats_of a) \<le> vsize (stats_of a))"
proof (intro conjI)
  let ?t = "vsize (stats_of a)" and ?u = "alloc (stats_of a)"
  have free: "free (stats_of a) = ?t - ?u" by (simp add: stats_of_def)
  show "int (unat (free (stats_of a))) = int (unat ?t) - int (unat ?u) \<longleftrightarrow> ?u \<le> ?t"
  proof
    assume "int (unat (free (stats_of a))) = int (unat ?t) - int (unat ?u)"
    then have "unat ?u \<le> unat ?t" by linarith
    then show "?u \<le> ?t" by (simp add: word_le_nat_alt)
  next
    assume "?u \<le> ?t"
    then show "int (unat (free (stats_of a))) = int (unat ?t) - int (unat ?u)"
      by (simp add: free unat_sub of_nat_diff word_le_nat_alt)
  qed
qed (rule parseVdevStats_eq)

section \<open>Dataset properties\<close>


definition sample_props :: "nvpair list" where
  "sample_props =
    [Embedded ''used'' [uint64_leaf ''value'' 4096],
     Embedded ''mountpoint'' [string_leaf ''value'' ''/tank'', string_leaf ''source'' ''tank''],
     Embedded ''compressratio'' [uint64_leaf ''value'' 123],
     Embedded ''objsetid'' [uint64_leaf ''value'' 54]]"

lemma sample_props_ok: "list_all wf_pair sample_props" "list_all prop_ok sample_props"
  by (simp_all add: sample_props_def wf_leaves wire_fits_def wire_size_def name_end_def padding_def
      value_ok_def prop_setter_def) (simp_all add: uint64_leaf_def string_leaf_def)




text \<open>
  A response buffer that the property list fills to its last byte is not accepted: parsing
  fails with invalid data. \<open>Ioctl\<close> makes such a buffer whenever it has to grow one.
\<close>

theorem parseProps_refuses_tight:
  assumes "list_all wf_pair ps" and "list_all prop_ok ps"
  shows "fst (parseProps d (new_reader (encode_stream ps))) = Inl (Err ErrInvalidData)"
  using prop_lists.refuses_tight_stream [OF assms] .

theorem parseProps_refuses_tight_witness:
  "fst (parseProps zero_props (new_reader (encode_stream sample_props))) = Inl (Err ErrInvalidData)"
  by (rule parseProps_refuses_tight [OF sample_props_ok])

text \<open>
  C13. The kstat of a dataset: from the text of a well-formed table, \<open>parseKStat\<close> makes the record in
  which each of the six counters has the number in the last row of its own name, or what it had
  when there is no such row, in any order of the rows; the other rows do not matter.
\<close>

theorem parseKStat_exact:
  assumes "wf_header h" "ParseInt (hdr_type h) 32 = Inr t" "(word_of_int t :: 8 word) = 1"
    and "list_all wf_row rows" "list_all counter_ok rows"
  shows "fst (parseKStat d (new_kstat_reader (kstat_text h pads rows))) = Inr (counters_listed rows d)"
  using parseKStat_text [OF assms, of d pads] fold_counters_listed by auto

definition every_counter :: "kstat_row list" where
  "every_counter = map (\<lambda>(name, data). \<lparr>row_name = name, row_type = ''4'', row_data = data, row_pads = (0, 3, 1)\<rparr>)
    [(''dataset_name'', ''tank/a''), (''writes'', ''1''), (''nwritten'', ''22''), (''reads'', ''3''),
     (''nread'', ''44''), (''nunlinks'', ''5''), (''nunlinked'', ''66'')]"

theorem parseKStat_exact_witness:
  "fst (parseKStat zero_props (new_kstat_reader (kstat_text sample_kstat_header (0, 28, 4) every_counter))) =
     Inr (zero_props\<lparr>writes := 1, nwritten := 22, reads := 3, nread := 44, nunlinks := 5, nunlinked := 66\<rparr>)"
proof -
  have nums: "ParseUint ''1'' 64 = Inr 1" "ParseUint ''22'' 64 = Inr 22" "ParseUint ''3'' 64 = Inr 3"
    "ParseUint ''44'' 64 = Inr 44" "ParseUint ''5'' 64 = Inr 5" "ParseUint ''66'' 64 = Inr 66" "ParseUint ''1'' 32 = Inr 1"
    by (simp_all add: ParseUint_Inr is_digit_def decimal_value_def digit_value_def)
  have h: "wf_header sample_kstat_header" by (simp add: wf_header_def sample_kstat_header_def newline_def)
  have t: "ParseInt (hdr_type sample_kstat_header) 32 = Inr 1"
    using nums(7) by (simp add: ParseInt_def sample_kstat_header_def)
  have wf: "list_all wf_row every_counter"
    by (simp add: every_counter_def wf_row_def wf_word_def wf_data_def newline_def)
  have ok: "list_all counter_ok every_counter"
    using nums by (simp add: every_counter_def counter_ok_def) (simp add: kstat_setter_def)
  have "counters_listed every_counter zero_props =
      zero_props\<lparr>writes := 1, nwritten := 22, reads := 3, nread := 44, nunlinks := 5, nunlinked := 66\<rparr>"
    by (simp add: counters_listed_def latest_counter_def counters_of_def every_counter_def decimal_value_def digit_value_def)
  with parseKStat_exact [OF h t _ wf ok, of zero_props "(0, 28, 4)"] show ?thesis by simp
qed

section \<open>Metrics\<close>

text \<open>
  C34. After \<open>Describe\<close>, and with a client library that refuses a metric only for the number
  of its labels, no handler fails: for every vdev tree and every dataset, the label values
  that are exported are as many as the label names that were described.
\<close>

theorem handlers_never_fail:
  assumes "checks_arity P"
  shows "fst (handleVdev P (fst (Describe P c dch)) pool prefix v ch) = Inr () \<and>
    fst (handleDataset P (fst (Describe P c dch)) pool name props ch) = Inr ()"
proof -
  obtain ms ms' where "list_all2 (accepts P) (vdev_items (described P) pool prefix v) ms"
      and "list_all2 (accepts P) (dataset_items (described P) pool name props) ms'"
    using fitting_all [OF assms vdev_items_fit] fitting_all [OF assms dataset_items_fit] by metis
  then show ?thesis by (simp add: Describe_eq handleVdev_items handleDataset_items emit_all)
qed

text \<open>A library whose descriptors are the lists of the label names.\<close>

definition label_library :: "(string list, string list) prometheus" where
  "label_library = \<lparr>
     NewDesc = (\<lambda>name help labels. labels),
     NewConstMetric = (\<lambda>d vt v labels.
       if length labels = length d then Inr labels else Inl (Errorf ''inconsistent label cardinality''))\<rparr>"

lemma label_library_arity: "checks_arity label_library"
  by (simp add: checks_arity_def label_library_def)

theorem handlers_never_fail_witness:
  "fst (handleVdev label_library (fst (Describe label_library (described label_library) \<lparr>chan_open = False, sent = []\<rparr>))
     ''tank'' [] (tree_vdev sample_tree) \<lparr>chan_open = True, sent = []\<rparr>) = Inr ()"
  using handlers_never_fail [OF label_library_arity] by blast

text \<open>
  The error path of the exports: the first metric that the library refuses ends the handler
  with an error (wrapped where \<open>export\<close> made the metric), what came before it has been sent,
  and nothing that follows it is.
\<close>

theorem refused_metric_stops:
  assumes "vdev_items c pool prefix v = items @ (w, d, vt, x, labels) # rest"
    and "list_all2 (accepts P) items ms" and "NewConstMetric P d vt x labels = Inl e"
  shows "handleVdev P c pool prefix v ch =
    (Inl (Err (if w then Wrapf ''error exporting metric %v: %w'' e else e)), send_all ms ch)"
  unfolding handleVdev_items assms(1) by (rule emit_refused [OF assms(2,3)])

definition refusing_library :: "(unit, unit) prometheus" where
  "refusing_library = \<lparr>NewDesc = (\<lambda>_ _ _. ()),
     NewConstMetric = (\<lambda>_ _ _ labels. if length labels = 4 then Inr () else Inl (Errorf ''refused''))\<rparr>"

theorem refused_metric_stops_witness:
  "handleVdev refusing_library (described refusing_library) ''tank'' [] zero_vdev \<lparr>chan_open = True, sent = []\<rparr> =
     (Inl (Err (Wrapf ''error exporting metric %v: %w'' (Errorf ''refused''))),
      \<lparr>chan_open = True, sent = replicate 8 ()\<rparr>)"
proof -
  let ?c = "described refusing_library" and ?name = "vdev_name ''tank'' [] zero_vdev"
  let ?states = "state_items ?c [''tank'', ?name, []] zero_vdevStats"
  have items: "vdev_items ?c ''tank'' [] zero_vdev = ?states @
      (True, poolVdevAllocSpaceDesc ?c, GaugeValue, float64_of (alloc zero_vdevStats), [''tank'', ?name, []]) #
      value_items [''tank'', ?name, []] (tl (vdev_values ?c zero_vdevStats))"
    by (simp add: zero_vdev_def Let_def value_items_def vdev_values_def)
  have "list_all2 (accepts refusing_library) ?states (replicate 8 ())"
    by (simp add: state_items_def VDevStates_def accepts_def refusing_library_def numeral_eq_Suc)
  from refused_metric_stops [OF items this, of "Errorf ''refused''"] show ?thesis
    by (simp add: refusing_library_def send_all_def)
qed

text \<open>
  No two vdevs of a pool share their \<open>vdev\<close> label when the local names of siblings differ
  and contain no slash: the labels are paths.
\<close>

theorem vdev_labels_distinct:
  assumes "siblings_differ pool v"
  shows "distinct (vdev_names_of pool prefix v)"
  using distinct_vdev_names [OF assms] .

theorem vdev_labels_distinct_witness:
  "distinct (vdev_names_of ''tank'' [] (tree_vdev sample_tree))"
proof (rule vdev_labels_distinct)
  have "show_nat 0 = ''0''" by code_simp
  then show "siblings_differ ''tank'' (tree_vdev sample_tree)"
    by (simp add: sample_tree_def local_name_def vdev_name_def path_Base_def)
qed

text \<open>
  The state of a vdev in its metrics: of the gauges that are exported for the states, exactly
  one has the value 1, and its state label is the name of the vdev's state.
\<close>

theorem vdev_state_gauge:
  "filter (\<lambda>(w, d, vt, v, ls). v = float_1) (state_items c labels (stats_of a)) =
     [(False, poolVdevState c, GaugeValue, float_1, labels @ [VDevStateString (a ! 1) (a ! 2)])]"
proof -
  let ?cur = "VDevStateString (a ! 1) (a ! 2)"
  let ?item = "\<lambda>n. (False, poolVdevState c, GaugeValue, gauge n ?cur, labels @ [n])"
  have "filter (\<lambda>(w, d, vt, v, ls). v = float_1) (map ?item ns) = map ?item (filter (\<lambda>n. n = ?cur) ns)" for ns
    by (induction ns) (auto simp: gauge_def float_0_1)
  moreover have "filter (\<lambda>n. n = ?cur) VDevStates = [?cur]"
    using vdev_state_labels.one_current [of "(a ! 1, a ! 2)"] by simp
  ultimately show ?thesis by (simp add: state_items_def stats_of_def gauge_def)
qed

end
