(* ===== verification/Pool_Stats.thy ===== *)
theory Pool_Stats
  imports Vdevs
begin

text \<open>
  main.go, the first loop of \<open>handlePool\<close>: it reads the statistics of a pool, which are a list of
  pairs with the state, the number of errors and the vdev tree among them.

  Shown here: the loop ends on every input and satisfies the source's equation, and on an
  encoded list it returns the statistics that the list describes, whatever else stands in it.
\<close>

section \<open>The parser\<close>

record pool_stats =
  pool_state :: string
  pool_errors :: "64 word"
  pool_vdev :: "vdev option"

definition zero_pool_stats :: pool_stats where
  "zero_pool_stats = \<lparr>pool_state = [], pool_errors = 0, pool_vdev = None\<rparr>"

text \<open>The second test for \<open>error_count\<close> in the source repeats the first and is never reached.\<close>

definition pool_step :: "NVType \<Rightarrow> pool_stats \<Rightarrow> (NVListReader, pool_stats) proc" where
  "pool_step token st =
     bindE (gets Name) (\<lambda>name.
     if name = ''state'' then
       if token \<noteq> TypeUint64 then fail (Errorf ''invalid state'')
       else bindE (query UInt64) (\<lambda>w. ret (st\<lparr>pool_state := PoolStateString w\<rparr>))
     else if name = ''error_count'' then
       if token \<noteq> TypeUint64 then fail (Errorf ''invalid error_count'')
       else bindE (query UInt64) (\<lambda>w. ret (st\<lparr>pool_errors := w\<rparr>))
     else if name = ''vdev_tree'' then
       if token \<noteq> TypeNvlist then fail (Errorf ''invalid vdev_tree'')
       else bindE parseVdevs (\<lambda>v. ret (st\<lparr>pool_vdev := Some v\<rparr>))
     else if token = TypeNvlist \<or> token = TypeNvlistArray then bindE Skip (\<lambda>_. ret st)
     else ret st)"

definition parsePoolStats_fuel :: "nat \<Rightarrow> pool_stats \<Rightarrow> (NVListReader, pool_stats) proc" where
  "parsePoolStats_fuel n st = forNext Next n (\<lambda>_. pool_step) st"

definition parsePoolStats :: "pool_stats \<Rightarrow> (NVListReader, pool_stats) proc" where
  "parsePoolStats st r = parsePoolStats_fuel (Suc (remaining r)) st r"

section \<open>Termination\<close>

lemma settled_parseVdevs_const: "settled remaining (\<lambda>n. parseVdevs) n r"
  using parseVdevs_total unbounded_consumes [OF bounded_parseVdevs]
  by (intro settled_const) (auto simp: parseVdevs_def)

lemma settled_pool_step: "settled remaining (\<lambda>_. pool_step token st) n r"
  unfolding pool_step_def
  by (rule settled_bindE, rule settled_gets)
    ((rule settled_if settled_bindE settled_ret settled_fail settled_reads settled_Skip_const
        settled_parseVdevs_const)+)

lemma settled_parsePoolStats_fuel: "remaining r < n \<Longrightarrow> settled remaining (\<lambda>n. parsePoolStats_fuel n st) n r"
  unfolding parsePoolStats_fuel_def by (rule nv.settled_forNext) (auto intro: settled_pool_step)

lemma parsePoolStats_total: "fst (parsePoolStats st r) \<noteq> Inl OutOfFuel"
  using settledD(1) [OF settled_parsePoolStats_fuel, of r "Suc (remaining r)" st]
  by (simp add: parsePoolStats_def)

lemma next_loop_pool: "next_loop pool_step parsePoolStats"
  unfolding next_loop_def
  by (intro allI nv.loop_unfold [where body = "\<lambda>_. pool_step"])
    (simp_all add: settled_pool_step parsePoolStats_def parsePoolStats_fuel_def)

section \<open>Encoded statistics\<close>

text \<open>
  What a list of pairs says about a pool. \<open>pool_pair_ok\<close>: the pairs with the names the parser
  knows have the types it wants, and unknown arrays hold one list.
\<close>

definition pool_names :: "string list" where
  "pool_names = [''state'', ''error_count'', ''vdev_tree'']"

fun pool_pair_ok :: "nvpair \<Rightarrow> bool" where
  "pool_pair_ok (Leaf nm t n bs) =
     (if nm = ''state'' \<or> nm = ''error_count'' then leaf_uint64 (Leaf nm t n bs) \<noteq> None
      else nm \<noteq> ''vdev_tree'')"
| "pool_pair_ok (Embedded nm ps) =
     (if nm = ''vdev_tree'' then list_all vdev_pair_ok ps else nm \<notin> set pool_names)"
| "pool_pair_ok (EmbeddedArray nm pss) = (nm \<notin> set pool_names \<and> length pss = 1)"

fun apply_stat :: "nvpair \<Rightarrow> pool_stats \<Rightarrow> pool_stats" where
  "apply_stat (Leaf nm t n bs) st =
     (if nm = ''state'' then st\<lparr>pool_state := PoolStateString (the (leaf_uint64 (Leaf nm t n bs)))\<rparr>
      else if nm = ''error_count'' then st\<lparr>pool_errors := the (leaf_uint64 (Leaf nm t n bs))\<rparr>
      else st)"
| "apply_stat (Embedded nm ps) st =
     (if nm = ''vdev_tree'' then st\<lparr>pool_vdev := Some (vdev_of_pairs ps)\<rparr> else st)"
| "apply_stat (EmbeddedArray nm pss) st = st"

definition pool_stats_of :: "nvpair list \<Rightarrow> pool_stats" where
  "pool_stats_of ps = fold apply_stat ps zero_pool_stats"

lemma pool_step_leaf:
  assumes r: "at_pair r (Leaf nm t n bs) post" and ok: "pool_pair_ok (Leaf nm t n bs)"
    and leaf: "t \<noteq> TypeNvlist" "t \<noteq> TypeNvlistArray"
  shows "pool_step t st r = (Inr (apply_stat (Leaf nm t n bs) st), r)"
proof (cases "nm = ''state'' \<or> nm = ''error_count''")
  case True
  with ok obtain w where w: "leaf_uint64 (Leaf nm t n bs) = Some w" by fastforce
  note nums = at_pair_uint64 [OF r w]
  have "pool_step TypeUint64 st r = (Inr (apply_stat (Leaf nm t n bs) st), r)"
    using True nums at_pair_name [OF r] w
    by (auto simp: pool_step_def bindE_gets bindE_query ret_apply)
  with nums show ?thesis by simp
next
  case False
  with ok leaf at_pair_name [OF r] show ?thesis by (auto simp: pool_step_def bindE_gets ret_apply)
qed

lemma pool_step_other:
  assumes r: "at_pair r p post" "pair_name p \<notin> set pool_names"
    and t: "pair_tag p = TypeNvlist \<or> pair_tag p = TypeNvlistArray"
  shows "pool_step (pair_tag p) st r = bindE Skip (\<lambda>_. ret st) r"
proof -
  have "Name r \<noteq> ''state''" "Name r \<noteq> ''error_count''" "Name r \<noteq> ''vdev_tree''"
    using at_pair_name [OF r(1)] r(2) by (auto simp: pool_names_def)
  with t show ?thesis unfolding pool_step_def bindE_gets by (simp only: if_False if_True simp_thms)
qed

lemma consumes_other_stat:
  assumes "pair_tail p = encode_list ps" and "list_all wf_pair ps" and "pair_name p \<notin> set pool_names"
    and "pair_tag p = TypeNvlist \<or> pair_tag p = TypeNvlistArray" and "\<And>st. apply_stat p st = st"
  shows "consumes_pair pool_step apply_stat p"
proof (rule consumes_pairI)
  fix st :: pool_stats and r rest
  assume r: "before r (pair_tail p @ rest)" and rest: "rest \<noteq> []" and at: "at_pair r p (pair_tail p @ rest)"
  have "before r (encode_list ps @ rest)" and "0 < length rest" using r rest assms(1) by auto
  then obtain r' where "bindE Skip (\<lambda>_. ret st) r = (Inr st, r')" and "before r' rest"
    by (rule passesD [OF skip_then_ret [OF assms(2)]])
  then show "\<exists>r'. pool_step (pair_tag p) st r = (Inr (apply_stat p st), r') \<and> before r' rest"
    using pool_step_other [OF at assms(3,4)] assms(5) by simp
qed

lemma consumes_vdev_tree:
  assumes "list_all wf_pair ps" and "list_all vdev_pair_ok ps"
  shows "consumes_pair pool_step apply_stat (Embedded ''vdev_tree'' ps)"
proof (rule consumes_pairI)
  fix st :: pool_stats and r rest
  let ?p = "Embedded ''vdev_tree'' ps"
  assume r: "before r (pair_tail ?p @ rest)" and rest: "rest \<noteq> []" and at: "at_pair r ?p (pair_tail ?p @ rest)"
  from r rest have "before r (encode_list ps @ rest)" and "0 < length rest" by simp_all
  then obtain r' where "parseVdevs r = (Inr (vdev_of_pairs ps), r')" and "before r' rest"
    by (rule passesD [OF parseVdevs_passes [OF assms]])
  then show "\<exists>r'. pool_step (pair_tag ?p) st r = (Inr (apply_stat ?p st), r') \<and> before r' rest"
    using at_pair_name [OF at] by (simp add: pool_step_def bindE_gets bindE_Inr [of parseVdevs] ret_apply)
qed

lemma consumes_stat:
  assumes "wf_pair p" and "pool_pair_ok p"
  shows "consumes_pair pool_step apply_stat p"
proof (cases p)
  case (Leaf nm t n bs)
  show ?thesis unfolding Leaf
  proof (rule consumes_pairI)
    fix st r rest
    assume r: "before r (pair_tail (Leaf nm t n bs) @ rest)" and at: "at_pair r (Leaf nm t n bs) (pair_tail (Leaf nm t n bs) @ rest)"
    have "pool_step t st r = (Inr (apply_stat (Leaf nm t n bs) st), r)"
      by (rule pool_step_leaf [OF at]) (use assms Leaf in auto)
    with r show "\<exists>r'. pool_step (pair_tag (Leaf nm t n bs)) st r = (Inr (apply_stat (Leaf nm t n bs) st), r') \<and> before r' rest"
      by simp
  qed
next
  case (Embedded nm ps)
  show ?thesis
  proof (cases "nm = ''vdev_tree''")
    case True
    with assms Embedded show ?thesis by (simp add: consumes_vdev_tree)
  next
    case False
    with assms Embedded show ?thesis by (intro consumes_other_stat [where ps = ps]) auto
  qed
next
  case (EmbeddedArray nm pss)
  then obtain ps where ps: "pss = [ps]" using assms(2) by (cases pss) auto
  show ?thesis by (rule consumes_other_stat [where ps = ps]) (use assms EmbeddedArray ps in auto)
qed

interpretation pool_lists: list_parser pool_step parsePoolStats apply_stat pool_pair_ok
  by unfold_locales (rule next_loop_pool, rule consumes_stat)

end
