(* ===== verification/Collector.thy ===== *)
theory Collector
  imports Metrics Pool_Stats Ioctl_Call
begin

text \<open>
  main.go, a collection: \<open>collect\<close>, which lists the pools, \<open>handlePool\<close>, which reads the
  statistics of a pool, exports its state and its vdevs and starts the enumeration, and the
  closure \<open>findDatasetsRecursive\<close>, which asks the kernel for one dataset after the other and
  descends into each.

  The state of a collection is the state of the machine, the command block and the response
  buffer of the function that is running, and the metrics channel. The recursion of the
  enumeration follows what the kernel answers, so that it is bounded by a number of steps; the
  retry loop of \<open>Ioctl\<close> has its own bound.
\<close>

section \<open>State\<close>

text \<open>What the exporter uses of package os: reading a file, and telling why it failed.\<close>

record 'w environ = "'w host" +
  read_file :: "string \<Rightarrow> 'w \<Rightarrow> (error + string) \<times> 'w"
  is_not_exist :: "error \<Rightarrow> bool"

record ('w, 'm) run =
  run_io :: "'w io"
  run_ch :: "'m chan"

definition on_io :: "('w io, 'a) proc \<Rightarrow> (('w, 'm) run, 'a) proc" where
  "on_io = on_part run_io (\<lambda>x. run_io_update (\<lambda>_. x))"

definition on_ch :: "('m chan, 'a) proc \<Rightarrow> (('w, 'm) run, 'a) proc" where
  "on_ch = on_part run_ch (\<lambda>x. run_ch_update (\<lambda>_. x))"

text \<open>A procedure on the command block, and one that changes the machine.\<close>

definition on_cmd :: "(Cmd, 'a) proc \<Rightarrow> ('w io, 'a) proc" where
  "on_cmd = on_part io_cmd (\<lambda>x. io_cmd_update (\<lambda>_. x))"

definition on_world :: "('w, 'a) proc \<Rightarrow> ('w io, 'a) proc" where
  "on_world = on_part io_world (\<lambda>x. io_world_update (\<lambda>_. x))"

text \<open>
  A function body with \<open>cmd := ioctl.Cmd{}\<close> and \<open>resp := make([]byte, 256*1024)\<close> as its local
  variables: those of the caller come back when it returns.
\<close>

definition resp_size :: nat where
  "resp_size = 256 * 1024"

definition make_resp :: "'w environ \<Rightarrow> ('w io, unit) proc" where
  "make_resp E =
     bindE (on_world (make_bytes E resp_size)) (\<lambda>b. modify (io_resp_update (\<lambda>_. Some b)))"

definition with_locals :: "(('w, 'm) run, 'a) proc \<Rightarrow> (('w, 'm) run, 'a) proc" where
  "with_locals m s =
     (let caller = run_io s;
          (r, s') = m (s\<lparr>run_io := caller\<lparr>io_cmd := zero_cmd, io_resp := None\<rparr>\<rparr>)
      in (r, s'\<lparr>run_io := (run_io s')\<lparr>io_cmd := io_cmd caller, io_resp := io_resp caller\<rparr>\<rparr>))"

definition resp_data :: "'w io \<Rightarrow> byte list" where
  "resp_data s = (case io_resp s of None \<Rightarrow> [] | Some b \<Rightarrow> buf_bytes b)"

text \<open>A parser run on a fresh reader over the response.\<close>

definition parse_resp :: "(NVListReader, 'a) proc \<Rightarrow> ('w io, 'a) proc" where
  "parse_resp m = query (\<lambda>s. fst (m (new_reader (resp_data s))))"

section \<open>Datasets\<close>

text \<open>
  One call of \<open>ZFS_IOC_DATASET_LIST_NEXT\<close>: the name of the next dataset under \<open>prefix\<close> and
  the cookie to go on with, or nothing when the kernel answers ESRCH.
\<close>

definition list_next ::
  "nat \<Rightarrow> 'w environ \<Rightarrow> IoctlNumber \<Rightarrow> string \<Rightarrow> 64 word \<Rightarrow> ('w io, (string \<times> 64 word) option) proc" where
  "list_next rounds E first prefix cookie =
     bindE (on_cmd (modify Clear)) (\<lambda>_.
     bindE (on_cmd (SetName prefix)) (\<lambda>_.
     bindE (on_cmd (modify (Cookie_update (\<lambda>_. cookie)))) (\<lambda>_ s.
     case Ioctl rounds E (ZFS_IOC_DATASET_LIST_NEXT first) None None s of
       (Inl (Err e), s') \<Rightarrow>
         if e = Errno ESRCH then (Inr None, s')
         else (Inl (Err (Wrapf ''error calling dataset list next: %w'' e)), s')
     | (Inl x, s') \<Rightarrow> (Inl x, s')
     | (Inr (), s') \<Rightarrow> (Inr (Some (GetName (io_cmd s'), Cookie (io_cmd s'))), s'))))"

definition kstat_path :: "string \<Rightarrow> 64 word \<Rightarrow> string" where
  "kstat_path pool objset = ''/proc/spl/kstat/zfs/'' @ pool @ ''/objset-0x'' @ show_hex (unat objset)"

text \<open>The counters of a dataset, when its kstat exists. The messages also print name and objset.\<close>

definition add_kstats :: "'w environ \<Rightarrow> string \<Rightarrow> datasetProps \<Rightarrow> ('w io, datasetProps) proc" where
  "add_kstats E pool props =
     on_world (\<lambda>w. case read_file E (kstat_path pool (objsetid props)) w of
       (Inl e, w') \<Rightarrow>
         if is_not_exist E e then (Inr props, w')
         else (Inl (Err (Wrapf ''error reading kstats for %q (objset %v): %w'' e)), w')
     | (Inr contents, w') \<Rightarrow>
         wrapE ''error parsing kstats for %q (objset %v): %w''
           (query (\<lambda>_. fst (parseKStat props (new_kstat_reader contents)))) w')"

definition dataset_round ::
  "nat \<Rightarrow> 'w environ \<Rightarrow> ('d, 'm) prometheus \<Rightarrow> 'd zfsCollector \<Rightarrow> string \<Rightarrow> string \<Rightarrow>
   (('w, 'm) run, unit) proc" where
  "dataset_round rounds E P c pool name =
     bindE (on_io (parse_resp (parseProps zero_props))) (\<lambda>props.
     bindE (on_io (add_kstats E pool props)) (\<lambda>props.
     on_ch (handleDataset P c pool name props)))"

text \<open>The loop of \<open>findDatasetsRecursive\<close> from some cookie on; a call starts with cookie 0.\<close>

fun findDatasets ::
  "nat \<Rightarrow> nat \<Rightarrow> 'w environ \<Rightarrow> IoctlNumber \<Rightarrow> ('d, 'm) prometheus \<Rightarrow> 'd zfsCollector \<Rightarrow> string \<Rightarrow>
   string \<Rightarrow> 64 word \<Rightarrow> (('w, 'm) run, unit) proc" where
  "findDatasets 0 rounds E first P c pool prefix cookie s = (Inl OutOfFuel, s)"
| "findDatasets (Suc n) rounds E first P c pool prefix cookie s =
     bindE (on_io (list_next rounds E first prefix cookie)) (\<lambda>found.
     case found of
       None \<Rightarrow> ret ()
     | Some (name, next_cookie) \<Rightarrow>
         bindE (dataset_round rounds E P c pool name) (\<lambda>_.
         bindE (findDatasets n rounds E first P c pool name 0) (\<lambda>_.
         findDatasets n rounds E first P c pool prefix next_cookie))) s"

section \<open>Pools\<close>

definition pool_metrics ::
  "('d, 'm) prometheus \<Rightarrow> 'd zfsCollector \<Rightarrow> string \<Rightarrow> pool_stats \<Rightarrow> ('m chan, unit) proc" where
  "pool_metrics P c pool st =
     bindE (forE PoolStates (\<lambda>state.
       bindE (new_metric P (poolState c) GaugeValue (gauge state (pool_state st)) [pool, state]) send)) (\<lambda>_.
     bindE (new_metric P (poolErrorCount c) CounterValue (float64_of (pool_errors st)) [pool]) send)"

text \<open>\<open>handleVdev\<close> on the pool's vdev, which is nil when the statistics had no \<open>vdev_tree\<close>.\<close>

definition pool_vdev_metrics ::
  "('d, 'm) prometheus \<Rightarrow> 'd zfsCollector \<Rightarrow> string \<Rightarrow> pool_stats \<Rightarrow> ('m chan, unit) proc" where
  "pool_vdev_metrics P c pool st =
     (case pool_vdev st of None \<Rightarrow> panics NilDereference | Some v \<Rightarrow> handleVdev P c pool [] v)"

text \<open>The first part of \<open>handlePool\<close>: the request, and the loop over the reply.\<close>

definition pool_request ::
  "nat \<Rightarrow> 'w environ \<Rightarrow> IoctlNumber \<Rightarrow> string \<Rightarrow> ('w io, pool_stats) proc" where
  "pool_request rounds E first pool =
     bindE (on_cmd (SetName pool)) (\<lambda>_.
     bindE (make_resp E) (\<lambda>_.
     bindE (Ioctl rounds E (ZFS_IOC_POOL_STATS first) None None) (\<lambda>_.
     parse_resp (parsePoolStats zero_pool_stats))))"

definition handlePool ::
  "nat \<Rightarrow> nat \<Rightarrow> 'w environ \<Rightarrow> IoctlNumber \<Rightarrow> ('d, 'm) prometheus \<Rightarrow> 'd zfsCollector \<Rightarrow> string \<Rightarrow>
   (('w, 'm) run, unit) proc" where
  "handlePool n rounds E first P c pool = with_locals (
     bindE (on_io (pool_request rounds E first pool)) (\<lambda>st.
     bindE (on_ch (pool_metrics P c pool st)) (\<lambda>_.
     bindE (on_ch (pool_vdev_metrics P c pool st)) (\<lambda>_.
     findDatasets n rounds E first P c pool pool 0))))"

section \<open>Collection\<close>

text \<open>
  \<open>collect\<close> reads the list of pools while it handles them: its loop runs on the reader and on
  the rest of the state at once.
\<close>

definition on_reader :: "(NVListReader, 'a) proc \<Rightarrow> (NVListReader \<times> 's, 'a) proc" where
  "on_reader = on_part fst (\<lambda>r (_, s). (r, s))"

definition on_rest :: "('s, 'a) proc \<Rightarrow> (NVListReader \<times> 's, 'a) proc" where
  "on_rest = on_part snd (\<lambda>s (r, _). (r, s))"

definition collect_step ::
  "nat \<Rightarrow> nat \<Rightarrow> 'w environ \<Rightarrow> IoctlNumber \<Rightarrow> ('d, 'm) prometheus \<Rightarrow> 'd zfsCollector \<Rightarrow> NVType \<Rightarrow> unit \<Rightarrow>
   (NVListReader \<times> ('w, 'm) run, unit) proc" where
  "collect_step n rounds E first P c token _ =
     (if token \<noteq> TypeNvlist then fail (Errorf ''invalid pool configs'')
      else bindE (on_reader (gets Name)) (\<lambda>poolName.
        bindE (on_rest (handlePool n rounds E first P c poolName)) (\<lambda>_.
        on_reader Skip)))"

definition collect_loop ::
  "nat \<Rightarrow> nat \<Rightarrow> nat \<Rightarrow> 'w environ \<Rightarrow> IoctlNumber \<Rightarrow> ('d, 'm) prometheus \<Rightarrow> 'd zfsCollector \<Rightarrow>
   (NVListReader \<times> ('w, 'm) run, unit) proc" where
  "collect_loop k n rounds E first P c =
     forNext (on_reader Next) k (\<lambda>_. collect_step n rounds E first P c) ()"

text \<open>The bound that is always enough: one more than the bytes that the reader has left.\<close>

definition pool_loop ::
  "nat \<Rightarrow> nat \<Rightarrow> 'w environ \<Rightarrow> IoctlNumber \<Rightarrow> ('d, 'm) prometheus \<Rightarrow> 'd zfsCollector \<Rightarrow>
   (NVListReader \<times> ('w, 'm) run, unit) proc" where
  "pool_loop n rounds E first P c s = collect_loop (Suc (remaining (fst s))) n rounds E first P c s"

definition read_configs ::
  "nat \<Rightarrow> nat \<Rightarrow> 'w environ \<Rightarrow> IoctlNumber \<Rightarrow> ('d, 'm) prometheus \<Rightarrow> 'd zfsCollector \<Rightarrow> (('w, 'm) run, unit) proc" where
  "read_configs n rounds E first P c s =
     (case pool_loop n rounds E first P c (new_reader (resp_data (run_io s)), s) of (x, (_, s')) \<Rightarrow> (x, s'))"

definition collect ::
  "nat \<Rightarrow> nat \<Rightarrow> 'w environ \<Rightarrow> IoctlNumber \<Rightarrow> ('d, 'm) prometheus \<Rightarrow> 'd zfsCollector \<Rightarrow> (('w, 'm) run, unit) proc" where
  "collect n rounds E first P c = with_locals (
     bindE (on_io (make_resp E)) (\<lambda>_.
     bindE (on_io (Ioctl rounds E (ZFS_IOC_POOL_CONFIGS first) None None)) (\<lambda>_.
     read_configs n rounds E first P c)))"

text \<open>\<open>Collect\<close> logs the error and drops it; a panic goes through.\<close>

definition Collect ::
  "nat \<Rightarrow> nat \<Rightarrow> 'w environ \<Rightarrow> IoctlNumber \<Rightarrow> ('d, 'm) prometheus \<Rightarrow> 'd zfsCollector \<Rightarrow> (('w, 'm) run, unit) proc" where
  "Collect n rounds E first P c s =
     (case collect n rounds E first P c s of
        (Inl (Err e), s') \<Rightarrow> (Inr (), s')
      | r \<Rightarrow> r)"

end
