(* ===== verification/Enumeration.thy ===== *)
theory Enumeration
  imports Collector
begin

text \<open>
  The enumeration of datasets against its specification. A tree of datasets says what the
  kernel and the file system would answer; \<open>findDatasets\<close> visits the tree in preorder, exports
  every dataset once, and ends.
\<close>

section \<open>Dataset trees\<close>

text \<open>
  A dataset: its name, its property list, the table of its kstat when it has one (header,
  padding of the column line, rows), and its children in the kernel's order.
\<close>

type_synonym kstat_table = "kstat_header \<times> (nat \<times> nat \<times> nat) \<times> kstat_row list"

datatype dataset = Dataset (ds_name: string) (ds_props: "nvpair list") (ds_kstat: "kstat_table option")
  (ds_children: "dataset list")

definition ds_listed :: "nvpair list \<Rightarrow> datasetProps" where
  "ds_listed ps = props_listed ps zero_props"

fun ds_final :: "nvpair list \<Rightarrow> kstat_table option \<Rightarrow> datasetProps" where
  "ds_final ps None = ds_listed ps"
| "ds_final ps (Some (h, pads, rows)) = counters_listed rows (ds_listed ps)"

text \<open>The exports of a tree, in preorder, and the number of its datasets.\<close>

fun tree_items :: "'d zfsCollector \<Rightarrow> string \<Rightarrow> dataset \<Rightarrow> 'd item list" where
  "tree_items c pool (Dataset nm ps k ds) =
     dataset_items c pool nm (ds_final ps k) @ concat (map (tree_items c pool) ds)"

fun tree_count :: "dataset \<Rightarrow> nat" where
  "tree_count (Dataset nm ps k ds) = Suc (sum_list (map tree_count ds))"

definition forest_items :: "'d zfsCollector \<Rightarrow> string \<Rightarrow> dataset list \<Rightarrow> 'd item list" where
  "forest_items c pool ds = concat (map (tree_items c pool) ds)"

definition forest_count :: "dataset list \<Rightarrow> nat" where
  "forest_count ds = sum_list (map tree_count ds)"

section \<open>What the system answers\<close>

definition name_ok :: "string \<Rightarrow> bool" where
  "name_ok nm \<longleftrightarrow> length nm \<le> 4095 \<and> CHR 0x00 \<notin> set nm"

definition table_ok :: "kstat_table \<Rightarrow> bool" where
  "table_ok = (\<lambda>(h, pads, rows). wf_header h \<and> (\<exists>t. ParseInt (hdr_type h) 32 = Inr t \<and> (word_of_int t :: 8 word) = 1) \<and>
     list_all wf_row rows \<and> list_all counter_ok rows)"

text \<open>The file of a dataset's kstat: missing, or with the text of the table.\<close>

definition kstat_file :: "'w environ \<Rightarrow> string \<Rightarrow> nvpair list \<Rightarrow> kstat_table option \<Rightarrow> bool" where
  "kstat_file E pool ps k \<longleftrightarrow> (\<forall>w. \<exists>w'. case k of
     None \<Rightarrow> \<exists>e. read_file E (kstat_path pool (objsetid (ds_listed ps))) w = (Inl e, w') \<and> is_not_exist E e
   | Some (h, pads, rows) \<Rightarrow>
       read_file E (kstat_path pool (objsetid (ds_listed ps))) w = (Inr (kstat_text h pads rows), w'))"

text \<open>
  The kernel's answers to \<open>ZFS_IOC_DATASET_LIST_NEXT\<close> for the children \<open>ds\<close> of \<open>prefix\<close>: with
  the cookie \<open>ck i\<close> it answers the \<open>i\<close>-th child's name, properties and the next cookie, and
  ESRCH behind the last child. The first cookie is 0.
\<close>

definition lists_children :: "'w environ \<Rightarrow> IoctlNumber \<Rightarrow> string \<Rightarrow> (nat \<Rightarrow> 64 word) \<Rightarrow> dataset list \<Rightarrow> bool" where
  "lists_children E first prefix ck ds \<longleftrightarrow> ck 0 = 0 \<and>
     (\<forall>i\<le>length ds. \<forall>cmd w. GetName cmd = prefix \<longrightarrow> Cookie cmd = ck i \<longrightarrow>
        unat (Nvlist_dst_size cmd) = resp_size \<longrightarrow>
        (\<exists>cmd' w' new.
           sys_ioctl E (ZFS_IOC_DATASET_LIST_NEXT first) cmd None None w =
             ((if i < length ds then 0 else ESRCH, cmd', new), w') \<and>
           (i < length ds \<longrightarrow> GetName cmd' = ds_name (ds ! i) \<and> Cookie cmd' = ck (Suc i) \<and>
              new = encode_stream (ds_props (ds ! i)))))"

fun answers_tree :: "'w environ \<Rightarrow> IoctlNumber \<Rightarrow> string \<Rightarrow> dataset \<Rightarrow> bool" where
  "answers_tree E first pool (Dataset nm ps k ds) \<longleftrightarrow>
     name_ok nm \<and> list_all wf_pair ps \<and> list_all prop_ok ps \<and> length (encode_stream ps) < resp_size \<and>
     (case k of None \<Rightarrow> True | Some t \<Rightarrow> table_ok t) \<and> kstat_file E pool ps k \<and>
     (\<exists>ck. lists_children E first nm ck ds) \<and> list_all (answers_tree E first pool) ds"

section \<open>One step\<close>

text \<open>The response buffer of a collection keeps its size.\<close>

definition full_resp :: "'w io \<Rightarrow> bool" where
  "full_resp s \<longleftrightarrow> (\<exists>b. io_resp s = Some b \<and> length (buf_bytes b) = resp_size)"

lemma resp_size_bounds: "0 < resp_size" "resp_size < 2 ^ 64"
  by (simp_all add: resp_size_def)

text \<open>An attempt with a full buffer: the kernel sees the size of the buffer.\<close>

lemma attempt_full:
  assumes "full_resp s"
  obtains cmd where "GetName cmd = GetName (io_cmd s)" and "Cookie cmd = Cookie (io_cmd s)"
    and "unat (Nvlist_dst_size cmd) = resp_size"
    and "\<And>errno cmd' new w'. sys_ioctl E num cmd None None (io_world s) = ((errno, cmd', new), w') \<Longrightarrow>
      \<exists>s'. attempt E num None None s = (Inr errno, s') \<and> full_resp s' \<and> io_cmd s' = cmd' \<and> io_world s' = w' \<and>
        (length new < resp_size \<longrightarrow> (\<exists>post. post \<noteq> [] \<and> resp_data s' = new @ post))"
proof -
  from assms obtain b where b: "io_resp s = Some b" and len: "length (buf_bytes b) = resp_size"
    by (auto simp: full_resp_def)
  with resp_size_bounds have ne: "buf_bytes b \<noteq> []" by auto
  let ?cmd = "set_dst (buf_addr b) (word_of_nat (length (buf_bytes b))) (io_cmd s)"
  have "\<exists>s'. attempt E num None None s = (Inr errno, s') \<and> full_resp s' \<and> io_cmd s' = cmd' \<and> io_world s' = w' \<and>
      (length new < resp_size \<longrightarrow> (\<exists>post. post \<noteq> [] \<and> resp_data s' = new @ post))"
    if "sys_ioctl E num ?cmd None None (io_world s) = ((errno, cmd', new), w')" for errno cmd' new w'
    using that len
    by (auto simp: attempt_resp [OF b ne] issue_def b full_resp_def resp_data_def written_over_def
        intro!: exI [of _ "drop (length new) (buf_bytes b)"])
  moreover have "unat (Nvlist_dst_size ?cmd) = resp_size"
    using resp_size_bounds len unat_length [of "buf_bytes b"] by (simp add: set_dst_def)
  ultimately show thesis
    by (intro that [of ?cmd]) (simp_all add: set_dst_def GetName_def)
qed

lemma name_ok_prefix: "name_ok nm \<Longrightarrow> name_prefix nm = nm"
  by (auto simp: name_ok_def name_prefix_def takeWhile_eq_all_conv)


text \<open>The command block that \<open>list_next\<close> hands to the kernel.\<close>

definition next_cmd :: "string \<Rightarrow> 64 word \<Rightarrow> Cmd" where
  "next_cmd prefix cookie = (snd (SetName prefix zero_cmd))\<lparr>Cookie := cookie\<rparr>"

lemma GetName_next_cmd: "GetName (next_cmd prefix cookie) = name_prefix prefix"
  using GetName_SetName_cleared [of prefix zero_cmd] by (simp add: next_cmd_def GetName_def Clear_def)

lemma SetName_zero: "SetName prefix zero_cmd = (Inr (), snd (SetName prefix zero_cmd))"
  using SetName_bytes [of zero_cmd prefix] by (simp add: zero_cmd_def zero_bytes_def)

lemma case_unit_any: "case_unit x u = x"
  by (cases u, hypsubst, rule unit.case)

lemma list_next_eq:
  "list_next rounds E first prefix cookie s =
     (case Ioctl rounds E (ZFS_IOC_DATASET_LIST_NEXT first) None None (s\<lparr>io_cmd := next_cmd prefix cookie\<rparr>) of
        (Inl (Err e), s') \<Rightarrow>
          if e = Errno ESRCH then (Inr None, s')
          else (Inl (Err (Wrapf ''error calling dataset list next: %w'' e)), s')
      | (Inl x, s') \<Rightarrow> (Inl x, s')
      | (Inr (), s') \<Rightarrow> (Inr (Some (GetName (io_cmd s'), Cookie (io_cmd s'))), s'))"
proof -
  have cleared: "on_cmd (modify Clear) s = (Inr (), s\<lparr>io_cmd := zero_cmd\<rparr>)"
    by (simp add: on_cmd_def on_part_def modify_apply Clear_def)
  have named: "on_cmd (SetName prefix) (s\<lparr>io_cmd := zero_cmd\<rparr>) =
      (Inr (), s\<lparr>io_cmd := snd (SetName prefix zero_cmd)\<rparr>)"
    by (simp add: on_cmd_def on_part_def) (subst SetName_zero, simp)
  have cookied: "on_cmd (modify (Cookie_update (\<lambda>_. cookie))) (s\<lparr>io_cmd := snd (SetName prefix zero_cmd)\<rparr>) =
      (Inr (), s\<lparr>io_cmd := next_cmd prefix cookie\<rparr>)"
    by (simp add: on_cmd_def on_part_def modify_apply next_cmd_def)
  show ?thesis
    by (simp add: list_next_def bindE_def cleared named cookied)
qed

text \<open>What a call of \<open>list_next\<close> returns while the children of a dataset are listed.\<close>

lemma list_next_listed:
  assumes "lists_children E first prefix ck ds" and "i \<le> length ds" and "name_ok prefix"
    and "full_resp s" and "0 < rounds"
  obtains s' where "full_resp s'"
    and "list_next rounds E first prefix (ck i) s =
      (Inr (if i < length ds then Some (ds_name (ds ! i), ck (Suc i)) else None), s')"
    and "i < length ds \<Longrightarrow> length (encode_stream (ds_props (ds ! i))) < resp_size \<Longrightarrow>
      \<exists>post. post \<noteq> [] \<and> resp_data s' = encode_stream (ds_props (ds ! i)) @ post"
proof -
  let ?num = "ZFS_IOC_DATASET_LIST_NEXT first" and ?s = "s\<lparr>io_cmd := next_cmd prefix (ck i)\<rparr>"
  obtain k where k: "rounds = Suc k" using assms(5) by (cases rounds) auto
  have full: "full_resp ?s" using assms(4) by (simp add: full_resp_def)
  obtain cmd where g: "GetName cmd = GetName (io_cmd ?s)" "Cookie cmd = Cookie (io_cmd ?s)"
    and size: "unat (Nvlist_dst_size cmd) = resp_size"
    and run: "\<And>errno cmd' new w'.
        sys_ioctl E ?num cmd None None (io_world ?s) = ((errno, cmd', new), w') \<Longrightarrow>
      \<exists>s'. attempt E ?num None None ?s = (Inr errno, s') \<and> full_resp s' \<and> io_cmd s' = cmd' \<and> io_world s' = w' \<and>
        (length new < resp_size \<longrightarrow> (\<exists>post. post \<noteq> [] \<and> resp_data s' = new @ post))"
    using attempt_full [OF full] by blast
  have cmd: "GetName cmd = prefix" "Cookie cmd = ck i" "unat (Nvlist_dst_size cmd) = resp_size"
    using g size name_ok_prefix [OF assms(3)] by (simp_all add: GetName_next_cmd) (simp add: next_cmd_def)
  from assms(1,2) cmd obtain cmd' w' new
    where sys: "sys_ioctl E ?num cmd None None (io_world ?s) = ((if i < length ds then 0 else ESRCH, cmd', new), w')"
      and listed: "i < length ds \<Longrightarrow> GetName cmd' = ds_name (ds ! i) \<and> Cookie cmd' = ck (Suc i) \<and>
        new = encode_stream (ds_props (ds ! i))"
    unfolding lists_children_def by metis
  from run [OF sys] obtain s' where at: "attempt E ?num None None ?s = (Inr (if i < length ds then 0 else ESRCH), s')"
      and s': "full_resp s'" "io_cmd s' = cmd'"
      and data: "length new < resp_size \<Longrightarrow> \<exists>post. post \<noteq> [] \<and> resp_data s' = new @ post" by auto
  have "list_next rounds E first prefix (ck i) s =
      (Inr (if i < length ds then Some (ds_name (ds ! i), ck (Suc i)) else None), s')"
  proof (cases "i < length ds")
    case True
    with at have "Ioctl rounds E ?num None None ?s = (Inr (), s')" unfolding k by (intro Ioctl_done) simp
    with True listed s' show ?thesis by (simp add: list_next_eq case_unit_any)
  next
    case False
    with at have "Ioctl rounds E ?num None None ?s = (Inl (Err (Errno ESRCH)), s')"
      unfolding k by (intro Ioctl_errno(2)) (simp_all add: ESRCH_def ENOMEM_def)
    with False show ?thesis by (simp add: list_next_eq)
  qed
  with s'(1) show ?thesis using that data listed by auto
qed


text \<open>What one round does with a dataset that the kernel has listed.\<close>

lemma parse_resp_props:
  assumes "list_all wf_pair ps" "list_all prop_ok ps" and "resp_data t = encode_stream ps @ post" "post \<noteq> []"
  shows "parse_resp (parseProps zero_props) t = (Inr (ds_listed ps), t)"
  using prop_lists.reads_stream [OF assms(1,2,4)]
  by (simp add: parse_resp_def query_apply assms(3) ds_listed_def fold_props_listed [OF assms(2)])

lemma add_kstats_file:
  assumes "kstat_file E pool ps k" and "case k of None \<Rightarrow> True | Some t \<Rightarrow> table_ok t"
  obtains w' where "add_kstats E pool (ds_listed ps) t = (Inr (ds_final ps k), t\<lparr>io_world := w'\<rparr>)"
proof (cases k)
  case None
  with assms(1) obtain w' e
    where "read_file E (kstat_path pool (objsetid (ds_listed ps))) (io_world t) = (Inl e, w')" "is_not_exist E e"
    unfolding kstat_file_def None option.case by (elim allE exE conjE)
  then show ?thesis using that [of w'] None by (simp add: add_kstats_def on_world_def on_part_def)
next
  case (Some table)
  obtain h pads rows where table: "table = (h, pads, rows)" by (cases table)
  from assms(1) obtain w' where read: "read_file E (kstat_path pool (objsetid (ds_listed ps))) (io_world t) =
      (Inr (kstat_text h pads rows), w')"
    unfolding kstat_file_def Some table by auto
  from assms(2) obtain n where "wf_header h" "ParseInt (hdr_type h) 32 = Inr n" "(word_of_int n :: 8 word) = 1"
      "list_all wf_row rows" "list_all counter_ok rows"
    unfolding Some table table_ok_def option.case prod.case by (elim conjE exE)
  from parseKStat_text [OF this, of "ds_listed ps" pads]
  have "fst (parseKStat (ds_listed ps) (new_kstat_reader (kstat_text h pads rows))) = Inr (ds_final ps k)"
    by (auto simp: Some table fold_counters_listed)
  with read show ?thesis using that [of w']
    by (simp add: add_kstats_def on_world_def on_part_def wrapE_def query_apply)
qed

lemma dataset_round_listed:
  assumes tree: "answers_tree E first pool (Dataset nm ps k ds)"
    and data: "resp_data (run_io s) = encode_stream ps @ post" "post \<noteq> []"
    and accepted: "list_all2 (accepts P) (dataset_items c pool nm (ds_final ps k)) ms"
  obtains w' where "dataset_round rounds E P c pool nm s =
    (Inr (), s\<lparr>run_io := (run_io s)\<lparr>io_world := w'\<rparr>, run_ch := send_all ms (run_ch s)\<rparr>)"
proof -
  from tree have ps: "list_all wf_pair ps" "list_all prop_ok ps" and k: "kstat_file E pool ps k"
      and table: "case k of None \<Rightarrow> True | Some t \<Rightarrow> table_ok t" by auto
  have parsed: "on_io (parse_resp (parseProps zero_props)) s = (Inr (ds_listed ps), s)"
    by (simp add: on_io_def on_part_def parse_resp_props [OF ps data])
  from add_kstats_file [OF k table] obtain w'
    where "add_kstats E pool (ds_listed ps) (run_io s) = (Inr (ds_final ps k), (run_io s)\<lparr>io_world := w'\<rparr>)" .
  then have counted: "on_io (add_kstats E pool (ds_listed ps)) s =
      (Inr (ds_final ps k), s\<lparr>run_io := (run_io s)\<lparr>io_world := w'\<rparr>\<rparr>)"
    by (simp add: on_io_def on_part_def)
  show thesis
    by (rule that [of w'])
      (simp add: dataset_round_def bindE_def parsed counted on_ch_def on_part_def handleDataset_items
        emit_all [OF accepted])
qed

text \<open>Two states of the buffer differ only in the world.\<close>

lemma full_resp_world [simp]:
  "full_resp (t\<lparr>io_world := w\<rparr>) = full_resp t" "full_resp (t\<lparr>io_cmd := cmd\<rparr>) = full_resp t"
  by (simp_all add: full_resp_def)

section \<open>The enumeration\<close>

lemma forest_drop:
  assumes "i < length ds"
  shows "forest_items c pool (drop i ds) = tree_items c pool (ds ! i) @ forest_items c pool (drop (Suc i) ds)"
    and "forest_count (drop i ds) = tree_count (ds ! i) + forest_count (drop (Suc i) ds)"
  using Cons_nth_drop_Suc [OF assms, symmetric] by (simp_all add: forest_items_def forest_count_def)

lemma findDatasets_listed:
  assumes "lists_children E first prefix ck ds" and "name_ok prefix" and "list_all (answers_tree E first pool) ds"
    and "i \<le> length ds" and "full_resp (run_io s)" and "0 < rounds"
    and "forest_count (drop i ds) < n" and "list_all2 (accepts P) (forest_items c pool (drop i ds)) ms"
  shows "\<exists>s'. findDatasets n rounds E first P c pool prefix (ck i) s = (Inr (), s') \<and>
    full_resp (run_io s') \<and> run_ch s' = send_all ms (run_ch s)"
  using assms
proof (induction n arbitrary: prefix ck ds i s ms)
  case 0
  then show ?case by simp
next
  case (Suc n)
  obtain t where t: "full_resp t"
    and listed: "list_next rounds E first prefix (ck i) (run_io s) =
      (Inr (if i < length ds then Some (ds_name (ds ! i), ck (Suc i)) else None), t)"
    and data: "i < length ds \<Longrightarrow> length (encode_stream (ds_props (ds ! i))) < resp_size \<Longrightarrow>
      \<exists>post. post \<noteq> [] \<and> resp_data t = encode_stream (ds_props (ds ! i)) @ post"
    using list_next_listed [OF Suc.prems(1,4,2,5,6)] by blast
  have listing: "on_io (list_next rounds E first prefix (ck i)) s =
      (Inr (if i < length ds then Some (ds_name (ds ! i), ck (Suc i)) else None), s\<lparr>run_io := t\<rparr>)"
    by (simp add: on_io_def on_part_def listed)
  show ?case
  proof (cases "i < length ds")
    case False
    with Suc.prems(4,8) have "ms = []" by (simp add: forest_items_def)
    with False listing t show ?thesis by (simp add: bindE_def ret_apply)
  next
    case True
    obtain nm ps k cs where d: "ds ! i = Dataset nm ps k cs" by (cases "ds ! i")
    have tree: "answers_tree E first pool (Dataset nm ps k cs)"
      using Suc.prems(3) True d by (metis list_all_length)
    then obtain ck' where sub: "name_ok nm" "lists_children E first nm ck' cs" "list_all (answers_tree E first pool) cs"
        and small: "length (encode_stream ps) < resp_size" by auto
    have items: "forest_items c pool (drop i ds) = dataset_items c pool nm (ds_final ps k) @
        forest_items c pool (drop 0 cs) @ forest_items c pool (drop (Suc i) ds)"
      using forest_drop(1) [OF True, of c pool] by (simp add: d) (simp add: forest_items_def)
    obtain ms1 ms2 ms3 where ms: "ms = ms1 @ ms2 @ ms3"
        and acc: "list_all2 (accepts P) (dataset_items c pool nm (ds_final ps k)) ms1"
          "list_all2 (accepts P) (forest_items c pool (drop 0 cs)) ms2"
          "list_all2 (accepts P) (forest_items c pool (drop (Suc i) ds)) ms3"
      using Suc.prems(8) by (auto simp: items list_all2_append1)
    have count: "forest_count (drop 0 cs) < n" "forest_count (drop (Suc i) ds) < n"
      using Suc.prems(7) forest_drop(2) [OF True] by (simp_all add: d) (simp_all add: forest_count_def)
    obtain post where "resp_data t = encode_stream ps @ post" "post \<noteq> []"
      using data [OF True] small d by auto
    then obtain w' where round: "dataset_round rounds E P c pool nm (s\<lparr>run_io := t\<rparr>) =
        (Inr (), s\<lparr>run_io := t\<lparr>io_world := w'\<rparr>, run_ch := send_all ms1 (run_ch s)\<rparr>)"
      using dataset_round_listed [OF tree _ _ acc(1), of "s\<lparr>run_io := t\<rparr>" post rounds] by auto
    let ?s = "s\<lparr>run_io := t\<lparr>io_world := w'\<rparr>, run_ch := send_all ms1 (run_ch s)\<rparr>"
    have "ck' 0 = 0" using sub(2) by (simp add: lists_children_def)
    moreover have "full_resp (run_io ?s)" using t by simp
    ultimately obtain s1 where s1: "findDatasets n rounds E first P c pool nm 0 ?s = (Inr (), s1)"
        "full_resp (run_io s1)" "run_ch s1 = send_all ms2 (run_ch ?s)"
      using Suc.IH [OF sub(2,1,3) le0 _ Suc.prems(6) count(1) acc(2), of ?s] by auto
    have "Suc i \<le> length ds" using True by simp
    then obtain s2 where s2: "findDatasets n rounds E first P c pool prefix (ck (Suc i)) s1 = (Inr (), s2)"
        "full_resp (run_io s2)" "run_ch s2 = send_all ms3 (run_ch s1)"
      using Suc.IH [OF Suc.prems(1-3) _ s1(2) Suc.prems(6) count(2) acc(3)] by auto
    have "findDatasets (Suc n) rounds E first P c pool prefix (ck i) s = (Inr (), s2)"
      using True d by (simp add: bindE_def listing round s1(1) s2(1))
    with s1 s2 ms show ?thesis by (simp add: send_all_append)
  qed
qed

section \<open>A retry in the middle of the enumeration\<close>

text \<open>
  Answers to one block: ENOMEM, with the size that is needed, and success. Both leave a name
  and a cookie in the block.
\<close>

definition wants_more :: "'w environ \<Rightarrow> IoctlNumber \<Rightarrow> string \<times> 64 word \<Rightarrow> string \<times> 64 word \<Rightarrow> 64 word \<Rightarrow> bool" where
  "wants_more E first asked left need \<longleftrightarrow>
     (\<forall>cmd w. (GetName cmd, Cookie cmd) = asked \<longrightarrow> unat (Nvlist_dst_size cmd) = resp_size \<longrightarrow>
        (\<exists>cmd' w' new. sys_ioctl E (ZFS_IOC_DATASET_LIST_NEXT first) cmd None None w = ((ENOMEM, cmd', new), w') \<and>
           (GetName cmd', Cookie cmd') = left \<and> Nvlist_dst_size cmd' = need))"

definition gives_next :: "'w environ \<Rightarrow> IoctlNumber \<Rightarrow> string \<times> 64 word \<Rightarrow> 64 word \<Rightarrow> string \<times> 64 word \<Rightarrow> bool" where
  "gives_next E first asked room found \<longleftrightarrow>
     (\<forall>cmd w. (GetName cmd, Cookie cmd) = asked \<longrightarrow> Nvlist_dst_size cmd = room \<longrightarrow>
        (\<exists>cmd' w' new. sys_ioctl E (ZFS_IOC_DATASET_LIST_NEXT first) cmd None None w = ((0, cmd', new), w') \<and>
           (GetName cmd', Cookie cmd') = found))"

lemma grow_resp_cmd: "grow_resp H s = (Inr (), s') \<Longrightarrow> io_cmd s' = io_cmd s"
  by (auto simp: grow_resp_def split: prod.splits sum.splits)

lemma GetName_set_dst [simp]: "GetName (set_dst a n cmd) = GetName cmd" "Cookie (set_dst a n cmd) = Cookie cmd"
  by (simp_all add: set_dst_def GetName_def)

lemma list_next_retried:
  assumes more: "wants_more E first (prefix, cookie) left need" and next_one: "gives_next E first left need found"
    and "name_ok prefix" and "full_resp s" and need: "0 < need" "unat need \<le> max_alloc E" and rounds: "2 \<le> rounds"
  shows "\<exists>s'. list_next rounds E first prefix cookie s = (Inr (Some found), s')"
proof -
  let ?num = "ZFS_IOC_DATASET_LIST_NEXT first" and ?s = "s\<lparr>io_cmd := next_cmd prefix cookie\<rparr>"
  obtain k where k: "rounds = Suc (Suc k)" using rounds by (cases rounds; cases "rounds - 1") auto
  have full: "full_resp ?s" using assms(4) by simp
  obtain cmd where g: "GetName cmd = GetName (io_cmd ?s)" "Cookie cmd = Cookie (io_cmd ?s)"
    and size: "unat (Nvlist_dst_size cmd) = resp_size"
    and run: "\<And>errno cmd' new w'.
        sys_ioctl E ?num cmd None None (io_world ?s) = ((errno, cmd', new), w') \<Longrightarrow>
      \<exists>s'. attempt E ?num None None ?s = (Inr errno, s') \<and> full_resp s' \<and> io_cmd s' = cmd'"
    using attempt_full [OF full] by metis
  have "(GetName cmd, Cookie cmd) = (prefix, cookie)"
    using g name_ok_prefix [OF assms(3)] by (simp add: GetName_next_cmd) (simp add: next_cmd_def)
  from more [unfolded wants_more_def, rule_format, OF this size] obtain cmd' w' new
    where sys: "sys_ioctl E ?num cmd None None (io_world ?s) = ((ENOMEM, cmd', new), w')"
      and cmd': "(GetName cmd', Cookie cmd') = left" "Nvlist_dst_size cmd' = need" by blast
  from run [OF sys] obtain s1 where a1: "attempt E ?num None None ?s = (Inr ENOMEM, s1)"
      and s1: "full_resp s1" "io_cmd s1 = cmd'" by blast
  obtain b1 where b1: "io_resp s1 = Some b1" using s1(1) by (auto simp: full_resp_def)
  have "Nvlist_dst_size (io_cmd s1) = word_of_nat (unat need)" using s1(2) cmd'(2) by simp
  then obtain s2 a where g: "grow_resp E s1 = (Inr (), s2)"
      and b2: "io_resp s2 = Some \<lparr>buf_addr = a, buf_bytes = zero_bytes (unat need)\<rparr>"
    using grow_resp_eq [of s1 "unat need" E] need(2) unsigned_less [of need, where ?'a = nat] by auto
  let ?cmd = "set_dst a need (io_cmd s2)"
  have "(GetName ?cmd, Cookie ?cmd) = left" using grow_resp_cmd [OF g] s1(2) cmd'(1) by simp
  moreover have "Nvlist_dst_size ?cmd = need" by (simp add: set_dst_def)
  ultimately obtain cmd2 w2 new2
    where sys2: "sys_ioctl E ?num ?cmd None None (io_world s2) = ((0, cmd2, new2), w2)"
      and cmd2: "(GetName cmd2, Cookie cmd2) = found"
    using next_one [unfolded gives_next_def, rule_format] by blast
  have "zero_bytes (unat need) \<noteq> []" using need(1) by (simp add: zero_bytes_def unat_gt_0)
  moreover have "length (zero_bytes (unat need)) = unat need" by (simp add: zero_bytes_def)
  ultimately obtain s3 where a3: "attempt E ?num None None s2 = (Inr 0, s3)" and s3: "io_cmd s3 = cmd2"
    using sys2 by (simp add: attempt_resp [OF b2] issue_def)
  have "Ioctl rounds E ?num None None ?s = Ioctl (Suc k) E ?num None None s2"
    unfolding k by (rule Ioctl_grow [OF a1 b1 g])
  also have "\<dots> = (Inr (), s3)" by (rule Ioctl_done [OF a3])
  finally show ?thesis using s3 cmd2 by (simp add: list_next_eq case_unit_any)
qed

end
