(* ===== verification/Collection.thy ===== *)
theory Collection
  imports Enumeration
begin

text \<open>
  A collection against its specification. What the kernel and the file system would answer is
  a list of pools, each with its statistics and its dataset trees; \<open>collect\<close> exports every pool
  with its vdevs and its datasets, in the order of the answers, and leaves its caller's command
  block and response buffer as they were.
\<close>

section \<open>Pools\<close>

text \<open>A pool: its name, its configuration in the list of pools, its statistics, its datasets.\<close>

datatype pool = Pool (pl_name: string) (pl_config: "nvpair list") (pl_stats: "nvpair list")
  (pl_datasets: "dataset list")

definition pool_items :: "'d zfsCollector \<Rightarrow> string \<Rightarrow> pool_stats \<Rightarrow> 'd item list" where
  "pool_items c nm st =
     map (\<lambda>state. (False, poolState c, GaugeValue, gauge state (pool_state st), [nm, state])) PoolStates @
     [(False, poolErrorCount c, CounterValue, float64_of (pool_errors st), [nm])]"

text \<open>What is exported for a pool: its state and errors, its vdev tree, its datasets.\<close>

definition pool_exports :: "'d zfsCollector \<Rightarrow> pool \<Rightarrow> 'd item list" where
  "pool_exports c p =
     (let st = pool_stats_of (pl_stats p)
      in pool_items c (pl_name p) st @
         (case pool_vdev st of None \<Rightarrow> [] | Some v \<Rightarrow> vdev_items c (pl_name p) [] v) @
         forest_items c (pl_name p) (pl_datasets p))"

text \<open>The bound that the enumeration of a pool needs.\<close>

definition pool_bound :: "pool \<Rightarrow> nat" where
  "pool_bound p = Suc (forest_count (pl_datasets p))"

section \<open>What the system answers\<close>

definition answers_stats :: "'w environ \<Rightarrow> IoctlNumber \<Rightarrow> pool \<Rightarrow> bool" where
  "answers_stats E first p \<longleftrightarrow> list_all wf_pair (pl_stats p) \<and> list_all pool_pair_ok (pl_stats p) \<and>
     length (encode_stream (pl_stats p)) < resp_size \<and>
     (\<forall>cmd w. GetName cmd = pl_name p \<longrightarrow> unat (Nvlist_dst_size cmd) = resp_size \<longrightarrow>
        (\<exists>cmd' w'. sys_ioctl E (ZFS_IOC_POOL_STATS first) cmd None None w =
           ((0, cmd', encode_stream (pl_stats p)), w')))"

definition answers_pool :: "'w environ \<Rightarrow> IoctlNumber \<Rightarrow> pool \<Rightarrow> bool" where
  "answers_pool E first p \<longleftrightarrow> name_ok (pl_name p) \<and> answers_stats E first p \<and>
     pool_vdev (pool_stats_of (pl_stats p)) \<noteq> None \<and>
     (\<exists>ck. lists_children E first (pl_name p) ck (pl_datasets p)) \<and>
     list_all (answers_tree E first (pl_name p)) (pl_datasets p)"

definition config_pairs :: "pool list \<Rightarrow> nvpair list" where
  "config_pairs ps = map (\<lambda>p. Embedded (pl_name p) (pl_config p)) ps"

definition answers_configs :: "'w environ \<Rightarrow> IoctlNumber \<Rightarrow> pool list \<Rightarrow> bool" where
  "answers_configs E first ps \<longleftrightarrow> list_all wf_pair (config_pairs ps) \<and>
     length (encode_stream (config_pairs ps)) < resp_size \<and>
     (\<forall>cmd w. unat (Nvlist_dst_size cmd) = resp_size \<longrightarrow>
        (\<exists>cmd' w'. sys_ioctl E (ZFS_IOC_POOL_CONFIGS first) cmd None None w =
           ((0, cmd', encode_stream (config_pairs ps)), w')))"

text \<open>The system the collector runs on: memory for a response buffer, and the answers.\<close>

definition answers :: "'w environ \<Rightarrow> IoctlNumber \<Rightarrow> pool list \<Rightarrow> bool" where
  "answers E first ps \<longleftrightarrow> resp_size \<le> max_alloc E \<and> answers_configs E first ps \<and>
     list_all (answers_pool E first) ps"

section \<open>A pool\<close>

lemma pool_metrics_items: "pool_metrics P c nm st = forE (pool_items c nm st) (emit P)"
proof -
  have "forE PoolStates (\<lambda>state. bindE (new_metric P (poolState c) GaugeValue (gauge state (pool_state st)) [nm, state]) send) =
      forE (map (\<lambda>state. (False, poolState c, GaugeValue, gauge state (pool_state st), [nm, state])) PoolStates) (emit P)"
    unfolding forE_map by (rule forE_cong) (auto simp: emit_def)
  then show ?thesis
    by (auto simp: fun_eq_iff pool_metrics_def pool_items_def forE_append emit_def bindE_def ret_apply
        split: prod.split sum.split)
qed

lemma make_resp_full:
  assumes "resp_size \<le> max_alloc E"
  obtains w b where "make_resp E t = (Inr (), t\<lparr>io_world := w, io_resp := Some b\<rparr>)"
    and "length (buf_bytes b) = resp_size"
proof -
  obtain a w where "allocate E resp_size (io_world t) = (a, w)" by (cases "allocate E resp_size (io_world t)")
  with assms show ?thesis
    by (intro that [where w = w and b = "\<lparr>buf_addr = a, buf_bytes = zero_bytes resp_size\<rparr>"])
      (simp_all add: make_resp_def on_world_def on_part_def make_bytes_def bindE_def modify_apply zero_bytes_def)
qed

text \<open>A call that the kernel answers at once.\<close>

lemma Ioctl_answered:
  assumes "full_resp t" and "0 < rounds" and "length reply < resp_size"
    and "\<And>cmd w. GetName cmd = GetName (io_cmd t) \<Longrightarrow> unat (Nvlist_dst_size cmd) = resp_size \<Longrightarrow>
      \<exists>cmd' w'. sys_ioctl E num cmd None None w = ((0, cmd', reply), w')"
  obtains t' post where "Ioctl rounds E num None None t = (Inr (), t')" and "full_resp t'"
    and "resp_data t' = reply @ post" and "post \<noteq> []"
proof -
  obtain k where k: "rounds = Suc k" using assms(2) by (cases rounds) auto
  obtain cmd where cmd: "GetName cmd = GetName (io_cmd t)" "unat (Nvlist_dst_size cmd) = resp_size"
    and run: "\<And>errno cmd' new w'. sys_ioctl E num cmd None None (io_world t) = ((errno, cmd', new), w') \<Longrightarrow>
      \<exists>s'. attempt E num None None t = (Inr errno, s') \<and> full_resp s' \<and> io_cmd s' = cmd' \<and> io_world s' = w' \<and>
        (length new < resp_size \<longrightarrow> (\<exists>post. post \<noteq> [] \<and> resp_data s' = new @ post))"
    using attempt_full [OF assms(1)] by metis
  from assms(4) [OF cmd] obtain cmd' w' where "sys_ioctl E num cmd None None (io_world t) = ((0, cmd', reply), w')"
    by blast
  from run [OF this] assms(3) obtain t' post where "attempt E num None None t = (Inr 0, t')" "full_resp t'"
      "post \<noteq> []" "resp_data t' = reply @ post" by auto
  then show ?thesis using that unfolding k by (metis Ioctl_done)
qed

text \<open>A function body that succeeds leaves its caller's command block and buffer as they were.\<close>

lemma with_locals_eq:
  assumes "m (s\<lparr>run_io := (run_io s)\<lparr>io_cmd := zero_cmd, io_resp := None\<rparr>\<rparr>) = (r, s')"
  shows "with_locals m s =
    (r, s\<lparr>run_io := (run_io s)\<lparr>io_world := io_world (run_io s')\<rparr>, run_ch := run_ch s'\<rparr>)"
  using assms by (simp add: with_locals_def Let_def)

text \<open>The statistics of a pool, read from a fresh command block and a fresh buffer.\<close>

lemma pool_request_answered:
  assumes "name_ok (pl_name p)" and "answers_stats E first p" and "resp_size \<le> max_alloc E" and "0 < rounds"
  obtains t' where "full_resp t'"
    and "pool_request rounds E first (pl_name p) (t\<lparr>io_cmd := zero_cmd, io_resp := None\<rparr>) =
      (Inr (pool_stats_of (pl_stats p)), t')"
proof -
  let ?t = "t\<lparr>io_cmd := snd (SetName (pl_name p) zero_cmd), io_resp := None\<rparr>"
  have named: "on_cmd (SetName (pl_name p)) (t\<lparr>io_cmd := zero_cmd, io_resp := None\<rparr>) = (Inr (), ?t)"
    by (simp add: on_cmd_def on_part_def) (subst SetName_zero, simp)
  obtain w b where made: "make_resp E ?t = (Inr (), ?t\<lparr>io_world := w, io_resp := Some b\<rparr>)"
      and b: "length (buf_bytes b) = resp_size" using make_resp_full [OF assms(3)] .
  let ?u = "?t\<lparr>io_world := w, io_resp := Some b\<rparr>"
  have full: "full_resp ?u" using b by (simp add: full_resp_def)
  have name: "GetName (io_cmd ?u) = pl_name p"
    using GetName_SetName_cleared [of "pl_name p" zero_cmd] name_ok_prefix [OF assms(1)]
    by (simp add: Clear_def)
  have len: "length (encode_stream (pl_stats p)) < resp_size"
    and ok: "list_all wf_pair (pl_stats p)" "list_all pool_pair_ok (pl_stats p)"
    using assms(2) by (simp_all add: answers_stats_def)
  obtain t' post where called: "Ioctl rounds E (ZFS_IOC_POOL_STATS first) None None ?u = (Inr (), t')"
      and t: "full_resp t'" "resp_data t' = encode_stream (pl_stats p) @ post" "post \<noteq> []"
    by (rule Ioctl_answered [OF full assms(4) len])
      (use assms(2) name in \<open>auto simp: answers_stats_def\<close>)
  have "parse_resp (parsePoolStats zero_pool_stats) t' = (Inr (pool_stats_of (pl_stats p)), t')"
    using pool_lists.reads_stream [OF ok t(3)] by (simp add: parse_resp_def query_apply t(2) pool_stats_of_def)
  then have "pool_request rounds E first (pl_name p) (t\<lparr>io_cmd := zero_cmd, io_resp := None\<rparr>) =
      (Inr (pool_stats_of (pl_stats p)), t')"
    unfolding pool_request_def
    by (simp only: bindE_Inr [of "on_cmd (SetName (pl_name p))", OF named] bindE_Inr [of "make_resp E", OF made]
        bindE_Inr [of "Ioctl rounds E (ZFS_IOC_POOL_STATS first) None None", OF called])
  with t(1) show thesis by (rule that)
qed

lemma handlePool_read:
  assumes "pool_request rounds E first nm ((run_io s)\<lparr>io_cmd := zero_cmd, io_resp := None\<rparr>) = (Inr st, t)"
    and "bindE (on_ch (pool_metrics P c nm st)) (\<lambda>_. bindE (on_ch (pool_vdev_metrics P c nm st)) (\<lambda>_.
      findDatasets n rounds E first P c nm nm 0)) (s\<lparr>run_io := t\<rparr>) = (r, s')"
  shows "handlePool n rounds E first P c nm s =
    (r, s\<lparr>run_io := (run_io s)\<lparr>io_world := io_world (run_io s')\<rparr>, run_ch := run_ch s'\<rparr>)"
proof -
  have "on_io (pool_request rounds E first nm) (s\<lparr>run_io := (run_io s)\<lparr>io_cmd := zero_cmd, io_resp := None\<rparr>\<rparr>) =
      (Inr st, s\<lparr>run_io := t\<rparr>)"
    by (simp add: assms(1) on_io_def on_part_def)
  then show ?thesis unfolding handlePool_def
    by (intro with_locals_eq) (simp only: bindE_Inr [of "on_io (pool_request rounds E first nm)"] assms(2))
qed

lemma handlePool_answered:
  assumes pool: "answers_pool E first p" and "resp_size \<le> max_alloc E" and rounds: "0 < rounds"
    and bound: "pool_bound p \<le> n" and acc: "list_all2 (accepts P) (pool_exports c p) ms"
  shows "\<exists>w'. handlePool n rounds E first P c (pl_name p) s =
    (Inr (), s\<lparr>run_io := (run_io s)\<lparr>io_world := w'\<rparr>, run_ch := send_all ms (run_ch s)\<rparr>)"
proof -
  let ?st = "pool_stats_of (pl_stats p)" and ?nm = "pl_name p"
  from pool obtain v ck where v: "pool_vdev ?st = Some v" and ok: "name_ok ?nm" "answers_stats E first p"
      and listed: "lists_children E first ?nm ck (pl_datasets p)" "list_all (answers_tree E first ?nm) (pl_datasets p)"
    unfolding answers_pool_def by blast
  from acc obtain ms1 ms2 ms3 where ms: "ms = ms1 @ ms2 @ ms3" and acc1: "list_all2 (accepts P) (pool_items c ?nm ?st) ms1"
      and acc2: "list_all2 (accepts P) (vdev_items c ?nm [] v) ms2"
      and acc3: "list_all2 (accepts P) (forest_items c ?nm (drop 0 (pl_datasets p))) ms3"
    by (auto simp: pool_exports_def Let_def v list_all2_append1)
  obtain t where t: "full_resp t"
      and read: "pool_request rounds E first ?nm ((run_io s)\<lparr>io_cmd := zero_cmd, io_resp := None\<rparr>) = (Inr ?st, t)"
    using pool_request_answered [OF ok assms(2) rounds] by blast
  let ?s = "s\<lparr>run_io := t, run_ch := send_all (ms1 @ ms2) (run_ch s)\<rparr>"
  have full: "full_resp (run_io ?s)" and bound': "forest_count (drop 0 (pl_datasets p)) < n"
    using t bound by (simp_all add: pool_bound_def)
  have "ck 0 = 0" using listed(1) by (simp add: lists_children_def)
  then obtain s' where s': "findDatasets n rounds E first P c ?nm ?nm 0 ?s = (Inr (), s')"
      "run_ch s' = send_all ms3 (run_ch ?s)"
    using findDatasets_listed [OF listed(1) ok(1) listed(2) le0 full rounds bound' acc3] by metis
  have "bindE (on_ch (pool_metrics P c ?nm ?st)) (\<lambda>_. bindE (on_ch (pool_vdev_metrics P c ?nm ?st)) (\<lambda>_.
      findDatasets n rounds E first P c ?nm ?nm 0)) (s\<lparr>run_io := t\<rparr>) = (Inr (), s')"
    by (simp add: bindE_def on_ch_def on_part_def pool_metrics_items pool_vdev_metrics_def v handleVdev_items
        emit_all [OF acc1] emit_all [OF acc2] send_all_append s'(1))
  from handlePool_read [OF read this] show ?thesis by (auto simp: s'(2) ms send_all_append)
qed

text \<open>A pool without a vdev tree: the metrics of the pool itself are sent, then the exporter panics.\<close>

lemma handlePool_no_vdev:
  assumes "name_ok (pl_name p)" and "answers_stats E first p" and "pool_vdev (pool_stats_of (pl_stats p)) = None"
    and "resp_size \<le> max_alloc E" and "0 < rounds"
    and "list_all2 (accepts P) (pool_items c (pl_name p) (pool_stats_of (pl_stats p))) ms"
  shows "\<exists>w'. handlePool n rounds E first P c (pl_name p) s =
    (Inl (Panic NilDereference), s\<lparr>run_io := (run_io s)\<lparr>io_world := w'\<rparr>, run_ch := send_all ms (run_ch s)\<rparr>)"
proof -
  let ?st = "pool_stats_of (pl_stats p)" and ?nm = "pl_name p"
  obtain t where read: "pool_request rounds E first ?nm ((run_io s)\<lparr>io_cmd := zero_cmd, io_resp := None\<rparr>) = (Inr ?st, t)"
    using pool_request_answered [OF assms(1,2,4,5)] by blast
  have "bindE (on_ch (pool_metrics P c ?nm ?st)) (\<lambda>_. bindE (on_ch (pool_vdev_metrics P c ?nm ?st)) (\<lambda>_.
      findDatasets n rounds E first P c ?nm ?nm 0)) (s\<lparr>run_io := t\<rparr>) =
      (Inl (Panic NilDereference), s\<lparr>run_io := t, run_ch := send_all ms (run_ch s)\<rparr>)"
    by (simp add: bindE_def on_ch_def on_part_def pool_metrics_items pool_vdev_metrics_def assms(3)
        emit_all [OF assms(6)] panics_apply)
  from handlePool_read [OF read this] show ?thesis by auto
qed

section \<open>All pools\<close>

lemma on_reader_run: "m r = (x, r') \<Longrightarrow> on_reader m (r, s) = (x, (r', s))"
  by (simp add: on_reader_def on_part_def)

lemma on_io_run: "m (run_io s) = (x, t) \<Longrightarrow> on_io m s = (x, s\<lparr>run_io := t\<rparr>)"
  by (simp add: on_io_def on_part_def)

lemma on_rest_run: "m s = (x, s') \<Longrightarrow> on_rest m (r, s) = (x, (r, s'))"
  by (simp add: on_rest_def on_part_def)

lemma encode_not_Nil: "encode p \<noteq> []"
  by (cases p) (simp_all add: wire_pair_def)

lemma length_le_encode: "length ps \<le> length (encode_list ps)"
proof (induction ps)
  case (Cons p ps)
  have "1 \<le> length (encode p)" using encode_not_Nil [of p] by (cases "encode p") auto
  with Cons show ?case unfolding encode_list_Cons length_append list.size by linarith
qed simp

text \<open>One round: the pool's name, its metrics, and its configuration skipped.\<close>

lemma collect_step_pool:
  assumes pool: "answers_pool E first p" and mem: "resp_size \<le> max_alloc E" and rounds: "0 < rounds"
    and bound: "pool_bound p \<le> n" and acc: "list_all2 (accepts P) (pool_exports c p) ms"
    and cfg: "list_all wf_pair (pl_config p)"
    and r: "before r (encode_list (pl_config p) @ rest)" "0 < length rest" "Name r = pl_name p"
  obtains r' w' where "before r' rest"
    and "collect_step n rounds E first P c TypeNvlist () (r, s) =
      (Inr (), (r', s\<lparr>run_io := (run_io s)\<lparr>io_world := w'\<rparr>, run_ch := send_all ms (run_ch s)\<rparr>))"
proof -
  obtain r' where skip: "Skip r = (Inr (), r')" and r': "before r' rest"
    using passesD [OF Skip_passes [OF cfg] r(1,2)] .
  obtain w' where "handlePool n rounds E first P c (pl_name p) s =
      (Inr (), s\<lparr>run_io := (run_io s)\<lparr>io_world := w'\<rparr>, run_ch := send_all ms (run_ch s)\<rparr>)"
    using handlePool_answered [OF pool mem rounds bound acc] by blast
  then have pooled: "on_rest (handlePool n rounds E first P c (pl_name p)) (r, s) =
      (Inr (), (r, s\<lparr>run_io := (run_io s)\<lparr>io_world := w'\<rparr>, run_ch := send_all ms (run_ch s)\<rparr>))"
    by (rule on_rest_run)
  have named: "on_reader (gets Name) (r, s) = (Inr (pl_name p), (r, s))"
    using on_reader_run [of "gets Name" r _ _ s] by (simp add: gets_apply r(3))
  show ?thesis
    by (rule that [OF r', of w']) (simp add: collect_step_def bindE_def named pooled on_reader_run [of Skip, OF skip])
qed

text \<open>The pairs of a list without its end marker, one round for each.\<close>

lemma collect_loop_prefix:
  assumes "list_all (answers_pool E first) ps" and "list_all wf_pair (config_pairs ps)"
    and "resp_size \<le> max_alloc E" and "0 < rounds" and "\<forall>p\<in>set ps. pool_bound p \<le> n"
    and "list_all2 (accepts P) (concat (map (pool_exports c) ps)) ms"
    and "before r (concat (map encode (config_pairs ps)) @ rest)" and "4 \<le> length rest"
  shows "\<exists>r' w'. before r' rest \<and> collect_loop (length ps + j) n rounds E first P c (r, s) =
    collect_loop j n rounds E first P c
      (r', s\<lparr>run_io := (run_io s)\<lparr>io_world := w'\<rparr>, run_ch := send_all ms (run_ch s)\<rparr>)"
  using assms
proof (induction ps arbitrary: ms r s)
  case Nil
  then show ?case
    by (intro exI [of _ r] exI [of _ "io_world (run_io s)"]) (simp add: config_pairs_def)
next
  case (Cons p ps)
  let ?rest = "concat (map encode (config_pairs ps)) @ rest" and ?pair = "Embedded (pl_name p) (pl_config p)"
  have wf: "wf_pair ?pair" using Cons.prems(2) by (simp add: config_pairs_def)
  have "4 < length (pair_tail ?pair @ ?rest)" and rest: "0 < length ?rest"
    using length_encode_list [of "pl_config p"] Cons.prems(8) by auto
  moreover have "before r (encode ?pair @ ?rest)"
    using Cons.prems(7) by (simp add: config_pairs_def)
  ultimately obtain r1 where nxt: "Next r = (Inr TypeNvlist, r1)" and r1: "before r1 (encode_list (pl_config p) @ ?rest)"
      and name: "Name r1 = pl_name p"
    using Next_encode [OF _ wf, of r ?rest] by auto
  obtain ms1 ms2 where ms: "ms = ms1 @ ms2" and acc: "list_all2 (accepts P) (pool_exports c p) ms1"
      "list_all2 (accepts P) (concat (map (pool_exports c) ps)) ms2"
    using Cons.prems(6) by (auto simp: list_all2_append1)
  have cfg: "list_all wf_pair (pl_config p)" using wf by simp
  have pool: "answers_pool E first p" and bound: "pool_bound p \<le> n" using Cons.prems(1,5) by simp_all
  obtain r2 w where r2: "before r2 ?rest" and step: "collect_step n rounds E first P c TypeNvlist () (r1, s) =
      (Inr (), (r2, s\<lparr>run_io := (run_io s)\<lparr>io_world := w\<rparr>, run_ch := send_all ms1 (run_ch s)\<rparr>))"
    using collect_step_pool [OF pool Cons.prems(3,4) bound acc(1) cfg r1 rest name] .
  let ?s = "s\<lparr>run_io := (run_io s)\<lparr>io_world := w\<rparr>, run_ch := send_all ms1 (run_ch s)\<rparr>"
  have "\<exists>r' w'. before r' rest \<and> collect_loop (length ps + j) n rounds E first P c (r2, ?s) =
      collect_loop j n rounds E first P c
        (r', ?s\<lparr>run_io := (run_io ?s)\<lparr>io_world := w'\<rparr>, run_ch := send_all ms2 (run_ch ?s)\<rparr>)"
    by (rule Cons.IH [OF _ _ Cons.prems(3,4) _ acc(2) r2 Cons.prems(8)])
      (use Cons.prems in \<open>auto simp: config_pairs_def\<close>)
  moreover have "collect_loop (length (p # ps) + j) n rounds E first P c (r, s) =
      collect_loop (length ps + j) n rounds E first P c (r2, ?s)"
    by (simp add: collect_loop_def on_reader_run [of Next, OF nxt] bindE_def step)
  ultimately show ?case by (auto simp: ms send_all_append)
qed

lemma collect_loop_answered:
  assumes "list_all (answers_pool E first) ps" and "list_all wf_pair (config_pairs ps)"
    and "resp_size \<le> max_alloc E" and "0 < rounds" and "\<forall>p\<in>set ps. pool_bound p \<le> n"
    and "list_all2 (accepts P) (concat (map (pool_exports c) ps)) ms"
    and "before r (encode_list (config_pairs ps) @ rest)" and "0 < length rest" and "length ps < k"
  shows "\<exists>r' w'. collect_loop k n rounds E first P c (r, s) =
    (Inr (), (r', s\<lparr>run_io := (run_io s)\<lparr>io_world := w'\<rparr>, run_ch := send_all ms (run_ch s)\<rparr>))"
proof -
  obtain j where k: "k = length ps + Suc j" using assms(9) less_imp_Suc_add by fastforce
  have r: "before r (concat (map encode (config_pairs ps)) @ end_marker @ rest)"
    using assms(7) by (simp add: encode_list_def)
  have "4 \<le> length (end_marker @ rest)" by simp
  from collect_loop_prefix [OF assms(1-6) r this, of "Suc j" s] obtain r' w'
    where r': "before r' (end_marker @ rest)"
      and run: "collect_loop k n rounds E first P c (r, s) = collect_loop (Suc j) n rounds E first P c
        (r', s\<lparr>run_io := (run_io s)\<lparr>io_world := w'\<rparr>, run_ch := send_all ms (run_ch s)\<rparr>)"
    unfolding k by blast
  obtain r'' where "Next r' = (Inl (Err EOF), r'')"
    using Next_end_marker [of r' rest] r' assms(8) by (metis length_greater_0_conv)
  note on_reader_run [of Next, OF this, of "s\<lparr>run_io := (run_io s)\<lparr>io_world := w'\<rparr>, run_ch := send_all ms (run_ch s)\<rparr>"]
  then have "collect_loop k n rounds E first P c (r, s) =
      (Inr (), (r'', s\<lparr>run_io := (run_io s)\<lparr>io_world := w'\<rparr>, run_ch := send_all ms (run_ch s)\<rparr>))"
    unfolding run by (simp add: collect_loop_def)
  then show ?thesis by blast
qed

text \<open>A pool whose statistics the kernel refuses ends the loop.\<close>

definition refuses_stats :: "'w environ \<Rightarrow> IoctlNumber \<Rightarrow> string \<Rightarrow> nat \<Rightarrow> bool" where
  "refuses_stats E first nm errno \<longleftrightarrow> (\<forall>cmd w. GetName cmd = nm \<longrightarrow>
     (\<exists>cmd' w' new. sys_ioctl E (ZFS_IOC_POOL_STATS first) cmd None None w = ((errno, cmd', new), w')))"

lemma handlePool_refused:
  assumes name: "name_ok nm" and no: "refuses_stats E first nm errno" and err: "errno \<noteq> 0" "errno \<noteq> ENOMEM"
    and mem: "resp_size \<le> max_alloc E" and rounds: "0 < rounds"
  shows "\<exists>w'. handlePool n rounds E first P c nm s =
    (Inl (Err (Errno errno)), s\<lparr>run_io := (run_io s)\<lparr>io_world := w'\<rparr>\<rparr>)"
proof -
  obtain k where k: "rounds = Suc k" using rounds by (cases rounds) auto
  let ?num = "ZFS_IOC_POOL_STATS first" and ?z = "(run_io s)\<lparr>io_cmd := zero_cmd, io_resp := None\<rparr>"
  let ?t = "?z\<lparr>io_cmd := snd (SetName nm zero_cmd)\<rparr>"
  have named: "on_cmd (SetName nm) ?z = (Inr (), ?t)"
    by (simp add: on_cmd_def on_part_def) (subst SetName_zero, simp)
  obtain w b where made: "make_resp E ?t = (Inr (), ?t\<lparr>io_world := w, io_resp := Some b\<rparr>)"
      and b: "length (buf_bytes b) = resp_size" using make_resp_full [OF mem] .
  let ?u = "?t\<lparr>io_world := w, io_resp := Some b\<rparr>"
  have full: "full_resp ?u" using b by (simp add: full_resp_def)
  have nm: "GetName (io_cmd ?u) = nm"
    using GetName_SetName_cleared [of nm zero_cmd] name_ok_prefix [OF name] by (simp add: Clear_def)
  obtain cmd where cmd: "GetName cmd = GetName (io_cmd ?u)"
    and run: "\<And>errno cmd' new w'. sys_ioctl E ?num cmd None None (io_world ?u) = ((errno, cmd', new), w') \<Longrightarrow>
      \<exists>s'. attempt E ?num None None ?u = (Inr errno, s')"
    using attempt_full [OF full] by metis
  from no cmd nm obtain cmd' w' new where "sys_ioctl E ?num cmd None None (io_world ?u) = ((errno, cmd', new), w')"
    unfolding refuses_stats_def by metis
  from run [OF this] obtain t where "attempt E ?num None None ?u = (Inr errno, t)" by blast
  then have called: "Ioctl rounds E ?num None None ?u = (Inl (Err (Errno errno)), t)"
    unfolding k using err by (rule Ioctl_errno(2))
  have "pool_request rounds E first nm ?z = (Inl (Err (Errno errno)), t)"
    unfolding pool_request_def
    by (simp only: bindE_Inr [of "on_cmd (SetName nm)", OF named] bindE_Inr [of "make_resp E", OF made]
        bindE_Inl [of "Ioctl rounds E ?num None None", OF called])
  then have "on_io (pool_request rounds E first nm) (s\<lparr>run_io := ?z\<rparr>) = (Inl (Err (Errno errno)), s\<lparr>run_io := t\<rparr>)"
    using on_io_run [of "pool_request rounds E first nm" "s\<lparr>run_io := ?z\<rparr>"] by simp
  then have "handlePool n rounds E first P c nm s = (Inl (Err (Errno errno)),
      s\<lparr>run_io := (run_io s)\<lparr>io_world := io_world (run_io (s\<lparr>run_io := t\<rparr>))\<rparr>, run_ch := run_ch (s\<lparr>run_io := t\<rparr>)\<rparr>)"
    unfolding handlePool_def
    by (intro with_locals_eq) (simp only: bindE_Inl [of "on_io (pool_request rounds E first nm)"])
  then show ?thesis by auto
qed

lemma collect_loop_refused:
  assumes "list_all (answers_pool E first) ps" and "list_all wf_pair (config_pairs (ps @ p # qs))"
    and "resp_size \<le> max_alloc E" and "0 < rounds" and "\<forall>p\<in>set ps. pool_bound p \<le> n"
    and "list_all2 (accepts P) (concat (map (pool_exports c) ps)) ms"
    and "before r (encode_list (config_pairs (ps @ p # qs)) @ rest)" and "length ps < k"
    and "name_ok (pl_name p)" and "refuses_stats E first (pl_name p) errno" and "errno \<noteq> 0" "errno \<noteq> ENOMEM"
  shows "\<exists>r' w'. collect_loop k n rounds E first P c (r, s) = (Inl (Err (Errno errno)),
    (r', s\<lparr>run_io := (run_io s)\<lparr>io_world := w'\<rparr>, run_ch := send_all ms (run_ch s)\<rparr>))"
proof -
  obtain j where k: "k = length ps + Suc j" using assms(8) less_imp_Suc_add by fastforce
  let ?pair = "Embedded (pl_name p) (pl_config p)" and ?rest = "encode_list (config_pairs qs) @ rest"
  have wf: "list_all wf_pair (config_pairs ps)" "wf_pair ?pair"
    using assms(2) by (simp_all add: config_pairs_def)
  have r: "before r (concat (map encode (config_pairs ps)) @ encode ?pair @ ?rest)"
    using assms(7) by (simp add: encode_list_def config_pairs_def)
  have long: "4 < length (pair_tail ?pair @ ?rest)" and len: "4 \<le> length (encode ?pair @ ?rest)"
    using length_encode_list [of "pl_config p"] length_encode_list [of "config_pairs qs"] by simp_all
  from collect_loop_prefix [OF assms(1) wf(1) assms(3-6) r len, of "Suc j" s] obtain r' w'
    where r': "before r' (encode ?pair @ ?rest)"
      and run: "collect_loop k n rounds E first P c (r, s) = collect_loop (Suc j) n rounds E first P c
        (r', s\<lparr>run_io := (run_io s)\<lparr>io_world := w'\<rparr>, run_ch := send_all ms (run_ch s)\<rparr>)"
    unfolding k by blast
  let ?s = "s\<lparr>run_io := (run_io s)\<lparr>io_world := w'\<rparr>, run_ch := send_all ms (run_ch s)\<rparr>"
  obtain r1 where nxt: "Next r' = (Inr TypeNvlist, r1)" and name: "Name r1 = pl_name p"
    using Next_encode [OF r' wf(2) long] by auto
  obtain w'' where pool: "handlePool n rounds E first P c (pl_name p) ?s =
      (Inl (Err (Errno errno)), ?s\<lparr>run_io := (run_io ?s)\<lparr>io_world := w''\<rparr>\<rparr>)"
    using handlePool_refused [OF assms(9-12,3,4)] by blast
  have named: "on_reader (gets Name) (r1, ?s) = (Inr (pl_name p), (r1, ?s))"
    using on_reader_run [of "gets Name" r1 _ _ ?s] by (simp add: gets_apply name)
  let ?s' = "?s\<lparr>run_io := (run_io ?s)\<lparr>io_world := w''\<rparr>\<rparr>"
  have pooled: "on_rest (handlePool n rounds E first P c (pl_name p)) (r1, ?s) = (Inl (Err (Errno errno)), (r1, ?s'))"
    using pool by (rule on_rest_run)
  have "on_reader Next (r', ?s) = (Inr TypeNvlist, (r1, ?s))"
    using nxt by (rule on_reader_run)
  then have "collect_loop (Suc j) n rounds E first P c (r', ?s) = (Inl (Err (Errno errno)), (r1, ?s'))"
    by (simp add: collect_loop_def collect_step_def bindE_def named pooled)
  moreover have "?s' = s\<lparr>run_io := (run_io s)\<lparr>io_world := w''\<rparr>, run_ch := send_all ms (run_ch s)\<rparr>" by simp
  ultimately show ?thesis unfolding run by metis
qed

lemma collect_body:
  assumes "bindE (on_io (make_resp E)) (\<lambda>_.
      bindE (on_io (Ioctl rounds E (ZFS_IOC_POOL_CONFIGS first) None None)) (\<lambda>_.
      read_configs n rounds E first P c)) (s\<lparr>run_io := (run_io s)\<lparr>io_cmd := zero_cmd, io_resp := None\<rparr>\<rparr>) = (r, s')"
  shows "collect n rounds E first P c s =
    (r, s\<lparr>run_io := (run_io s)\<lparr>io_world := io_world (run_io s')\<rparr>, run_ch := run_ch s'\<rparr>)"
  unfolding collect_def using assms by (rule with_locals_eq)

text \<open>The outcome of a collection is the outcome of the loop over the listed pools.\<close>

lemma collect_listed:
  assumes mem: "resp_size \<le> max_alloc E" and cfgs: "answers_configs E first ps" and rounds: "0 < rounds"
    and loop: "\<And>r post s k. before r (encode_list (config_pairs ps) @ post) \<Longrightarrow> 0 < length post \<Longrightarrow> length ps < k \<Longrightarrow>
      \<exists>r' w'. collect_loop k n rounds E first P c (r, s) =
        (x, (r', s\<lparr>run_io := (run_io s)\<lparr>io_world := w'\<rparr>, run_ch := send_all ms (run_ch s)\<rparr>))"
  shows "\<exists>w'. collect n rounds E first P c s =
    (x, s\<lparr>run_io := (run_io s)\<lparr>io_world := w'\<rparr>, run_ch := send_all ms (run_ch s)\<rparr>)"
proof -
  let ?t = "(run_io s)\<lparr>io_cmd := zero_cmd, io_resp := None\<rparr>"
  obtain w b where made: "make_resp E ?t = (Inr (), ?t\<lparr>io_world := w, io_resp := Some b\<rparr>)"
      and b: "length (buf_bytes b) = resp_size" using make_resp_full [OF mem] .
  let ?u = "?t\<lparr>io_world := w, io_resp := Some b\<rparr>"
  have full: "full_resp ?u" using b by (simp add: full_resp_def)
  have len: "length (encode_stream (config_pairs ps)) < resp_size" using cfgs by (simp add: answers_configs_def)
  obtain t post where called: "Ioctl rounds E (ZFS_IOC_POOL_CONFIGS first) None None ?u = (Inr (), t)"
      and t: "resp_data t = encode_stream (config_pairs ps) @ post" "post \<noteq> []"
    by (rule Ioctl_answered [OF full rounds len]) (use cfgs in \<open>auto simp: answers_configs_def\<close>)
  let ?r = "new_reader (resp_data t)" and ?s = "s\<lparr>run_io := t\<rparr>"
  have r: "before ?r (encode_list (config_pairs ps) @ post)" using before_stream [OF t(2)] by (simp add: t(1))
  have "length ps < Suc (remaining ?r)"
    using length_le_encode [of "config_pairs ps"]
    by (simp add: remaining_def new_reader_def t(1) encode_stream_def config_pairs_def)
  then obtain r' w' where "collect_loop (Suc (remaining ?r)) n rounds E first P c (?r, ?s) =
      (x, (r', ?s\<lparr>run_io := (run_io ?s)\<lparr>io_world := w'\<rparr>, run_ch := send_all ms (run_ch ?s)\<rparr>))"
    using loop [OF r] t(2) by blast
  then have configs: "read_configs n rounds E first P c ?s =
      (x, ?s\<lparr>run_io := t\<lparr>io_world := w'\<rparr>, run_ch := send_all ms (run_ch s)\<rparr>)"
    by (simp add: read_configs_def pool_loop_def)
  have made': "on_io (make_resp E) (s\<lparr>run_io := ?t\<rparr>) = (Inr (), s\<lparr>run_io := ?u\<rparr>)"
    using on_io_run [of "make_resp E" "s\<lparr>run_io := ?t\<rparr>"] made by simp
  have called': "on_io (Ioctl rounds E (ZFS_IOC_POOL_CONFIGS first) None None) (s\<lparr>run_io := ?u\<rparr>) = (Inr (), ?s)"
    using on_io_run [of "Ioctl rounds E (ZFS_IOC_POOL_CONFIGS first) None None" "s\<lparr>run_io := ?u\<rparr>"] called by simp
  have "bindE (on_io (make_resp E)) (\<lambda>_.
      bindE (on_io (Ioctl rounds E (ZFS_IOC_POOL_CONFIGS first) None None)) (\<lambda>_.
      read_configs n rounds E first P c)) (s\<lparr>run_io := ?t\<rparr>) =
      (x, ?s\<lparr>run_io := t\<lparr>io_world := w'\<rparr>, run_ch := send_all ms (run_ch s)\<rparr>)"
    by (simp only: bindE_Inr [of "on_io (make_resp E)", OF made'] configs
        bindE_Inr [of "on_io (Ioctl rounds E (ZFS_IOC_POOL_CONFIGS first) None None)", OF called'])
  from collect_body [OF this] show ?thesis by auto
qed

lemma collect_answered:
  assumes sys: "answers E first ps" and rounds: "0 < rounds" and bound: "\<forall>p\<in>set ps. pool_bound p \<le> n"
    and acc: "list_all2 (accepts P) (concat (map (pool_exports c) ps)) ms"
  shows "\<exists>w'. collect n rounds E first P c s =
    (Inr (), s\<lparr>run_io := (run_io s)\<lparr>io_world := w'\<rparr>, run_ch := send_all ms (run_ch s)\<rparr>)"
proof (rule collect_listed [OF _ _ rounds])
  from sys show mem: "resp_size \<le> max_alloc E" and cfgs: "answers_configs E first ps" by (simp_all add: answers_def)
  from sys have pools: "list_all (answers_pool E first) ps" and wf: "list_all wf_pair (config_pairs ps)"
    by (simp_all add: answers_def answers_configs_def)
  show "\<exists>r' w'. collect_loop k n rounds E first P c (r, s) =
      (Inr (), (r', s\<lparr>run_io := (run_io s)\<lparr>io_world := w'\<rparr>, run_ch := send_all ms (run_ch s)\<rparr>))"
    if "before r (encode_list (config_pairs ps) @ post)" "0 < length post" "length ps < k" for r post s k
    by (rule collect_loop_answered [OF pools wf mem rounds bound acc that])
qed

text \<open>Pools up to one whose statistics are refused.\<close>

lemma collect_stopped:
  assumes mem: "resp_size \<le> max_alloc E" and cfgs: "answers_configs E first (ps @ p # qs)"
    and pools: "list_all (answers_pool E first) ps" and rounds: "0 < rounds"
    and bound: "\<forall>p\<in>set ps. pool_bound p \<le> n" and acc: "list_all2 (accepts P) (concat (map (pool_exports c) ps)) ms"
    and no: "name_ok (pl_name p)" "refuses_stats E first (pl_name p) errno" "errno \<noteq> 0" "errno \<noteq> ENOMEM"
  shows "\<exists>w'. collect n rounds E first P c s =
    (Inl (Err (Errno errno)), s\<lparr>run_io := (run_io s)\<lparr>io_world := w'\<rparr>, run_ch := send_all ms (run_ch s)\<rparr>)"
proof (rule collect_listed [OF mem cfgs rounds])
  have wf: "list_all wf_pair (config_pairs (ps @ p # qs))" using cfgs by (simp add: answers_configs_def)
  show "\<exists>r' w'. collect_loop k n rounds E first P c (r, s) =
      (Inl (Err (Errno errno)), (r', s\<lparr>run_io := (run_io s)\<lparr>io_world := w'\<rparr>, run_ch := send_all ms (run_ch s)\<rparr>))"
    if "before r (encode_list (config_pairs (ps @ p # qs)) @ post)" "length (ps @ p # qs) < k" for r post s k
    by (rule collect_loop_refused [OF pools wf mem rounds bound acc that(1) _ no]) (use that(2) in simp)
qed

text \<open>A kernel that refuses the list of pools.\<close>

lemma collect_refused:
  assumes no: "refuses E (ZFS_IOC_POOL_CONFIGS first) errno need" and err: "errno \<noteq> 0" "errno \<noteq> ENOMEM"
    and mem: "resp_size \<le> max_alloc E" and rounds: "0 < rounds"
  shows "\<exists>w'. collect n rounds E first P c s =
    (Inl (Err (Errno errno)), s\<lparr>run_io := (run_io s)\<lparr>io_world := w'\<rparr>\<rparr>)"
proof -
  obtain k where k: "rounds = Suc k" using rounds by (cases rounds) auto
  let ?num = "ZFS_IOC_POOL_CONFIGS first" and ?t = "(run_io s)\<lparr>io_cmd := zero_cmd, io_resp := None\<rparr>"
  obtain w b where made: "make_resp E ?t = (Inr (), ?t\<lparr>io_world := w, io_resp := Some b\<rparr>)"
      and b: "length (buf_bytes b) = resp_size" using make_resp_full [OF mem] .
  let ?u = "?t\<lparr>io_world := w, io_resp := Some b\<rparr>"
  have full: "full_resp ?u" using b by (simp add: full_resp_def)
  obtain cmd where run: "\<And>errno cmd' new w'. sys_ioctl E ?num cmd None None (io_world ?u) = ((errno, cmd', new), w') \<Longrightarrow>
      \<exists>s'. attempt E ?num None None ?u = (Inr errno, s')"
    using attempt_full [OF full] by metis
  from no [unfolded refuses_def, rule_format, of cmd "io_world ?u"] obtain cmd' w' new
    where "sys_ioctl E ?num cmd None None (io_world ?u) = ((errno, cmd', new), w')" by blast
  from run [OF this] obtain t where "attempt E ?num None None ?u = (Inr errno, t)" by blast
  then have called: "Ioctl rounds E ?num None None ?u = (Inl (Err (Errno errno)), t)"
    unfolding k using err by (rule Ioctl_errno(2))
  have made': "on_io (make_resp E) (s\<lparr>run_io := ?t\<rparr>) = (Inr (), s\<lparr>run_io := ?u\<rparr>)"
    using on_io_run [of "make_resp E" "s\<lparr>run_io := ?t\<rparr>"] made by simp
  have called': "on_io (Ioctl rounds E ?num None None) (s\<lparr>run_io := ?u\<rparr>) = (Inl (Err (Errno errno)), s\<lparr>run_io := t\<rparr>)"
    using on_io_run [of "Ioctl rounds E ?num None None" "s\<lparr>run_io := ?u\<rparr>"] called by simp
  have "bindE (on_io (make_resp E)) (\<lambda>_. bindE (on_io (Ioctl rounds E ?num None None)) (\<lambda>_.
      read_configs n rounds E first P c)) (s\<lparr>run_io := ?t\<rparr>) = (Inl (Err (Errno errno)), s\<lparr>run_io := t\<rparr>)"
    by (simp only: bindE_Inr [of "on_io (make_resp E)", OF made']
        bindE_Inl [of "on_io (Ioctl rounds E ?num None None)", OF called'])
  from collect_body [OF this] show ?thesis by auto
qed

end
