(* ===== verification/Bounds.thy ===== *)
theory Bounds
  imports Collector
begin

text \<open>
  The two bounds of a collection, on the rounds of \<open>Ioctl\<close> and on the steps of the
  enumeration, are not part of the program. A bound that is not exhausted can be replaced by
  any larger one without changing the result or the state: \<open>stable\<close> is that contract, closed
  under everything that procedures are made of.
\<close>

section \<open>Stable procedures\<close>

definition stable :: "(nat \<Rightarrow> ('s, 'a) proc) \<Rightarrow> bool" where
  "stable m \<longleftrightarrow> (\<forall>n n' s. n \<le> n' \<longrightarrow> fst (m n s) \<noteq> Inl OutOfFuel \<longrightarrow> m n' s = m n s)"

named_theorems stable_intros \<open>closure rules of stable procedures\<close>

lemma stableI:
  assumes "\<And>n n' s. n \<le> n' \<Longrightarrow> fst (m n s) \<noteq> Inl OutOfFuel \<Longrightarrow> m n' s = m n s"
  shows "stable m"
  using assms by (simp add: stable_def)

lemma stableD: "stable m \<Longrightarrow> n \<le> n' \<Longrightarrow> fst (m n s) \<noteq> Inl OutOfFuel \<Longrightarrow> m n' s = m n s"
  by (simp add: stable_def)

lemma stable_const [stable_intros]: "stable (\<lambda>_. m)"
  by (simp add: stable_def)

lemma stable_Ioctl [stable_intros]: "stable (\<lambda>n. Ioctl n H num request config)"
  by (rule stableI) (rule Ioctl_more)

text \<open>Procedures that depend on the bound and hand it on to the rest of their chain.\<close>

lemma stable_bindE [stable_intros]:
  assumes m: "stable m" and f: "\<And>a. stable (\<lambda>n. f n a)"
  shows "stable (\<lambda>n. bindE (m n) (f n))"
proof (rule stableI)
  fix n n' s
  assume le: "n \<le> n'" and run: "fst (bindE (m n) (f n) s) \<noteq> Inl OutOfFuel"
  obtain x s1 where x: "m n s = (x, s1)" by (cases "m n s")
  with run have "fst (m n s) \<noteq> Inl OutOfFuel" by (auto simp: bindE_def)
  with stableD [OF m le] x have m': "m n' s = (x, s1)" by simp
  show "bindE (m n') (f n') s = bindE (m n) (f n) s"
  proof (cases x)
    case (Inl e)
    with x m' show ?thesis by (simp add: bindE_def)
  next
    case (Inr a)
    with run x have "fst (f n a s1) \<noteq> Inl OutOfFuel" by (simp add: bindE_def)
    from stableD [OF f le this] show ?thesis using Inr x m' by (simp add: bindE_def)
  qed
qed

lemma stable_if [stable_intros]: "stable m \<Longrightarrow> stable m' \<Longrightarrow> stable (\<lambda>n. if b then m n else m' n)"
  by (cases b) simp_all

lemma stable_case_option [stable_intros]:
  "(x = None \<Longrightarrow> stable m) \<Longrightarrow> (\<And>a. x = Some a \<Longrightarrow> stable (\<lambda>n. f n a)) \<Longrightarrow>
   stable (\<lambda>n. case x of None \<Rightarrow> m n | Some a \<Rightarrow> f n a)"
  by (cases x) simp_all

lemma stable_case_prod [stable_intros]:
  "(\<And>a b. x = (a, b) \<Longrightarrow> stable (\<lambda>n. f n a b)) \<Longrightarrow> stable (\<lambda>n. case x of (a, b) \<Rightarrow> f n a b)"
  by (cases x) simp

text \<open>Procedures on a part of the state, and procedures followed by a function of their outcome.\<close>

lemma stable_outcome:
  assumes "stable m" and "\<And>n s. g (m n (h s)) s = M n s"
    and "\<And>r t s. fst r = Inl OutOfFuel \<Longrightarrow> fst (g r s) = Inl OutOfFuel"
  shows "stable M"
proof (rule stableI)
  fix n n' s assume le: "n \<le> n'" and "fst (M n s) \<noteq> Inl OutOfFuel"
  then have "fst (m n (h s)) \<noteq> Inl OutOfFuel" using assms(2,3) by metis
  from stableD [OF assms(1) le this] show "M n' s = M n s" using assms(2) by metis
qed

lemma stable_on_part: "stable m \<Longrightarrow> stable (\<lambda>n. on_part part put (m n))"
  by (rule stable_outcome [where h = part and g = "\<lambda>(r, x) s. (r, put x s)"])
    (auto simp: on_part_def split: prod.split)

lemma stable_parts [stable_intros]:
  "stable m \<Longrightarrow> stable (\<lambda>n. on_io (m n))" "stable m1 \<Longrightarrow> stable (\<lambda>n. on_cmd (m1 n))"
  "stable m2 \<Longrightarrow> stable (\<lambda>n. on_reader (m2 n))" "stable m3 \<Longrightarrow> stable (\<lambda>n. on_rest (m3 n))"
  unfolding on_io_def on_cmd_def on_reader_def on_rest_def by (rule stable_on_part, assumption)+

lemma stable_with_locals [stable_intros]: "stable m \<Longrightarrow> stable (\<lambda>n. with_locals (m n))"
  by (rule stable_outcome [where h = "\<lambda>s. s\<lparr>run_io := (run_io s)\<lparr>io_cmd := zero_cmd, io_resp := None\<rparr>\<rparr>"
        and g = "\<lambda>(r, s') s. (r, s'\<lparr>run_io := (run_io s')\<lparr>io_cmd := io_cmd (run_io s), io_resp := io_resp (run_io s)\<rparr>\<rparr>)"])
    (auto simp: with_locals_def Let_def split: prod.split)

text \<open>A token loop whose body is stable; its own bound stays as it is.\<close>

lemma stable_forNext [stable_intros]:
  assumes "\<And>t c. stable (\<lambda>n. body n t c)"
  shows "stable (\<lambda>n. forNext nxt k (\<lambda>_. body n) c)"
proof (induction k arbitrary: c)
  case 0
  show ?case by (rule stableI) simp
next
  case (Suc k)
  have step: "stable (\<lambda>n. bindE (body n t c) (forNext nxt k (\<lambda>_. body n)))" for t
    by (rule stable_bindE [OF assms Suc])
  show ?case
  proof (rule stableI)
    fix n n' s
    assume le: "n \<le> n'" and run: "fst (forNext nxt (Suc k) (\<lambda>_. body n) c s) \<noteq> Inl OutOfFuel"
    obtain x s1 where nxt: "nxt s = (x, s1)" by (cases "nxt s")
    show "forNext nxt (Suc k) (\<lambda>_. body n') c s = forNext nxt (Suc k) (\<lambda>_. body n) c s"
      using run stableD [OF step le] by (cases x) (simp_all add: nxt)
  qed
qed

section \<open>The enumeration\<close>

lemma stable_list_next [stable_intros]: "stable (\<lambda>n. list_next n E first prefix cookie)"
  unfolding list_next_def
proof (intro stable_intros)
  fix u1 u2 u3 :: unit
  let ?num = "ZFS_IOC_DATASET_LIST_NEXT first"
  show "stable (\<lambda>n s. case Ioctl n E ?num None None s of
       (Inl (Err e), s') \<Rightarrow>
         if e = Errno ESRCH then (Inr None, s')
         else (Inl (Err (Wrapf ''error calling dataset list next: %w'' e)), s')
     | (Inl x, s') \<Rightarrow> (Inl x, s')
     | (Inr (), s') \<Rightarrow> (Inr (Some (GetName (io_cmd s'), Cookie (io_cmd s'))), s'))"
    by (rule stable_outcome [OF stable_Ioctl [of E ?num None None],
          where h = "\<lambda>s. s" and g = "\<lambda>r _. case r of
       (Inl (Err e), s') \<Rightarrow>
         if e = Errno ESRCH then (Inr None, s')
         else (Inl (Err (Wrapf ''error calling dataset list next: %w'' e)), s')
     | (Inl x, s') \<Rightarrow> (Inl x, s')
     | (Inr (), s') \<Rightarrow> (Inr (Some (GetName (io_cmd s'), Cookie (io_cmd s'))), s')"])
      (auto split: prod.split)
qed

lemma stable_findDatasets_rounds [stable_intros]:
  "stable (\<lambda>rounds. findDatasets n rounds E first P c pool prefix cookie)"
proof (induction n arbitrary: prefix cookie)
  case 0
  show ?case by (rule stableI) simp
next
  case (Suc n)
  have eq: "findDatasets (Suc n) rounds E first P c pool prefix cookie =
      bindE (on_io (list_next rounds E first prefix cookie)) (\<lambda>found.
        case found of
          None \<Rightarrow> ret ()
        | Some (name, next_cookie) \<Rightarrow>
            bindE (dataset_round rounds E P c pool name) (\<lambda>_.
            bindE (findDatasets n rounds E first P c pool name 0) (\<lambda>_.
            findDatasets n rounds E first P c pool prefix next_cookie)))" for rounds
    by (simp add: fun_eq_iff)
  show ?case unfolding eq dataset_round_def by (intro stable_intros Suc)
qed

lemma stable_findDatasets_steps [stable_intros]:
  "stable (\<lambda>n. findDatasets n rounds E first P c pool prefix cookie)"
proof (rule stableI)
  fix n n' s
  assume "n \<le> n'" and "fst (findDatasets n rounds E first P c pool prefix cookie s) \<noteq> Inl OutOfFuel"
  then show "findDatasets n' rounds E first P c pool prefix cookie s = findDatasets n rounds E first P c pool prefix cookie s"
  proof (induction n arbitrary: n' prefix cookie s)
    case (Suc n)
    obtain m where n': "n' = Suc m" and le: "n \<le> m" using Suc.prems(1) by (cases n') auto
    let ?F = "\<lambda>k. findDatasets (if k = (0 :: nat) then n else m) rounds E first P c pool"
    have F: "stable (\<lambda>k. ?F k prefix cookie)" for prefix cookie
    proof (rule stableI)
      fix k k' :: nat and s
      assume "k \<le> k'" and "fst (?F k prefix cookie s) \<noteq> Inl OutOfFuel"
      then show "?F k' prefix cookie s = ?F k prefix cookie s"
        using Suc.IH [OF le] by (cases "k = 0") auto
    qed
    have "stable (\<lambda>k. bindE (on_io (list_next rounds E first prefix cookie)) (\<lambda>found.
        case found of
          None \<Rightarrow> ret ()
        | Some (name, next_cookie) \<Rightarrow>
            bindE (dataset_round rounds E P c pool name) (\<lambda>_.
            bindE (?F k name 0) (\<lambda>_. ?F k prefix next_cookie))))"
      by (intro stable_intros F)
    from stableD [OF this, of 0 1 s] Suc.prems(2) show ?case by (simp add: n')
  qed simp
qed

section \<open>The collection\<close>

lemma stable_handlePool [stable_intros]:
  "stable (\<lambda>n. handlePool n rounds E first P c pool)" "stable (\<lambda>rounds. handlePool n rounds E first P c pool)"
  unfolding handlePool_def pool_request_def by (intro stable_intros)+

lemma stable_collect_step [stable_intros]:
  "stable (\<lambda>n. collect_step n rounds E first P c token u)" "stable (\<lambda>rounds. collect_step n rounds E first P c token u)"
  unfolding collect_step_def by (intro stable_intros)+

lemma stable_read_configs [stable_intros]:
  "stable (\<lambda>n. read_configs n rounds E first P c)" "stable (\<lambda>rounds. read_configs n rounds E first P c)"
proof -
  have loop: "stable (\<lambda>n. collect_loop k n rounds E first P c)" "stable (\<lambda>rounds. collect_loop k n rounds E first P c)" for k
    unfolding collect_loop_def by (intro stable_intros)+
  show "stable (\<lambda>n. read_configs n rounds E first P c)" "stable (\<lambda>rounds. read_configs n rounds E first P c)"
    unfolding read_configs_def pool_loop_def stable_def using loop [unfolded stable_def]
    by (auto split: prod.split prod.splits)
qed

lemma stable_collect [stable_intros]:
  "stable (\<lambda>n. collect n rounds E first P c)" "stable (\<lambda>rounds. collect n rounds E first P c)"
  unfolding collect_def by (intro stable_intros)+

lemma stable_Collect:
  "stable (\<lambda>n. Collect n rounds E first P c)" "stable (\<lambda>rounds. Collect n rounds E first P c)"
proof -
  let ?g = "\<lambda>r _ :: ('a, 'b) run. case r of (Inl (Err e), s') \<Rightarrow> (Inr (), s') | r \<Rightarrow> r"
  show "stable (\<lambda>n. Collect n rounds E first P c)"
    by (rule stable_outcome [OF stable_collect(1), where h = "\<lambda>s. s" and g = ?g])
      (auto simp: Collect_def split: prod.split)
  show "stable (\<lambda>rounds. Collect n rounds E first P c)"
    by (rule stable_outcome [OF stable_collect(2), where h = "\<lambda>s. s" and g = ?g])
      (auto simp: Collect_def split: prod.split)
qed

lemma Collect_more:
  assumes "n \<le> n'" and "rounds \<le> rounds'" and "fst (Collect n rounds E first P c s) \<noteq> Inl OutOfFuel"
  shows "Collect n' rounds' E first P c s = Collect n rounds E first P c s"
proof -
  have "Collect n' rounds E first P c s = Collect n rounds E first P c s"
    using stableD [OF stable_Collect(1) assms(1,3)] .
  with stableD [OF stable_Collect(2) assms(2), of n' E first P c s] assms(3) show ?thesis by simp
qed

end
