(* ===== verification/Collection_Properties.thy ===== *)
theory Collection_Properties
  imports Exporter_Properties Collection Bounds
begin

text \<open>
  The properties of main.go's collection: pools, datasets, failures.
\<close>

section \<open>A sample system\<close>

text \<open>One pool with a mirror, a dataset with counters, and a dataset below it.\<close>

definition sample_datasets :: "dataset list" where
  "sample_datasets =
     [Dataset ''tank/a'' sample_props (Some (sample_kstat_header, (0, 28, 4), sample_kstat_rows))
        [Dataset ''tank/a/b'' [] None []]]"

definition sample_pool :: pool where
  "sample_pool = Pool ''tank'' [uint64_leaf ''version'' 5000]
     [uint64_leaf ''state'' 0, uint64_leaf ''error_count'' 3, Embedded ''vdev_tree'' (tree_pairs sample_tree)]
     sample_datasets"

definition sample_system :: "unit environ" where
  "sample_system = \<lparr>
     sys_ioctl = (\<lambda>num cmd _ _ w.
       if num = ZFS_IOC_POOL_CONFIGS ZFS_IOC_FIRST_most then ((0, cmd, encode_stream (config_pairs [sample_pool])), w)
       else if num = ZFS_IOC_POOL_STATS ZFS_IOC_FIRST_most then ((0, cmd, encode_stream (pl_stats sample_pool)), w)
       else if GetName cmd = ''tank'' \<and> Cookie cmd = 0 then ((0, next_cmd ''tank/a'' 1, encode_stream sample_props), w)
       else if GetName cmd = ''tank/a'' \<and> Cookie cmd = 0 then ((0, next_cmd ''tank/a/b'' 1, encode_stream []), w)
       else ((ESRCH, cmd, []), w)),
     allocate = (\<lambda>n w. (0xC000, w)),
     max_alloc = 2 ^ 30,
     read_file = (\<lambda>path w.
       if path = kstat_path ''tank'' 54 then (Inr (kstat_text sample_kstat_header (0, 28, 4) sample_kstat_rows), w)
       else (Inl (OSError ''no such file''), w)),
     is_not_exist = (\<lambda>e. e = OSError ''no such file'')\<rparr>"

lemma ioctls_used:
  "ZFS_IOC_POOL_CONFIGS ZFS_IOC_FIRST_most \<noteq> ZFS_IOC_POOL_STATS ZFS_IOC_FIRST_most"
  "ZFS_IOC_DATASET_LIST_NEXT ZFS_IOC_FIRST_most \<noteq> ZFS_IOC_POOL_CONFIGS ZFS_IOC_FIRST_most"
  "ZFS_IOC_DATASET_LIST_NEXT ZFS_IOC_FIRST_most \<noteq> ZFS_IOC_POOL_STATS ZFS_IOC_FIRST_most"
  by code_simp+

lemma sample_sizes:
  "length (encode_stream sample_props) < resp_size" "length (encode_stream []) < resp_size"
  "length (encode_stream (pl_stats sample_pool)) < resp_size"
  "length (encode_stream (config_pairs [sample_pool])) < resp_size"
proof -
  note lengths = resp_size_def encode_stream_def encode_list_def length_wire_pair wire_size_le [THEN le_trans]
    wire_header_def end_marker_def string_leaf_def uint64_leaf_def uint64s_leaf_def
    wire_size_def name_end_def padding_def le64.length_concat_enc
  show "length (encode_stream sample_props) < resp_size" "length (encode_stream []) < resp_size"
    by (simp_all add: lengths sample_props_def)
  show "length (encode_stream (config_pairs [sample_pool])) < resp_size"
    by (simp add: lengths sample_pool_def config_pairs_def)
  show "length (encode_stream (pl_stats sample_pool)) < resp_size"
    by (simp add: lengths sample_pool_def sample_tree_def sample_stats_def)
qed


lemma sample_tree_ok: "tree_ok sample_tree"
  by (simp add: sample_tree_def sample_stats_def)

lemma sample_stats_read:
  "list_all wf_pair (pl_stats sample_pool)" "list_all pool_pair_ok (pl_stats sample_pool)"
  "pool_stats_of (pl_stats sample_pool) =
     \<lparr>pool_state = PoolStateString 0, pool_errors = 3, pool_vdev = Some (tree_vdev sample_tree)\<rparr>"
proof -
  have fits: "wire_fits ''vdev_tree'' 1 (replicate 24 0)"
    by (simp add: wire_fits_def wire_size_def name_end_def padding_def)
  note leaf = uint64_leaf_def [of "''state''"] uint64_leaf_def [of "''error_count''"]
  show "list_all wf_pair (pl_stats sample_pool)"
    using tree_pairs_ok [OF sample_tree_ok] fits by (simp add: sample_pool_def wf_leaves)
  show "list_all pool_pair_ok (pl_stats sample_pool)"
    using tree_pairs_ok [OF sample_tree_ok] by (simp add: sample_pool_def leaf)
  show "pool_stats_of (pl_stats sample_pool) =
     \<lparr>pool_state = PoolStateString 0, pool_errors = 3, pool_vdev = Some (tree_vdev sample_tree)\<rparr>"
    using tree_pairs_vdev [OF sample_tree_ok]
    by (simp add: sample_pool_def pool_stats_of_def zero_pool_stats_def leaf le64.dec_enc)
qed

lemma sample_kstat_ok: "table_ok (sample_kstat_header, (0, 28, 4), sample_kstat_rows)"
proof -
  have "ParseUint ''1'' 32 = Inr 1" and n: "ParseUint ''17'' 64 = Inr 17"
    by (simp_all add: ParseUint_Inr is_digit_def decimal_value_def digit_value_def)
  then have "ParseInt (hdr_type sample_kstat_header) 32 = Inr 1"
    by (simp add: ParseInt_def sample_kstat_header_def)
  moreover have "list_all wf_row sample_kstat_rows" "list_all counter_ok sample_kstat_rows"
    using n by (simp_all add: sample_kstat_rows_def wf_row_def wf_word_def wf_data_def newline_def
        counter_ok_def kstat_setter_def)
  ultimately show ?thesis
    by (auto simp: table_ok_def wf_header_def sample_kstat_header_def newline_def)
qed

lemma sample_files:
  "kstat_file sample_system ''tank'' sample_props (Some (sample_kstat_header, (0, 28, 4), sample_kstat_rows))"
  "kstat_file sample_system ''tank'' [] None"
proof -
  have "objsetid (ds_listed sample_props) = 54"
    by (simp add: ds_listed_def sample_props_def props_listed_def latest_def leaf_uint64_leaf zero_props_def)
  then show "kstat_file sample_system ''tank'' sample_props (Some (sample_kstat_header, (0, 28, 4), sample_kstat_rows))"
    by (simp add: kstat_file_def sample_system_def)
  have "kstat_path ''tank'' 0 \<noteq> kstat_path ''tank'' 54" by code_simp
  then show "kstat_file sample_system ''tank'' [] None"
    by (simp add: kstat_file_def sample_system_def ds_listed_def props_listed_def zero_props_def)
qed

text \<open>The kernel's cookies count the children.\<close>

lemma sample_lists:
  "lists_children sample_system ZFS_IOC_FIRST_most ''tank'' word_of_nat sample_datasets"
  "lists_children sample_system ZFS_IOC_FIRST_most ''tank/a'' word_of_nat [Dataset ''tank/a/b'' [] None []]"
  "lists_children sample_system ZFS_IOC_FIRST_most ''tank/a/b'' word_of_nat []"
proof -
  have names: "name_prefix ''tank/a'' = ''tank/a''" "name_prefix ''tank/a/b'' = ''tank/a/b''"
    by (simp_all add: name_ok_prefix name_ok_def)
  have cookie: "Cookie (next_cmd nm ck) = ck" for nm ck by (simp add: next_cmd_def)
  have le1: "i \<le> Suc 0 \<longleftrightarrow> i = 0 \<or> i = 1" for i :: nat by auto
  note kernel = lists_children_def sample_system_def ioctls_used GetName_next_cmd names cookie le1
  show "lists_children sample_system ZFS_IOC_FIRST_most ''tank'' word_of_nat sample_datasets"
    by (auto simp: kernel sample_datasets_def)
  show "lists_children sample_system ZFS_IOC_FIRST_most ''tank/a'' word_of_nat [Dataset ''tank/a/b'' [] None []]"
    by (auto simp: kernel)
  show "lists_children sample_system ZFS_IOC_FIRST_most ''tank/a/b'' word_of_nat []"
    by (auto simp: kernel)
qed

lemma sample_trees: "list_all (answers_tree sample_system ZFS_IOC_FIRST_most ''tank'') sample_datasets"
proof -
  have "answers_tree sample_system ZFS_IOC_FIRST_most ''tank'' (Dataset ''tank/a/b'' [] None [])"
    using sample_files(2) sample_lists(3) sample_sizes(2) by (auto simp: name_ok_def)
  moreover have "\<exists>ck. lists_children sample_system ZFS_IOC_FIRST_most ''tank/a'' ck [Dataset ''tank/a/b'' [] None []]"
    using sample_lists(2) by blast
  ultimately show ?thesis
    using sample_files(1) sample_kstat_ok sample_sizes(1) sample_props_ok
    by (simp add: sample_datasets_def name_ok_def)
qed

lemma sample_answers: "answers sample_system ZFS_IOC_FIRST_most [sample_pool]"
proof -
  have stats: "answers_stats sample_system ZFS_IOC_FIRST_most sample_pool"
    using sample_stats_read(1,2) sample_sizes(3)
    by (simp add: answers_stats_def sample_system_def ioctls_used [symmetric])
  have "wf_pair (Embedded ''tank'' [uint64_leaf ''version'' 5000])"
    by (simp add: wire_fits_def wire_size_def name_end_def padding_def wf_leaves)
  then have configs: "answers_configs sample_system ZFS_IOC_FIRST_most [sample_pool]"
    using sample_sizes(4)
    by (simp add: answers_configs_def sample_system_def) (simp add: config_pairs_def sample_pool_def)
  have "answers_pool sample_system ZFS_IOC_FIRST_most sample_pool"
    using stats sample_stats_read(3) sample_lists(1) sample_trees
    by (auto simp: answers_pool_def) (auto simp: sample_pool_def name_ok_def)
  with configs show ?thesis by (simp add: answers_def sample_system_def resp_size_def)
qed


section \<open>Enumeration and collection\<close>

text \<open>
  C4. The recursive enumeration against its specification: started below a dataset whose trees
  the kernel lists, it ends, visits every tree in preorder, and sends exactly the metrics of
  the properties and counters of each dataset, in that order; more steps than there are
  datasets are enough.
\<close>

theorem findDatasets_preorder:
  assumes "lists_children E first prefix ck ds" and "name_ok prefix" and "list_all (answers_tree E first pool) ds"
    and "full_resp (run_io s)" and "0 < rounds" and "forest_count ds < n"
    and "list_all2 (accepts P) (forest_items c pool ds) ms"
  shows "\<exists>s'. findDatasets n rounds E first P c pool prefix 0 s = (Inr (), s') \<and> run_ch s' = send_all ms (run_ch s)"
proof -
  have "ck 0 = 0" using assms(1) by (simp add: lists_children_def)
  moreover have "forest_count (drop 0 ds) < n" "list_all2 (accepts P) (forest_items c pool (drop 0 ds)) ms"
    using assms(6,7) by simp_all
  ultimately show ?thesis
    using findDatasets_listed [OF assms(1-3) le0 assms(4,5)] by metis
qed

definition sample_run :: "(unit, string list) run" where
  "sample_run = \<lparr>
     run_io = \<lparr>io_world = (), io_cmd = zero_cmd,
       io_resp = Some \<lparr>buf_addr = 0xC000, buf_bytes = zero_bytes resp_size\<rparr>\<rparr>,
     run_ch = \<lparr>chan_open = True, sent = []\<rparr>\<rparr>"

theorem findDatasets_preorder_witness:
  "\<exists>s' ms. findDatasets 3 1 sample_system ZFS_IOC_FIRST_most label_library (described label_library) ''tank'' ''tank'' 0
       sample_run = (Inr (), s') \<and>
     run_ch s' = send_all ms (run_ch sample_run) \<and> length ms = 34"
proof -
  let ?c = "described label_library"
  have "list_all (item_fits label_library) (forest_items ?c ''tank'' sample_datasets)"
    by (simp add: forest_items_def sample_datasets_def dataset_items_fit)
  then obtain ms where ms: "list_all2 (accepts label_library) (forest_items ?c ''tank'' sample_datasets) ms"
    using fitting_all [OF label_library_arity] by blast
  have full: "full_resp (run_io sample_run)" by (simp add: sample_run_def full_resp_def zero_bytes_def)
  have "forest_count sample_datasets < 3" by (simp add: forest_count_def sample_datasets_def)
  from findDatasets_preorder [OF sample_lists(1) _ sample_trees full _ this ms, of 1]
  obtain s' where "findDatasets 3 1 sample_system ZFS_IOC_FIRST_most label_library ?c ''tank'' ''tank'' 0 sample_run = (Inr (), s')"
      and "run_ch s' = send_all ms (run_ch sample_run)" by (auto simp: name_ok_def)
  moreover have "length ms = 34"
    using list_all2_lengthD [OF ms]
    by (simp add: forest_items_def sample_datasets_def dataset_items_def value_items_def dataset_values_def)
  ultimately show ?thesis by blast
qed

text \<open>
  C1. A collection against its specification: when the kernel and the file system answer
  for a list of pools, \<open>Collect\<close> sends exactly the metrics of all pools, each with its states,
  its error count, its vdev tree and its datasets, in the order of the answers, and the command
  block and the response buffer of its caller are as before.
\<close>

theorem Collect_refines:
  assumes "answers E first ps" and "0 < rounds" and "\<forall>p\<in>set ps. pool_bound p \<le> n"
    and "list_all2 (accepts P) (concat (map (pool_exports c) ps)) ms"
  shows "\<exists>w'. Collect n rounds E first P c s =
    (Inr (), s\<lparr>run_io := (run_io s)\<lparr>io_world := w'\<rparr>, run_ch := send_all ms (run_ch s)\<rparr>)"
  using collect_answered [OF assms, of s] by (auto simp: Collect_def)

lemma pool_items_fit: "list_all (item_fits P) (pool_items (described P) nm st)"
  unfolding pool_items_def described_def
  by (auto simp: list_all_iff intro!: item_fits_I [OF refl])

lemma forest_items_fit: "list_all (item_fits P) (forest_items (described P) pool ds)"
proof -
  have "list_all (item_fits P) (tree_items (described P) pool d)" for d
  proof (induction d)
    case (Dataset nm ps k ds)
    then have "list_all (item_fits P) (concat (map (tree_items (described P) pool) ds))"
      by (simp add: list_all_iff)
    then show ?case by (simp add: dataset_items_fit)
  qed
  then show ?thesis by (auto simp: forest_items_def list_all_iff)
qed

lemma pool_exports_fit: "list_all (item_fits P) (pool_exports (described P) p)"
  by (simp add: pool_exports_def Let_def pool_items_fit vdev_items_fit forest_items_fit split: option.split)

theorem Collect_refines_witness:
  "\<exists>w' ms. Collect 3 1 sample_system ZFS_IOC_FIRST_most label_library (described label_library) sample_run =
     (Inr (), sample_run\<lparr>run_io := (run_io sample_run)\<lparr>io_world := w'\<rparr>, run_ch := send_all ms (run_ch sample_run)\<rparr>) \<and>
     length ms = 10 + 17 * 4 + 34"
proof -
  let ?c = "described label_library"
  obtain ms where ms: "list_all2 (accepts label_library) (concat (map (pool_exports ?c) [sample_pool])) ms"
    using fitting_all [OF label_library_arity, of "concat (map (pool_exports ?c) [sample_pool])"]
      pool_exports_fit [of label_library sample_pool] by auto
  have bound: "\<forall>p\<in>set [sample_pool]. pool_bound p \<le> 3"
    by (simp add: pool_bound_def sample_pool_def sample_datasets_def forest_count_def)
  have "length (vdev_names_of ''tank'' [] (tree_vdev sample_tree)) = 4" by (simp add: sample_tree_def Let_def)
  then have "length ms = 10 + 17 * 4 + 34"
    using list_all2_lengthD [OF ms] sample_stats_read(3)
    by (simp add: pool_exports_def vdev_items_count)
      (simp add: sample_pool_def pool_items_def PoolStates_def forest_items_def sample_datasets_def
        dataset_items_def value_items_def dataset_values_def)
  with Collect_refines [OF sample_answers _ bound ms, of 1 sample_run] show ?thesis by auto
qed

text \<open>
  C35. A pool whose statistics have no vdev tree: its states and its error count are
  sent, and then the exporter panics, as \<open>handleVdev\<close> gets a nil pointer.
\<close>

theorem pool_without_vdev_panics:
  assumes "name_ok (pl_name p)" and "answers_stats E first p" and "pool_vdev (pool_stats_of (pl_stats p)) = None"
    and "resp_size \<le> max_alloc E" and "0 < rounds"
    and "list_all2 (accepts P) (pool_items c (pl_name p) (pool_stats_of (pl_stats p))) ms"
  shows "fst (handlePool n rounds E first P c (pl_name p) s) = Inl (Panic NilDereference) \<and>
    run_ch (snd (handlePool n rounds E first P c (pl_name p) s)) = send_all ms (run_ch s)"
  using handlePool_no_vdev [OF assms, of n s] by auto

definition bare_pool :: pool where
  "bare_pool = Pool ''tank'' [] [uint64_leaf ''state'' 7] []"

definition bare_system :: "unit environ" where
  "bare_system = sample_system\<lparr>sys_ioctl := (\<lambda>num cmd _ _ w. ((0, cmd, encode_stream (pl_stats bare_pool)), w))\<rparr>"

theorem pool_without_vdev_panics_witness:
  "fst (handlePool 1 1 bare_system ZFS_IOC_FIRST_most label_library (described label_library) ''tank'' sample_run) =
     Inl (Panic NilDereference)"
proof -
  let ?c = "described label_library" and ?st = "pool_stats_of (pl_stats bare_pool)"
  obtain ms where ms: "list_all2 (accepts label_library) (pool_items ?c (pl_name bare_pool) ?st) ms"
    using fitting_all [OF label_library_arity pool_items_fit] by blast
  have stats: "answers_stats bare_system ZFS_IOC_FIRST_most bare_pool"
    by (simp add: answers_stats_def bare_system_def bare_pool_def wf_leaves resp_size_def encode_stream_def
        encode_list_def wire_header_def end_marker_def)
      (simp add: uint64_leaf_def length_wire_pair wire_size_def name_end_def padding_def)
  have "pool_vdev ?st = None"
    by (simp add: bare_pool_def pool_stats_of_def uint64_leaf_def zero_pool_stats_def)
  from pool_without_vdev_panics [OF _ stats this _ _ ms, of 1 1 sample_run]
  show ?thesis by (simp add: bare_pool_def name_ok_def bare_system_def sample_system_def resp_size_def)
qed

text \<open>
  A scrape that fails is silent: when the kernel refuses the list of pools, \<open>collect\<close> returns
  the error number, but \<open>Collect\<close> drops it, returns normally and has sent nothing. No error of
  a collection ever gets to the caller of \<open>Collect\<close>.
\<close>

theorem failed_scrape_is_silent:
  assumes "refuses E (ZFS_IOC_POOL_CONFIGS first) errno need" and "errno \<noteq> 0" and "errno \<noteq> ENOMEM"
    and "resp_size \<le> max_alloc E" and "0 < rounds"
  shows "fst (collect n rounds E first P c s) = Inl (Err (Errno errno)) \<and>
    fst (Collect n rounds E first P c s) = Inr () \<and> run_ch (snd (Collect n rounds E first P c s)) = run_ch s"
proof -
  obtain w' where "collect n rounds E first P c s =
      (Inl (Err (Errno errno)), s\<lparr>run_io := (run_io s)\<lparr>io_world := w'\<rparr>\<rparr>)"
    using collect_refused [OF assms] by blast
  then show ?thesis by (simp add: Collect_def)
qed

definition broken_system :: "unit environ" where
  "broken_system = sample_system\<lparr>sys_ioctl := (\<lambda>num cmd _ _ w. ((5, cmd\<lparr>Nvlist_dst_size := 0\<rparr>, []), w))\<rparr>"

theorem failed_scrape_is_silent_witness:
  "Collect 1 1 broken_system ZFS_IOC_FIRST_most label_library (described label_library) sample_run =
     (Inr (), snd (Collect 1 1 broken_system ZFS_IOC_FIRST_most label_library (described label_library) sample_run)) \<and>
   sent (run_ch (snd (Collect 1 1 broken_system ZFS_IOC_FIRST_most label_library (described label_library) sample_run))) = []"
proof -
  have "refuses broken_system (ZFS_IOC_POOL_CONFIGS ZFS_IOC_FIRST_most) 5 0"
    by (auto simp: refuses_def broken_system_def)
  from failed_scrape_is_silent [OF this, of 1 1 label_library "described label_library" sample_run]
  show ?thesis
    by (simp add: ENOMEM_def broken_system_def sample_system_def resp_size_def sample_run_def prod_eq_iff)
qed

text \<open>
  C16. One pool that cannot be read, as when it was exported after the pools were listed, ends the
  scrape: the metrics of the pools before it have been sent, nothing is sent for the pools behind it,
  \<open>collect\<close> returns the error number and \<open>Collect\<close> drops it.
\<close>

theorem refused_pool_ends_scrape:
  assumes "resp_size \<le> max_alloc E" and "answers_configs E first (ps @ p # qs)"
    and "list_all (answers_pool E first) ps" and "0 < rounds" and "\<forall>p\<in>set ps. pool_bound p \<le> n"
    and "list_all2 (accepts P) (concat (map (pool_exports c) ps)) ms"
    and "name_ok (pl_name p)" and "refuses_stats E first (pl_name p) errno" and "errno \<noteq> 0" and "errno \<noteq> ENOMEM"
  shows "fst (collect n rounds E first P c s) = Inl (Err (Errno errno)) \<and>
    fst (Collect n rounds E first P c s) = Inr () \<and>
    run_ch (snd (Collect n rounds E first P c s)) = send_all ms (run_ch s)"
  using collect_stopped [OF assms, of s] by (auto simp: Collect_def)

definition gone_pool :: pool where
  "gone_pool = Pool ''gone'' [] [] []"

text \<open>The sample system with a second pool in front, which is gone when its statistics are asked for.\<close>

definition racing_system :: "unit environ" where
  "racing_system = sample_system\<lparr>sys_ioctl := (\<lambda>num cmd a b w.
     if num = ZFS_IOC_POOL_CONFIGS ZFS_IOC_FIRST_most then ((0, cmd, encode_stream (config_pairs [gone_pool, sample_pool])), w)
     else if num = ZFS_IOC_POOL_STATS ZFS_IOC_FIRST_most \<and> GetName cmd = ''gone'' then ((2, cmd, []), w)
     else sys_ioctl sample_system num cmd a b w)\<rparr>"

theorem refused_pool_ends_scrape_witness:
  "fst (collect 3 1 racing_system ZFS_IOC_FIRST_most label_library (described label_library) sample_run) = Inl (Err (Errno 2)) \<and>
   sent (run_ch (snd (Collect 3 1 racing_system ZFS_IOC_FIRST_most label_library (described label_library) sample_run))) = []"
proof -
  have wf: "list_all wf_pair (config_pairs [gone_pool, sample_pool])"
    by (simp add: config_pairs_def gone_pool_def sample_pool_def wire_fits_def wire_size_def name_end_def padding_def wf_leaves)
  have len: "length (encode_stream (config_pairs [gone_pool, sample_pool])) < resp_size"
    by (simp add: config_pairs_def gone_pool_def sample_pool_def resp_size_def encode_stream_def encode_list_def
        length_wire_pair wire_header_def end_marker_def uint64_leaf_def wire_size_def name_end_def padding_def)
  have "answers_configs racing_system ZFS_IOC_FIRST_most ([] @ gone_pool # [sample_pool])"
    using wf len by (simp add: answers_configs_def racing_system_def)
  moreover have "refuses_stats racing_system ZFS_IOC_FIRST_most (pl_name gone_pool) 2"
    by (simp add: refuses_stats_def racing_system_def gone_pool_def ioctls_used [symmetric])
  moreover have "resp_size \<le> max_alloc racing_system" "name_ok (pl_name gone_pool)"
    by (simp_all add: racing_system_def sample_system_def resp_size_def gone_pool_def name_ok_def)
  ultimately show ?thesis
    using refused_pool_ends_scrape [of racing_system ZFS_IOC_FIRST_most "[]" gone_pool "[sample_pool]" 1 3 label_library
        "described label_library" "[]" 2 sample_run]
    by (simp add: ENOMEM_def sample_run_def)
qed

text \<open>
  C17. The retry of \<open>Ioctl\<close> inside the enumeration hands the kernel the block that the first call left.
  When that call, before it asked for a larger buffer, had put the next child and its cookie into the
  block, the second call asks for the children of that child: what is reported is the
  answer to that question, and the child itself is passed over.
\<close>

theorem retry_passes_over_child:
  assumes "wants_more E first (prefix, cookie) (child, child_cookie) need"
    and "gives_next E first (child, child_cookie) need (grandchild, next_cookie)"
    and "name_ok prefix" and "full_resp s" and "0 < need" and "unat need \<le> max_alloc E" and "2 \<le> rounds"
  shows "\<exists>s'. list_next rounds E first prefix cookie s = (Inr (Some (grandchild, next_cookie)), s')"
  using list_next_retried [OF assms] .

definition verbose_system :: "unit environ" where
  "verbose_system = sample_system\<lparr>sys_ioctl := (\<lambda>num cmd a b w.
     if GetName cmd = ''tank'' then ((ENOMEM, (next_cmd ''tank/a'' 1)\<lparr>Nvlist_dst_size := 0x80000\<rparr>, []), w)
     else ((0, next_cmd ''tank/a/b'' 2, encode_stream []), w))\<rparr>"

theorem retry_passes_over_child_witness:
  "\<exists>s'. list_next 2 verbose_system ZFS_IOC_FIRST_most ''tank'' 0 (run_io sample_run) = (Inr (Some (''tank/a/b'', 2)), s')"
proof (rule retry_passes_over_child)
  have names: "name_prefix ''tank/a'' = ''tank/a''" "name_prefix ''tank/a/b'' = ''tank/a/b''"
    by (simp_all add: name_ok_prefix name_ok_def)
  have dst: "GetName (cmd\<lparr>Nvlist_dst_size := n\<rparr>) = GetName cmd" for cmd n by (simp add: GetName_def)
  have cookie: "Cookie (next_cmd nm ck) = ck" for nm ck by (simp add: next_cmd_def)
  note kernel = verbose_system_def GetName_next_cmd names cookie dst
  show "wants_more verbose_system ZFS_IOC_FIRST_most (''tank'', 0) (''tank/a'', 1) 0x80000"
    by (simp add: wants_more_def kernel)
  show "gives_next verbose_system ZFS_IOC_FIRST_most (''tank/a'', 1) 0x80000 (''tank/a/b'', 2)"
    by (simp add: gives_next_def kernel)
  show "full_resp (run_io sample_run)" by (simp add: sample_run_def full_resp_def zero_bytes_def)
qed (simp_all add: name_ok_def verbose_system_def sample_system_def)

end
