(* ===== verification/Scrape_Series.thy ===== *)
theory Scrape_Series
  imports Collection_Properties
begin

text \<open>
  The series of a scrape. The registry accepts a scrape only when no two of its metrics belong to
  the same series, that is, have the same descriptor and the same label values, and when every
  descriptor is one of those that \<open>Describe\<close> sent. Both hold for what \<open>Collect\<close> sends when
  the kernel's names are as they should be: no two pools, no two datasets of a pool and no
  two vdevs with the same parent share a name.
\<close>

section \<open>Series\<close>

definition series :: "'d item \<Rightarrow> 'd \<times> string list" where
  "series = (\<lambda>(wrapped, d, vt, v, labels). (d, labels))"

lemma series_eq [simp]: "series (wrapped, d, vt, v, labels) = (d, labels)"
  by (simp add: series_def)

text \<open>The descriptors that the exporter sends metrics for; four of the described ones never get one.\<close>

definition vdev_descs :: "'d zfsCollector \<Rightarrow> 'd list" where
  "vdev_descs c = map fst (vdev_values c zero_vdevStats)"

definition dataset_descs :: "'d zfsCollector \<Rightarrow> 'd list" where
  "dataset_descs c = map fst (dataset_values c zero_props)"

definition exported_descs :: "'d zfsCollector \<Rightarrow> 'd list" where
  "exported_descs c = poolState c # poolErrorCount c # poolVdevState c # vdev_descs c @ dataset_descs c"

lemma descs_of_values:
  "map fst (vdev_values c st) = vdev_descs c" "map fst (dataset_values c props) = dataset_descs c"
  by (simp_all add: vdev_descs_def dataset_descs_def vdev_values_def dataset_values_def)

lemma series_of_values: "map series (value_items labels vs) = map (\<lambda>d. (d, labels)) (map fst vs)"
  by (auto simp: value_items_def)

lemma distinct_pairs: "distinct xs \<Longrightarrow> distinct (map (\<lambda>x. (x, y)) xs)"
  by (simp add: distinct_map inj_on_def)

lemma concat_map_concat: "concat (map f (concat (map g xs))) = concat (map (\<lambda>x. concat (map f (g x))) xs)"
  by (induction xs) simp_all

lemma map_concat_maps: "map f (concat (map g xs)) = concat (map (\<lambda>x. map f (g x)) xs)"
  by (induction xs) simp_all

lemma disjoint_by_fst: "fst ` A \<subseteq> X \<Longrightarrow> fst ` B \<subseteq> Y \<Longrightarrow> X \<inter> Y = {} \<Longrightarrow> A \<inter> B = {}"
  by blast

section \<open>Vdevs\<close>

text \<open>The vdevs of a tree in preorder, with their names and types.\<close>

fun vdev_nodes :: "string \<Rightarrow> string \<Rightarrow> vdev \<Rightarrow> (string \<times> string \<times> vdevStats) list" where
  "vdev_nodes pool prefix (Vdev ty i p cs st) =
     (let name = vdev_name pool prefix (Vdev ty i p cs st)
      in (name, ty, st) # concat (map (vdev_nodes pool (name @ ''/'')) cs))"

definition node_series :: "'d zfsCollector \<Rightarrow> string \<Rightarrow> string \<times> string \<times> vdevStats \<Rightarrow> ('d \<times> string list) list" where
  "node_series c pool = (\<lambda>(name, ty, st).
     map (\<lambda>state. (poolVdevState c, [pool, name, ty, state])) VDevStates @
     map (\<lambda>d. (d, [pool, name, ty])) (vdev_descs c))"

lemma node_series_node:
  "node_series c pool (name, ty, st) = map (\<lambda>state. (poolVdevState c, [pool, name, ty, state])) VDevStates @
     map (\<lambda>d. (d, [pool, name, ty])) (vdev_descs c)"
  by (simp add: node_series_def)

lemma vdev_nodes_names: "map fst (vdev_nodes pool prefix v) = vdev_names_of pool prefix v"
proof (induction v arbitrary: prefix)
  case (Vdev ty i p cs st)
  have "map (\<lambda>v. map fst (vdev_nodes pool (name @ ''/'') v)) cs = map (vdev_names_of pool (name @ ''/'')) cs" for name
    by (intro map_cong refl Vdev)
  then show ?case by (simp add: Let_def map_concat_maps del: map_eq_conv)
qed

lemma vdev_series: "map series (vdev_items c pool prefix v) = concat (map (node_series c pool) (vdev_nodes pool prefix v))"
proof (induction v arbitrary: prefix)
  case (Vdev ty i p cs st)
  let ?name = "vdev_name pool prefix (Vdev ty i p cs st)"
  have "map (\<lambda>v. map series (vdev_items c pool (?name @ ''/'') v)) cs =
      map (\<lambda>v. concat (map (node_series c pool) (vdev_nodes pool (?name @ ''/'') v))) cs"
    by (intro map_cong refl Vdev)
  moreover have "map series (state_items c [pool, ?name, ty] st) =
      map (\<lambda>state. (poolVdevState c, [pool, ?name, ty, state])) VDevStates"
    by (simp add: state_items_def)
  ultimately show ?case
    by (simp add: Let_def map_concat_maps [of series] concat_map_concat node_series_node
        series_of_values descs_of_values del: map_eq_conv)
qed

lemma node_series_label: "z \<in> set (node_series c pool (name, ty, st)) \<Longrightarrow> snd z ! 0 = pool \<and> snd z ! 1 = name"
  by (auto simp: node_series_def)

lemma distinct_vdev_series:
  assumes "distinct (exported_descs c)" and "siblings_differ pool v"
  shows "distinct (map series (vdev_items c pool prefix v))"
  unfolding vdev_series
proof (rule distinct_concat_map [where key = fst])
  show "distinct (map fst (vdev_nodes pool prefix v))"
    unfolding vdev_nodes_names by (rule distinct_vdev_names [OF assms(2)])
  have "distinct VDevStates" by (rule distinct_states)
  then show "distinct (node_series c pool x)" for x
    using assms(1) by (cases x)
      (auto simp: node_series_def exported_descs_def distinct_map inj_on_def)
  show "fst x = fst y" if "z \<in> set (node_series c pool x)" "z \<in> set (node_series c pool y)" for x y z
    using that node_series_label by (metis prod.collapse)
qed

section \<open>Datasets\<close>

text \<open>The datasets of a tree in preorder.\<close>

fun tree_datasets :: "dataset \<Rightarrow> (string \<times> datasetProps) list" where
  "tree_datasets (Dataset nm ps k ds) = (nm, ds_final ps k) # concat (map tree_datasets ds)"

definition forest_datasets :: "dataset list \<Rightarrow> (string \<times> datasetProps) list" where
  "forest_datasets ds = concat (map tree_datasets ds)"

definition dataset_series :: "'d zfsCollector \<Rightarrow> string \<Rightarrow> string \<times> datasetProps \<Rightarrow> ('d \<times> string list) list" where
  "dataset_series c pool = (\<lambda>(name, props). map (\<lambda>d. (d, [name, pool])) (dataset_descs c))"

lemma dataset_series_pair: "dataset_series c pool (name, props) = map (\<lambda>d. (d, [name, pool])) (dataset_descs c)"
  by (simp add: dataset_series_def)

lemma tree_series: "map series (tree_items c pool t) = concat (map (dataset_series c pool) (tree_datasets t))"
proof (induction t)
  case (Dataset nm ps k ds)
  have "map (\<lambda>t. map series (tree_items c pool t)) ds = map (\<lambda>t. concat (map (dataset_series c pool) (tree_datasets t))) ds"
    by (intro map_cong refl Dataset)
  then show ?case
    by (simp add: map_concat_maps [of series] concat_map_concat dataset_items_def series_of_values descs_of_values
        dataset_series_pair del: map_eq_conv)
qed

lemma forest_series:
  "map series (forest_items c pool ds) = concat (map (dataset_series c pool) (forest_datasets ds))"
  by (induction ds) (simp_all add: forest_items_def forest_datasets_def tree_series)

lemma distinct_forest_series:
  assumes "distinct (exported_descs c)" and "distinct (map fst (forest_datasets ds))"
  shows "distinct (map series (forest_items c pool ds))"
  unfolding forest_series
proof (rule distinct_concat_map [where key = fst, OF _ assms(2)])
  show "distinct (dataset_series c pool x)" for x
    using assms(1) by (cases x) (auto simp: dataset_series_def exported_descs_def intro: distinct_pairs)
  show "fst x = fst y" if "z \<in> set (dataset_series c pool x)" "z \<in> set (dataset_series c pool y)" for x y z
    using that by (auto simp: dataset_series_def split: prod.splits)
qed

section \<open>Pools\<close>

lemma pool_series:
  "map series (pool_items c nm st) = map (\<lambda>state. (poolState c, [nm, state])) PoolStates @ [(poolErrorCount c, [nm])]"
  by (simp add: pool_items_def)

lemma distinct_pool_series:
  assumes "distinct (exported_descs c)"
  shows "distinct (map series (pool_items c nm st))"
  using assms distinct_states(1) by (auto simp: pool_series exported_descs_def distinct_map inj_on_def)

lemma series_descs:
  "z \<in> set (map series (pool_items c nm st)) \<Longrightarrow> fst z \<in> {poolState c, poolErrorCount c} \<and> snd z ! 0 = nm"
  "z \<in> set (map series (vdev_items c nm prefix v)) \<Longrightarrow> fst z \<in> insert (poolVdevState c) (set (vdev_descs c)) \<and> snd z ! 0 = nm"
  "z \<in> set (map series (forest_items c nm ds)) \<Longrightarrow> fst z \<in> set (dataset_descs c) \<and> snd z ! 1 = nm"
  unfolding pool_series vdev_series forest_series
  by (auto simp: node_series_def dataset_series_def split: prod.splits)

text \<open>Names as they should be, and the pool that a series belongs to.\<close>

definition names_differ :: "pool list \<Rightarrow> bool" where
  "names_differ ps \<longleftrightarrow> distinct (map pl_name ps) \<and>
     list_all (\<lambda>p. distinct (map fst (forest_datasets (pl_datasets p))) \<and>
       (case pool_vdev (pool_stats_of (pl_stats p)) of None \<Rightarrow> True | Some v \<Rightarrow> siblings_differ (pl_name p) v)) ps"

definition series_pool :: "'d zfsCollector \<Rightarrow> 'd \<times> string list \<Rightarrow> string" where
  "series_pool c z = (if fst z \<in> set (dataset_descs c) then snd z ! 1 else snd z ! 0)"

lemma pool_exports_cases:
  assumes "z \<in> set (map series (pool_exports c p))"
  obtains "z \<in> set (map series (pool_items c (pl_name p) (pool_stats_of (pl_stats p))))"
  | v where "pool_vdev (pool_stats_of (pl_stats p)) = Some v" "z \<in> set (map series (vdev_items c (pl_name p) [] v))"
  | "z \<in> set (map series (forest_items c (pl_name p) (pl_datasets p)))"
proof (cases "pool_vdev (pool_stats_of (pl_stats p))")
  case None
  then show thesis using assms that(1,3) by (auto simp: pool_exports_def Let_def)
next
  case (Some v)
  then show thesis using assms that(1,3) that(2) [OF Some] by (auto simp: pool_exports_def Let_def)
qed

lemma series_pool_exports:
  assumes "distinct (exported_descs c)" and "z \<in> set (map series (pool_exports c p))"
  shows "series_pool c z = pl_name p"
  using assms(2)
  by (cases rule: pool_exports_cases)
    (use assms(1) in \<open>auto dest!: series_descs simp: series_pool_def exported_descs_def simp del: set_map\<close>)

lemma exports_described: "z \<in> set (map series (pool_exports c p)) \<Longrightarrow> fst z \<in> set (exported_descs c)"
  by (erule pool_exports_cases) (auto dest!: series_descs simp: exported_descs_def simp del: set_map)

lemma distinct_pool_exports:
  assumes c: "distinct (exported_descs c)" and names: "distinct (map fst (forest_datasets (pl_datasets p)))"
    and vdevs: "case pool_vdev (pool_stats_of (pl_stats p)) of None \<Rightarrow> True | Some v \<Rightarrow> siblings_differ (pl_name p) v"
  shows "distinct (map series (pool_exports c p))"
proof -
  define vs where "vs = (case pool_vdev (pool_stats_of (pl_stats p)) of None \<Rightarrow> [] | Some v \<Rightarrow> vdev_items c (pl_name p) [] v)"
  let ?A = "map series (pool_items c (pl_name p) (pool_stats_of (pl_stats p)))" and ?B = "map series vs"
    and ?C = "map series (forest_items c (pl_name p) (pl_datasets p))"
  have "distinct ?B" using vdevs c by (auto simp: vs_def intro: distinct_vdev_series split: option.splits)
  moreover have "fst ` set ?A \<subseteq> {poolState c, poolErrorCount c}" using series_descs(1) by fastforce
  moreover have "fst ` set ?B \<subseteq> insert (poolVdevState c) (set (vdev_descs c))"
    using series_descs(2) unfolding vs_def by (fastforce split: option.splits)
  moreover have "fst ` set ?C \<subseteq> set (dataset_descs c)" using series_descs(3) by fastforce
  moreover have "{poolState c, poolErrorCount c} \<inter> insert (poolVdevState c) (set (vdev_descs c)) = {}"
    "{poolState c, poolErrorCount c} \<inter> set (dataset_descs c) = {}"
    "insert (poolVdevState c) (set (vdev_descs c)) \<inter> set (dataset_descs c) = {}"
    using c by (auto simp: exported_descs_def)
  ultimately have "set ?A \<inter> set ?B = {}" "set ?A \<inter> set ?C = {}" "set ?B \<inter> set ?C = {}" and "distinct ?B"
    by (blast intro: disjoint_by_fst)+
  then have "distinct (?A @ ?B @ ?C)"
    using distinct_pool_series [OF c] distinct_forest_series [OF c names]
    by (simp only: distinct_append set_append Int_Un_distrib Un_empty)
  then show ?thesis by (simp add: pool_exports_def Let_def vs_def)
qed

lemma distinct_exports:
  assumes "distinct (exported_descs c)" and "names_differ ps"
  shows "distinct (map series (concat (map (pool_exports c) ps)))"
proof -
  have "distinct (concat (map (\<lambda>p. map series (pool_exports c p)) ps))"
  proof (rule distinct_concat_map [where key = pl_name])
    show "distinct (map pl_name ps)" using assms(2) by (simp add: names_differ_def)
    show "distinct (map series (pool_exports c p))" if "p \<in> set ps" for p
      by (rule distinct_pool_exports) (use assms that in \<open>auto simp: names_differ_def list_all_iff\<close>)
    show "pl_name p = pl_name q"
      if "z \<in> set (map series (pool_exports c p))" "z \<in> set (map series (pool_exports c q))" for p q z
      using series_pool_exports [OF assms(1)] that by metis
  qed
  then show ?thesis by (simp add: map_concat comp_def)
qed

section \<open>What the registry asks for\<close>

text \<open>A library whose descriptors are different when their names are.\<close>

definition keeps_names :: "('d, 'm) prometheus \<Rightarrow> bool" where
  "keeps_names P \<longleftrightarrow> (\<forall>n h ls n' h' ls'. NewDesc P n h ls = NewDesc P n' h' ls' \<longrightarrow> n = n')"

definition exported_names :: "(string \<times> string list) list" where
  "exported_names =
    [(''zfs_pool_state'', [''pool'', ''state'']), (''zfs_pool_error_count'', [''pool'']),
     (''zfs_pool_vdev_state'', [''pool'', ''vdev'', ''vdev_type'', ''state''])] @
    map (\<lambda>n. (n, vdev_labels))
     [''zfs_pool_vdev_alloc_space'', ''zfs_pool_vdev_total_space'', ''zfs_pool_vdev_read_ops'',
      ''zfs_pool_vdev_read_bytes'', ''zfs_pool_vdev_read_errors'', ''zfs_pool_vdev_write_ops'',
      ''zfs_pool_vdev_write_bytes'', ''zfs_pool_vdev_write_errors'', ''zfs_pool_vdev_checksum_errors''] @
    map (\<lambda>n. (n, dataset_labels))
     [''zfs_dataset_available'', ''zfs_dataset_compress_ratio'', ''zfs_dataset_used'',
      ''zfs_dataset_used_by_children'', ''zfs_dataset_used_by_dataset'',
      ''zfs_dataset_used_by_ref_reservation'', ''zfs_dataset_used_by_snapshots'',
      ''zfs_dataset_referenced'', ''zfs_dataset_ref_compress_ratio'', ''zfs_dataset_logical_referenced'',
      ''zfs_dataset_logical_used'', ''zfs_dataset_writes'', ''zfs_dataset_nwritten'', ''zfs_dataset_reads'',
      ''zfs_dataset_nread'', ''zfs_dataset_nunlinks'', ''zfs_dataset_nunlinked'']"

lemma exported_descs_described:
  "exported_descs (described P) = map (\<lambda>(n, ls). NewDesc P n [] ls) exported_names"
  by (simp add: exported_descs_def vdev_descs_def dataset_descs_def vdev_values_def dataset_values_def
      described_def exported_names_def)

lemma distinct_exported_descs: "keeps_names P \<Longrightarrow> distinct (exported_descs (described P))"
proof -
  assume P: "keeps_names P"
  have "distinct (map fst exported_names)" by (simp add: exported_names_def)
  then have "inj_on fst (set exported_names)" and "distinct exported_names" by (simp_all add: distinct_map)
  moreover have "inj_on (\<lambda>(n, ls). NewDesc P n [] ls) (set exported_names)"
  proof (rule inj_onI)
    fix x y assume "x \<in> set exported_names" "y \<in> set exported_names"
      and "(case x of (n, ls) \<Rightarrow> NewDesc P n [] ls) = (case y of (n, ls) \<Rightarrow> NewDesc P n [] ls)"
    moreover from this(3) have "NewDesc P (fst x) [] (snd x) = NewDesc P (fst y) [] (snd y)" by (simp add: case_prod_beta)
    then have "fst x = fst y" using P unfolding keeps_names_def by blast
    ultimately show "x = y" using \<open>inj_on fst (set exported_names)\<close> by (simp add: inj_on_def)
  qed
  ultimately show ?thesis by (simp add: exported_descs_described distinct_map)
qed

lemma exported_are_described: "set (exported_descs (described P)) \<subseteq> set (described_list P)"
proof -
  have "set exported_names \<subseteq> set (map snd (descriptors :: ('d field_update \<times> string \<times> string list) list))"
    by (simp add: exported_names_def descriptors_def)
  then show ?thesis
    unfolding exported_descs_described described_list_def by (force simp: image_iff)
qed

text \<open>
  C5. A scrape is what the registry accepts: after \<open>Describe\<close>, when the kernel and the file system
  answer for a list of pools whose names differ as they should, \<open>Collect\<close> sends metrics no two of which
  have the same descriptor and the same label values, and all their descriptors were described.
\<close>

theorem scrape_is_consistent:
  assumes "answers E first ps" and "0 < rounds" and "\<forall>p\<in>set ps. pool_bound p \<le> n"
    and "checks_arity P" and "keeps_names P" and "names_differ ps"
  shows "\<exists>w' items ms.
    Collect n rounds E first P (fst (Describe P c \<lparr>chan_open = True, sent = []\<rparr>)) s =
      (Inr (), s\<lparr>run_io := (run_io s)\<lparr>io_world := w'\<rparr>, run_ch := send_all ms (run_ch s)\<rparr>) \<and>
    list_all2 (accepts P) items ms \<and> distinct (map series items) \<and>
    fst ` set (map series items) \<subseteq> set (sent (snd (Describe P c \<lparr>chan_open = True, sent = []\<rparr>)))"
proof -
  let ?items = "concat (map (pool_exports (described P)) ps)"
  have "list_all (item_fits P) ?items" using pool_exports_fit by (fastforce simp: list_all_iff)
  with assms(4) obtain ms where ms: "list_all2 (accepts P) ?items ms" by (metis fitting_all)
  obtain w' where "collect n rounds E first P (described P) s =
      (Inr (), s\<lparr>run_io := (run_io s)\<lparr>io_world := w'\<rparr>, run_ch := send_all ms (run_ch s)\<rparr>)"
    using collect_answered [OF assms(1-3) ms, of s] by blast
  then have "Collect n rounds E first P (described P) s =
      (Inr (), s\<lparr>run_io := (run_io s)\<lparr>io_world := w'\<rparr>, run_ch := send_all ms (run_ch s)\<rparr>)"
    by (simp add: Collect_def)
  moreover have "distinct (map series ?items)"
    by (rule distinct_exports [OF distinct_exported_descs [OF assms(5)] assms(6)])
  moreover have "fst ` set (map series ?items) \<subseteq> set (exported_descs (described P))"
    using exports_described by fastforce
  then have "fst ` set (map series ?items) \<subseteq> set (described_list P)"
    using exported_are_described by (rule subset_trans)
  moreover have "sent (send_all (described_list P) \<lparr>chan_open = True, sent = []\<rparr>) = described_list P"
    by (simp add: send_all_def)
  ultimately show ?thesis using ms unfolding Describe_eq fst_conv snd_conv by metis
qed

text \<open>A library whose descriptors are the names and the label names.\<close>

definition series_library :: "(string \<times> string list, (string \<times> string list) \<times> string list) prometheus" where
  "series_library = \<lparr>
     NewDesc = (\<lambda>name help labels. (name, labels)),
     NewConstMetric = (\<lambda>d vt v labels.
       if length labels = length (snd d) then Inr (d, labels) else Inl (Errorf ''inconsistent label cardinality''))\<rparr>"

lemma series_library_ok: "checks_arity series_library" "keeps_names series_library"
  by (simp_all add: checks_arity_def keeps_names_def series_library_def)

lemma sample_names_differ: "names_differ [sample_pool]"
proof -
  have "show_nat 0 = ''0''" by code_simp
  then have "siblings_differ ''tank'' (tree_vdev sample_tree)"
    by (simp add: sample_tree_def local_name_def vdev_name_def path_Base_def)
  then show ?thesis
    using sample_stats_read(3) by (simp add: names_differ_def)
      (simp add: sample_pool_def sample_datasets_def forest_datasets_def)
qed

definition series_run :: "(unit, (string \<times> string list) \<times> string list) run" where
  "series_run = \<lparr>run_io = run_io sample_run, run_ch = \<lparr>chan_open = True, sent = []\<rparr>\<rparr>"

theorem scrape_is_consistent_witness:
  "\<exists>s'. Collect 3 1 sample_system ZFS_IOC_FIRST_most series_library (described series_library) series_run = (Inr (), s') \<and>
     distinct (sent (run_ch s'))"
proof -
  let ?P = series_library
  have bound: "\<forall>p\<in>set [sample_pool]. pool_bound p \<le> 3"
    by (simp add: pool_bound_def sample_pool_def sample_datasets_def forest_count_def)
  from scrape_is_consistent [OF sample_answers _ bound series_library_ok sample_names_differ, of 1 "described ?P" series_run]
  obtain w' items ms where run: "Collect 3 1 sample_system ZFS_IOC_FIRST_most ?P (described ?P) series_run =
      (Inr (), series_run\<lparr>run_io := (run_io series_run)\<lparr>io_world := w'\<rparr>, run_ch := send_all ms (run_ch series_run)\<rparr>)"
    and ms: "list_all2 (accepts ?P) items ms" "distinct (map series items)"
    by (auto simp: Describe_eq)
  have "ms = map series items"
    using ms(1) by (induction rule: list_all2_induct)
      (auto simp: accepts_def series_library_def split: if_splits)
  with run ms(2) show ?thesis by (auto simp: series_run_def send_all_def)
qed

end
