(* ===== verification/Any_Kernel.thy ===== *)
theory Any_Kernel
  imports Scrape_Series
begin

text \<open>
  What holds of a scrape whatever the kernel, the file system and the library answer: the channel only
  grows, by metrics that the library made for one of the exported descriptors, with as many label values as it
  has label names; the caller of \<open>Collect\<close> gets its command block and its buffer back, and no error.
\<close>

section \<open>Procedures that only send\<close>

text \<open>\<open>get\<close> is the channel in the state, and \<open>Q\<close> what is known of a metric that is sent.\<close>

definition appends :: "('s \<Rightarrow> 'm chan) \<Rightarrow> ('m \<Rightarrow> bool) \<Rightarrow> ('s, 'a) proc \<Rightarrow> bool" where
  "appends get Q m \<longleftrightarrow> (\<forall>s. \<exists>ms. get (snd (m s)) = send_all ms (get s) \<and> list_all Q ms)"

named_theorems appends_intros \<open>closure rules of procedures that only send\<close>

lemma appendsI: "(\<And>s. \<exists>ms. get (snd (m s)) = send_all ms (get s) \<and> list_all Q ms) \<Longrightarrow> appends get Q m"
  by (simp add: appends_def)

lemma appends_same: "(\<And>s. get (snd (m s)) = get s) \<Longrightarrow> appends get Q m"
  by (intro appendsI exI [of _ "[]"]) simp

lemma appends_then:
  assumes "get s' = send_all ms (get s)" and "list_all Q ms" and "appends get Q m"
  shows "\<exists>ms'. get (snd (m s')) = send_all ms' (get s) \<and> list_all Q ms'"
proof -
  obtain ms' where "get (snd (m s')) = send_all ms' (get s')" and "list_all Q ms'"
    using assms(3) unfolding appends_def by blast
  with assms(1,2) show ?thesis by (intro exI [of _ "ms @ ms'"]) (simp add: send_all_append)
qed

lemma appends_simple [appends_intros]:
  "appends get Q (ret a)" "appends get Q (fail e)" "appends get Q (panics p)" "appends get Q (query q)"
  "appends get Q (gets f)"
  by (rule appends_same, simp add: proc_simps)+

lemma appends_bindE [appends_intros]:
  assumes "appends get Q m" and "\<And>a. appends get Q (f a)"
  shows "appends get Q (bindE m f)"
proof (rule appendsI)
  fix s
  obtain x s1 where m: "m s = (x, s1)" by (cases "m s")
  then obtain ms where ms: "get s1 = send_all ms (get s)" "list_all Q ms"
    using assms(1) unfolding appends_def by (metis snd_conv)
  show "\<exists>ms. get (snd (bindE m f s)) = send_all ms (get s) \<and> list_all Q ms"
    using ms appends_then [OF ms assms(2)] by (cases x) (auto simp: bindE_def m)
qed

lemma appends_if [appends_intros]:
  "appends get Q m \<Longrightarrow> appends get Q m' \<Longrightarrow> appends get Q (if b then m else m')"
  by simp

lemma appends_case_option [appends_intros]:
  "appends get Q m \<Longrightarrow> (\<And>a. x = Some a \<Longrightarrow> appends get Q (f a)) \<Longrightarrow>
   appends get Q (case x of None \<Rightarrow> m | Some a \<Rightarrow> f a)"
  by (cases x) simp_all

lemma appends_case_prod [appends_intros]:
  "(\<And>a b. x = (a, b) \<Longrightarrow> appends get Q (f a b)) \<Longrightarrow> appends get Q (case x of (a, b) \<Rightarrow> f a b)"
  by (cases x) simp

lemma appends_wrapE [appends_intros]: "appends get Q m \<Longrightarrow> appends get Q (wrapE msg m)"
proof -
  have "snd (wrapE msg m s) = snd (m s)" for s by (auto simp: wrapE_def split: prod.split sum.split exit.split)
  then show "appends get Q m \<Longrightarrow> appends get Q (wrapE msg m)" by (simp add: appends_def)
qed

lemma appends_forE [appends_intros]: "(\<And>x. x \<in> set xs \<Longrightarrow> appends get Q (f x)) \<Longrightarrow> appends get Q (forE xs f)"
  by (induction xs) (auto intro: appends_intros)

lemma appends_forNext [appends_intros]:
  assumes "appends get Q nxt" and "\<And>t c. appends get Q (body t c)"
  shows "appends get Q (forNext nxt k (\<lambda>_. body) c)"
proof (induction k arbitrary: c)
  case 0
  show ?case by (rule appends_same) simp
next
  case (Suc k)
  show ?case
  proof (rule appendsI)
    fix s
    obtain x s1 where nxt: "nxt s = (x, s1)" by (cases "nxt s")
    then obtain ms where ms: "get s1 = send_all ms (get s)" "list_all Q ms"
      using assms(1) unfolding appends_def by (metis snd_conv)
    have "appends get Q (bindE (body t c) (forNext nxt k (\<lambda>_. body)))" for t
      by (rule appends_bindE [OF assms(2) Suc])
    from appends_then [OF ms this]
    show "\<exists>ms. get (snd (forNext nxt (Suc k) (\<lambda>_. body) c s)) = send_all ms (get s) \<and> list_all Q ms"
      using ms by (cases x) (auto simp: nxt)
  qed
qed

text \<open>Procedures on the parts of a collection's state.\<close>

lemma appends_on_io [appends_intros]: "appends run_ch Q (on_io m)"
  by (rule appends_same) (simp add: on_io_def on_part_def split: prod.split)

lemma appends_on_ch [appends_intros]: "appends (\<lambda>ch. ch) Q m \<Longrightarrow> appends run_ch Q (on_ch m)"
  by (auto simp: appends_def on_ch_def on_part_def split: prod.split) (metis snd_conv)

lemma appends_on_reader [appends_intros]: "appends (\<lambda>(r, s). run_ch s) Q (on_reader m)"
  by (rule appends_same) (auto simp: on_reader_def on_part_def split: prod.split)

lemma appends_on_rest [appends_intros]: "appends run_ch Q m \<Longrightarrow> appends (\<lambda>(r, s). run_ch s) Q (on_rest m)"
  by (auto simp: appends_def on_rest_def on_part_def split: prod.split) (metis snd_conv)

lemma appends_with_locals [appends_intros]:
  fixes m :: "(('w, 'm) run, 'a) proc"
  shows "appends run_ch Q m \<Longrightarrow> appends run_ch Q (with_locals m)"
proof (rule appendsI)
  fix s :: "('w, 'm) run"
  assume m: "appends run_ch Q m"
  let ?s = "s\<lparr>run_io := (run_io s)\<lparr>io_cmd := zero_cmd, io_resp := None\<rparr>\<rparr>"
  from m obtain ms where "run_ch (snd (m ?s)) = send_all ms (run_ch ?s)" and "list_all Q ms"
    unfolding appends_def by blast
  then show "\<exists>ms. run_ch (snd (with_locals m s)) = send_all ms (run_ch s) \<and> list_all Q ms"
    by (auto simp: with_locals_def Let_def split: prod.split)
qed

section \<open>The exporter\<close>

text \<open>A metric that the library made for an exported descriptor with labels that fit.\<close>

definition made_properly :: "('d, 'm) prometheus \<Rightarrow> 'm \<Rightarrow> bool" where
  "made_properly P m \<longleftrightarrow> (\<exists>name labels vt v vs. (name, labels) \<in> set exported_names \<and> length vs = length labels \<and>
     NewConstMetric P (NewDesc P name [] labels) vt v vs = Inr m)"

definition fits_exported :: "('d, 'm) prometheus \<Rightarrow> 'd item \<Rightarrow> bool" where
  "fits_exported P = (\<lambda>(w, d, vt, v, vs). \<exists>(name, labels)\<in>set exported_names.
     d = NewDesc P name [] labels \<and> length vs = length labels)"

lemma appends_emit: "fits_exported P item \<Longrightarrow> appends (\<lambda>ch. ch) (made_properly P) (emit P item)"
proof (rule appendsI)
  fix ch
  assume fits: "fits_exported P item"
  obtain w d vt v vs where item: "item = (w, d, vt, v, vs)" by (cases item)
  show "\<exists>ms. snd (emit P item ch) = send_all ms ch \<and> list_all (made_properly P) ms"
  proof (cases "NewConstMetric P d vt v vs")
    case (Inl e)
    then have "snd (emit P item ch) = send_all [] ch"
      by (simp add: item emit_def export_def new_metric_def bindE_def wrapE_def query_apply)
    then show ?thesis by (intro exI [of _ "[]"]) simp
  next
    case (Inr m)
    then have "accepts P item m" by (simp add: item accepts_def)
    moreover have "made_properly P m"
      using fits Inr unfolding item fits_exported_def made_properly_def by blast
    ultimately show ?thesis using emit_accepted by (intro exI [of _ "[m]"]) fastforce
  qed
qed

lemma appends_items:
  "list_all (fits_exported P) items \<Longrightarrow> appends (\<lambda>ch. ch) (made_properly P) (forE items (emit P))"
  by (intro appends_forE appends_emit) (simp add: list_all_iff)

lemma exported_fits:
  "(name, labels) \<in> set exported_names \<Longrightarrow> length vs = length labels \<Longrightarrow>
   fits_exported P (w, NewDesc P name [] labels, vt, v, vs)"
  by (auto simp: fits_exported_def)

lemma items_fit_exported:
  "list_all (fits_exported P) (pool_items (described P) nm st)"
  "list_all (fits_exported P) (vdev_items (described P) nm prefix vd)"
  "list_all (fits_exported P) (dataset_items (described P) nm ds props)"
proof -
  show "list_all (fits_exported P) (pool_items (described P) nm st)"
    unfolding pool_items_def described_def
    by (auto simp: list_all_iff intro!: exported_fits) (simp_all add: exported_names_def)
  show "list_all (fits_exported P) (dataset_items (described P) nm ds props)"
    unfolding dataset_items_def value_items_def dataset_values_def described_def
    by (auto simp: list_all_iff dataset_labels_def [symmetric] intro!: exported_fits)
      (simp_all add: exported_names_def dataset_labels_def)
  show "list_all (fits_exported P) (vdev_items (described P) nm prefix vd)"
  proof (induction vd arbitrary: prefix)
    case (Vdev ty i p cs st)
    have "list_all (fits_exported P) (state_items (described P) [nm, name, ty] st)" for name
      unfolding state_items_def described_def
      by (auto simp: list_all_iff intro!: exported_fits) (simp_all add: exported_names_def)
    moreover have "list_all (fits_exported P) (value_items [nm, name, ty] (vdev_values (described P) st))" for name
      unfolding value_items_def vdev_values_def described_def
      by (auto simp: list_all_iff intro!: exported_fits) (simp_all add: exported_names_def vdev_labels_def)
    ultimately show ?case using Vdev by (auto simp: Let_def list_all_iff)
  qed
qed

lemma appends_handlers:
  "appends (\<lambda>ch. ch) (made_properly P) (handleDataset P (described P) nm ds props)"
  "appends (\<lambda>ch. ch) (made_properly P) (pool_metrics P (described P) nm st)"
  "appends (\<lambda>ch. ch) (made_properly P) (pool_vdev_metrics P (described P) nm st)"
  unfolding handleDataset_items pool_metrics_items pool_vdev_metrics_def handleVdev_items
  by (intro appends_intros appends_items items_fit_exported)+

lemma appends_findDatasets:
  "appends run_ch (made_properly P) (findDatasets n rounds E first P (described P) pool prefix cookie)"
proof (induction n arbitrary: prefix cookie)
  case 0
  show ?case by (rule appends_same) simp
next
  case (Suc n)
  have "appends run_ch (made_properly P) (\<lambda>s. bindE (on_io (list_next rounds E first prefix cookie)) (\<lambda>found.
     case found of
       None \<Rightarrow> ret ()
     | Some (name, next_cookie) \<Rightarrow>
         bindE (dataset_round rounds E P (described P) pool name) (\<lambda>_.
         bindE (findDatasets n rounds E first P (described P) pool name 0) (\<lambda>_.
         findDatasets n rounds E first P (described P) pool prefix next_cookie))) s)"
    unfolding dataset_round_def by (intro appends_intros appends_handlers Suc)
  then show ?case by (simp add: appends_def)
qed

lemma appends_handlePool: "appends run_ch (made_properly P) (handlePool n rounds E first P (described P) pool)"
  unfolding handlePool_def by (intro appends_intros appends_handlers appends_findDatasets)

lemma appends_read_configs:
  "appends run_ch (made_properly P) (read_configs n rounds E first P (described P))"
proof (rule appendsI)
  fix s :: "('a, 'b) run"
  let ?r = "new_reader (resp_data (run_io s))"
  let ?run = "collect_loop (Suc (remaining ?r)) n rounds E first P (described P) (?r, s)"
  have "appends (\<lambda>(r, s). run_ch s) (made_properly P) (collect_loop k n rounds E first P (described P))" for k
    unfolding collect_loop_def collect_step_def by (intro appends_intros appends_handlePool)
  then obtain ms where "(case snd ?run of (r, s) \<Rightarrow> run_ch s) = send_all ms (run_ch s)" "list_all (made_properly P) ms"
    unfolding appends_def by (metis case_prod_conv)
  then show "\<exists>ms. run_ch (snd (read_configs n rounds E first P (described P) s)) = send_all ms (run_ch s) \<and>
      list_all (made_properly P) ms"
    by (intro exI [of _ ms]) (simp add: read_configs_def pool_loop_def case_prod_beta)
qed

lemma appends_collect: "appends run_ch (made_properly P) (collect n rounds E first P (described P))"
  unfolding collect_def by (intro appends_intros appends_read_configs)

lemma collect_frame:
  "\<exists>r w' ms. collect n rounds E first P (described P) s =
     (r, s\<lparr>run_io := (run_io s)\<lparr>io_world := w'\<rparr>, run_ch := send_all ms (run_ch s)\<rparr>) \<and> list_all (made_properly P) ms"
proof -
  obtain r s' where run: "bindE (on_io (make_resp E)) (\<lambda>_.
      bindE (on_io (Ioctl rounds E (ZFS_IOC_POOL_CONFIGS first) None None)) (\<lambda>_.
      read_configs n rounds E first P (described P))) (s\<lparr>run_io := (run_io s)\<lparr>io_cmd := zero_cmd, io_resp := None\<rparr>\<rparr>) = (r, s')"
    by fastforce
  obtain ms where ms: "run_ch (snd (collect n rounds E first P (described P) s)) = send_all ms (run_ch s)"
      "list_all (made_properly P) ms"
    using appends_collect unfolding appends_def by blast
  from collect_body [OF run] ms show ?thesis by auto
qed

text \<open>
  C6. Whatever the kernel, the file system and the library do: a scrape only adds to the channel, and each
  metric that it adds was made by the library for one of the exported descriptors with as many label
  values as the descriptor has label names; the command block and the buffer of the caller are
  as before; and \<open>Collect\<close> never returns an error.
\<close>

theorem scrape_with_any_kernel:
  "\<exists>r w' ms. Collect n rounds E first P (fst (Describe P c dch)) s =
     (r, s\<lparr>run_io := (run_io s)\<lparr>io_world := w'\<rparr>, run_ch := send_all ms (run_ch s)\<rparr>) \<and>
   list_all (made_properly P) ms \<and> (\<nexists>e. r = Inl (Err e))"
proof -
  obtain r w' ms where run: "collect n rounds E first P (described P) s =
      (r, s\<lparr>run_io := (run_io s)\<lparr>io_world := w'\<rparr>, run_ch := send_all ms (run_ch s)\<rparr>)"
    and ms: "list_all (made_properly P) ms"
    using collect_frame [of n rounds E first P s] by (elim exE conjE)
  let ?r = "case r of Inl (Err e) \<Rightarrow> Inr () | _ \<Rightarrow> r"
  have "Collect n rounds E first P (described P) s =
      (?r, s\<lparr>run_io := (run_io s)\<lparr>io_world := w'\<rparr>, run_ch := send_all ms (run_ch s)\<rparr>)"
    by (simp add: Collect_def run split: sum.split exit.split)
  moreover have "\<nexists>e. ?r = Inl (Err e)" by (simp split: sum.split exit.split)
  ultimately show ?thesis using ms unfolding Describe_eq fst_conv by blast
qed

end
