(* ===== verification/Scrape_Ends.thy ===== *)
theory Scrape_Ends
  imports Collection_Properties
begin

text \<open>
  Where a scrape can fail to end. \<open>ends\<close> is the contract of procedures that return, with a value or an
  error, or panic. The loop over the list of pools satisfies the equation of the source without a
  bound, for it consumes the list; all that is left is what the kernel drives: the retry loop
  of \<open>Ioctl\<close> and the enumeration of datasets.
\<close>

section \<open>Procedures that end\<close>

definition ends :: "('s, 'a) proc \<Rightarrow> bool" where
  "ends m \<longleftrightarrow> (\<forall>s. fst (m s) \<noteq> Inl OutOfFuel)"

named_theorems ends_intros \<open>closure rules of procedures that end\<close>

lemma endsI: "(\<And>s. fst (m s) \<noteq> Inl OutOfFuel) \<Longrightarrow> ends m"
  by (simp add: ends_def)

lemma endsD: "ends m \<Longrightarrow> fst (m s) \<noteq> Inl OutOfFuel"
  by (simp add: ends_def)

lemma ends_simple [ends_intros]:
  "ends (ret a)" "ends (fail e)" "ends (panics p)" "ends (gets f)" "ends (modify g)"
  by (simp_all add: ends_def proc_simps)

lemma ends_query [ends_intros]: "(\<And>s. q s \<noteq> Inl OutOfFuel) \<Longrightarrow> ends (query q)"
  by (simp add: ends_def query_apply)

lemma ends_bindE [ends_intros]:
  assumes "ends m" and "\<And>a. ends (f a)"
  shows "ends (bindE m f)"
proof (rule endsI)
  fix s show "fst (bindE m f s) \<noteq> Inl OutOfFuel"
    using endsD [OF assms(1), of s] endsD [OF assms(2)] by (auto simp: bindE_def split: prod.split sum.split)
qed

lemma bindE_avoids:
  assumes "ends m" and "\<And>a s. fst (f a s) \<noteq> Inl OutOfFuel \<and> fst (f a s) \<noteq> Inr b"
  shows "fst (bindE m f s) \<noteq> Inl OutOfFuel \<and> fst (bindE m f s) \<noteq> Inr b"
  using endsD [OF assms(1), of s] assms(2) by (auto simp: bindE_def split: prod.split sum.split)

lemma ends_if [ends_intros]: "ends m \<Longrightarrow> ends m' \<Longrightarrow> ends (if b then m else m')"
  by simp

lemma ends_case_option [ends_intros]:
  "ends m \<Longrightarrow> (\<And>a. ends (f a)) \<Longrightarrow> ends (case x of None \<Rightarrow> m | Some a \<Rightarrow> f a)"
  by (cases x) simp_all

lemma ends_wrapE [ends_intros]: "ends m \<Longrightarrow> ends (wrapE msg m)"
  by (auto simp: ends_def wrapE_def split: prod.split sum.split exit.split) (metis fst_conv)

lemma ends_forE [ends_intros]: "(\<And>x. ends (f x)) \<Longrightarrow> ends (forE xs f)"
  by (induction xs) (auto intro: ends_intros)

lemma ends_on_part [ends_intros]: "ends m \<Longrightarrow> ends (on_part part put m)"
  by (auto simp: ends_def on_part_def split: prod.split) (metis fst_conv)

lemma ends_with_locals [ends_intros]: "ends m \<Longrightarrow> ends (with_locals m)"
  by (auto simp: ends_def with_locals_def Let_def split: prod.split) (metis fst_conv)

section \<open>The loop over the list of pools\<close>

text \<open>The reader of the list, while the rest of the state changes with it.\<close>

interpretation pools: token_stream "on_reader Next" "\<lambda>(r, s). remaining r"
proof
  fix s s' :: "NVListReader \<times> 'a" and t
  show "on_reader Next s = (Inr t, s') \<Longrightarrow> (case s' of (r, s) \<Rightarrow> remaining r) < (case s of (r, s) \<Rightarrow> remaining r)"
    by (auto simp: on_reader_def on_part_def split: prod.splits dest: nv.next_consumes)
  show "on_reader Next s = (Inl (Err EOF), s') \<Longrightarrow> (case s' of (r, s) \<Rightarrow> remaining r) \<le> (case s of (r, s) \<Rightarrow> remaining r)"
    by (auto simp: on_reader_def on_part_def split: prod.splits dest: nv.next_EOF)
  show "on_reader Next s \<noteq> (Inl OutOfFuel, s')"
    by (auto simp: on_reader_def on_part_def split: prod.splits dest: nv.next_total [THEN notE])
qed

lemma collect_step_consumes:
  "collect_step n rounds E first P c token u s = (Inr v, s') \<Longrightarrow>
   (case s' of (r, s) \<Rightarrow> remaining r) \<le> (case s of (r, s) \<Rightarrow> remaining r)"
  by (auto simp: collect_step_def bindE_def on_reader_def on_rest_def on_part_def Skip_def proc_simps
      split: if_splits prod.splits sum.splits dest: unbounded_consumes [OF bounded_Skip])

lemma pool_loop_unfold:
  "pool_loop n rounds E first P c s =
     (case on_reader Next s of
        (Inl e, s') \<Rightarrow> if e = Err EOF then (Inr (), s') else (Inl e, s')
      | (Inr token, s') \<Rightarrow>
          bindE (collect_step n rounds E first P c token ()) (\<lambda>_. pool_loop n rounds E first P c) s')"
  by (rule pools.loop_unfold_plain [where loop = "\<lambda>_. pool_loop n rounds E first P c"])
    (rule collect_step_consumes, assumption, simp add: pool_loop_def collect_loop_def case_prod_beta)

lemma ends_pool_loop:
  fixes E :: "'w environ" and P :: "('d, 'm) prometheus"
  assumes "\<And>pool. ends (handlePool n rounds E first P c pool)"
  shows "ends (pool_loop n rounds E first P c)"
proof (rule endsI)
  fix s :: "NVListReader \<times> ('w, 'm) run"
  let ?rem = "\<lambda>(r, s). remaining r" and ?body = "collect_step n rounds E first P c"
  have Skip: "ends Skip" by (rule endsI) (rule Skip_total)
  have "ends (?body t u)" for t u
    unfolding collect_step_def on_reader_def on_rest_def by (intro ends_intros assms Skip)
  then have "settled ?rem (\<lambda>_. ?body t u) k s" for t u k s
    by (intro settled_const endsD collect_step_consumes)
  from settledD(1) [OF pools.settled_forNext [where body = "\<lambda>_. ?body" and n = "Suc (?rem s)" and c = "()", OF _ this]]
  show "fst (pool_loop n rounds E first P c s) \<noteq> Inl OutOfFuel"
    unfolding pool_loop_def collect_loop_def by (simp add: case_prod_beta)
qed

section \<open>The collection\<close>

lemma ends_emit: "ends (emit P item)"
  unfolding emit_def export_def new_metric_def send_def
  by (auto simp: ends_def bindE_def wrapE_def query_apply split: sum.splits prod.splits exit.splits)

lemma ends_handlers:
  "ends (handleDataset P c nm ds props)" "ends (pool_metrics P c nm st)" "ends (pool_vdev_metrics P c nm st)"
  unfolding handleDataset_items pool_metrics_items pool_vdev_metrics_def handleVdev_items
  by (intro ends_intros ends_emit)+

lemma ends_make_resp: "ends (make_resp E)"
  unfolding make_resp_def on_world_def
  by (intro ends_intros) (simp add: ends_def make_bytes_def split: prod.split)

lemma ends_SetName: "ends (SetName name)"
  by (auto simp: ends_def SetName_def split: prod.split sum.split exit.split)

lemma ends_parse_resp: "(\<And>r. fst (m r) \<noteq> Inl OutOfFuel) \<Longrightarrow> ends (parse_resp m)"
  by (simp add: parse_resp_def ends_def query_apply)

lemma ends_pool_request:
  assumes "\<And>num. ends (Ioctl rounds E num None None)"
  shows "ends (pool_request rounds E first pool)"
  unfolding pool_request_def on_cmd_def
  by (intro ends_intros ends_SetName ends_make_resp assms ends_parse_resp parsePoolStats_total)

lemma ends_handlePool:
  assumes "\<And>num. ends (Ioctl rounds E num None None)" and "ends (findDatasets n rounds E first P c pool pool 0)"
  shows "ends (handlePool n rounds E first P c pool)"
  unfolding handlePool_def on_io_def on_ch_def
  by (intro ends_intros ends_pool_request ends_handlers assms)

lemma ends_read_configs:
  assumes "ends (pool_loop n rounds E first P c)"
  shows "ends (read_configs n rounds E first P c)"
proof (rule endsI)
  fix s show "fst (read_configs n rounds E first P c s) \<noteq> Inl OutOfFuel"
    using endsD [OF assms, of "(new_reader (resp_data (run_io s)), s)"]
    by (auto simp: read_configs_def split: prod.split)
qed

text \<open>
  C36. Nothing but the kernel can keep a scrape from ending: where the retry loop of \<open>Ioctl\<close> ends, and the
  enumeration of the datasets of each pool, \<open>Collect\<close> ends, whatever the list of pools, the
  statistics, the property lists and the kstats contain; and its loop over the pools is the
  loop of the source, with no bound of its own.
\<close>

theorem Collect_ends:
  assumes "\<And>num. ends (Ioctl rounds E num None None)"
    and "\<And>pool. ends (findDatasets n rounds E first P c pool pool 0)"
  shows "ends (Collect n rounds E first P c) \<and>
    pool_loop n rounds E first P c s =
     (case on_reader Next s of
        (Inl e, s') \<Rightarrow> if e = Err EOF then (Inr (), s') else (Inl e, s')
      | (Inr token, s') \<Rightarrow>
          bindE (collect_step n rounds E first P c token ()) (\<lambda>_. pool_loop n rounds E first P c) s')"
proof
  have "ends (collect n rounds E first P c)"
    unfolding collect_def on_io_def
    by (intro ends_intros ends_make_resp ends_read_configs ends_pool_loop ends_handlePool assms)
  then have "fst (Collect n rounds E first P c s) \<noteq> Inl OutOfFuel" for s
    using endsD [of "collect n rounds E first P c" s] by (auto simp: Collect_def split: prod.split sum.split exit.split)
  then show "ends (Collect n rounds E first P c)" by (rule endsI)
qed (rule pool_loop_unfold)

lemma broken_system_calls:
  "fst (Ioctl (Suc k) broken_system num None None s) \<noteq> Inl OutOfFuel"
  "fst (Ioctl (Suc k) broken_system num None None s) \<noteq> Inr ()"
  by (auto simp: attempt_def point_at_def issue_def bindE_def proc_simps broken_system_def ENOMEM_def
      split: option.split prod.split)

theorem Collect_ends_witness:
  "ends (Collect 1 1 broken_system ZFS_IOC_FIRST_most label_library (described label_library))"
proof -
  let ?E = broken_system and ?f = ZFS_IOC_FIRST_most and ?P = label_library
  let ?call = "Ioctl 1 ?E (ZFS_IOC_DATASET_LIST_NEXT ?f) None None"
  have calls: "ends (Ioctl 1 ?E num None None)" for num
    using broken_system_calls(1) [of 0] by (simp add: ends_def)
  have refused: "\<exists>e t'. ?call t = (Inl e, t') \<and> e \<noteq> OutOfFuel" for t
    using broken_system_calls [of 0 "ZFS_IOC_DATASET_LIST_NEXT ?f" t]
    by (cases "?call t"; cases "fst (?call t)") auto
  have none: "fst (list_next 1 ?E ?f prefix cookie s) \<noteq> Inl OutOfFuel \<and>
      fst (list_next 1 ?E ?f prefix cookie s) \<noteq> Inr (Some x)" for prefix cookie s x
    unfolding list_next_def on_cmd_def
  proof (intro bindE_avoids)
    fix t :: "unit io"
    obtain e t' where "?call t = (Inl e, t')" and "e \<noteq> OutOfFuel" using refused by blast
    then show "fst (case ?call t of
         (Inl (Err e), s') \<Rightarrow>
           if e = Errno ESRCH then (Inr None, s')
           else (Inl (Err (Wrapf ''error calling dataset list next: %w'' e)), s')
       | (Inl x, s') \<Rightarrow> (Inl x, s')
       | (Inr (), s') \<Rightarrow> (Inr (Some (GetName (io_cmd s'), Cookie (io_cmd s'))), s')) \<noteq> Inl OutOfFuel \<and>
      fst (case ?call t of
         (Inl (Err e), s') \<Rightarrow>
           if e = Errno ESRCH then (Inr None, s')
           else (Inl (Err (Wrapf ''error calling dataset list next: %w'' e)), s')
       | (Inl x, s') \<Rightarrow> (Inl x, s')
       | (Inr (), s') \<Rightarrow> (Inr (Some (GetName (io_cmd s'), Cookie (io_cmd s'))), s')) \<noteq> Inr (Some x)"
      by (cases e) (simp_all del: Ioctl.simps One_nat_def)
  qed (intro ends_intros ends_SetName)+
  have "ends (findDatasets 1 1 ?E ?f ?P (described ?P) pool prefix 0)" for pool prefix
  proof (rule endsI)
    fix s :: "(unit, string list) run"
    have "\<forall>x. fst (list_next 1 ?E ?f prefix 0 (run_io s)) \<noteq> Inl OutOfFuel \<and>
        fst (list_next 1 ?E ?f prefix 0 (run_io s)) \<noteq> Inr (Some x)"
      using none by blast
    then show "fst (findDatasets 1 1 ?E ?f ?P (described ?P) pool prefix 0 s) \<noteq> Inl OutOfFuel"
      by (auto simp: bindE_def on_io_def on_part_def ret_apply split: prod.splits sum.splits option.splits)
  qed
  then show ?thesis using Collect_ends [of 1 ?E 1 ?f ?P "described ?P"] calls by blast
qed

end
