(* ===== verification/NV_Unmarshal.thy ===== *)
theory NV_Unmarshal
  imports NV_Leaf
begin

text \<open>
  zfs/nvlist/decode.go, \<open>Unmarshal\<close>: decoding a list into a Go variable by reflection. The
  variable is a value with its type: maps with string keys, structs with their field names,
  tags and export status, pointers, interfaces, slices and scalars. A value that a failed call
  has stored before it failed is not modelled.

  Shown here: the recursion ends on every input and satisfies the source's equation.
\<close>

section \<open>Go values\<close>

text \<open>
  The unnamed Go types, and structs with the name, the \<open>nvlist\<close> tag and the export status of
  each field. \<open>byte\<close> is \<open>uint8\<close>.
\<close>

datatype gotype =
    GoBool | GoInt8 | GoUint8 | GoInt16 | GoUint16 | GoInt32 | GoUint32 | GoInt64 | GoUint64 | GoString
  | GoSlice gotype
  | GoAny
  | GoMap gotype
  | GoPtr gotype
  | GoStruct "((string \<times> string \<times> bool) \<times> gotype) list"

datatype goval =
    BoolVal bool
  | Int8Val "8 word" | Uint8Val "8 word" | Int16Val "16 word" | Uint16Val "16 word"
  | Int32Val "32 word" | Uint32Val "32 word" | Int64Val "64 word" | Uint64Val "64 word"
  | StringVal string
  | SliceVal gotype "goval list"
  | AnyVal "goval option"
  | MapVal gotype "(string \<Rightarrow> goval option) option"
  | PtrVal gotype "goval option"
  | StructVal "(((string \<times> string \<times> bool) \<times> gotype) \<times> goval) list"

fun typeof :: "goval \<Rightarrow> gotype" where
  "typeof (BoolVal b) = GoBool"
| "typeof (Int8Val w8) = GoInt8"
| "typeof (Uint8Val w8) = GoUint8"
| "typeof (Int16Val w16) = GoInt16"
| "typeof (Uint16Val w16) = GoUint16"
| "typeof (Int32Val w32) = GoInt32"
| "typeof (Uint32Val w32) = GoUint32"
| "typeof (Int64Val w64) = GoInt64"
| "typeof (Uint64Val w64) = GoUint64"
| "typeof (StringVal s) = GoString"
| "typeof (SliceVal T vs) = GoSlice T"
| "typeof (AnyVal x) = GoAny"
| "typeof (MapVal T m) = GoMap T"
| "typeof (PtrVal T x) = GoPtr T"
| "typeof (StructVal fs) = GoStruct (map fst fs)"

fun zero_of :: "gotype \<Rightarrow> goval" where
  "zero_of GoBool = BoolVal False"
| "zero_of GoInt8 = Int8Val 0"
| "zero_of GoUint8 = Uint8Val 0"
| "zero_of GoInt16 = Int16Val 0"
| "zero_of GoUint16 = Uint16Val 0"
| "zero_of GoInt32 = Int32Val 0"
| "zero_of GoUint32 = Uint32Val 0"
| "zero_of GoInt64 = Int64Val 0"
| "zero_of GoUint64 = Uint64Val 0"
| "zero_of GoString = StringVal []"
| "zero_of (GoSlice T) = SliceVal T []"
| "zero_of GoAny = AnyVal None"
| "zero_of (GoMap T) = MapVal T None"
| "zero_of (GoPtr T) = PtrVal T None"
| "zero_of (GoStruct fs) = StructVal (map (\<lambda>(info, T). ((info, T), zero_of T)) fs)"

text \<open>Storing a value in a variable of type \<open>T\<close>: reflection panics when the type does not fit.\<close>

definition assignTo :: "gotype \<Rightarrow> goval \<Rightarrow> exit + goval" where
  "assignTo T x =
     (if typeof x = T then Inr x
      else if T = GoAny then Inr (AnyVal (Some x))
      else Inl (Panic ReflectAssign))"

text \<open>\<open>SetMapIndex\<close> checks the type of the element before it writes; a nil map cannot be written.\<close>

definition set_index :: "gotype \<Rightarrow> (string \<Rightarrow> goval option) option \<Rightarrow> string \<Rightarrow> goval \<Rightarrow> exit + goval" where
  "set_index T m name x =
     (case assignTo T x of
        Inl e \<Rightarrow> Inl e
      | Inr y \<Rightarrow>
          (case m of
             None \<Rightarrow> Inl (Panic NilMapWrite)
           | Some entries \<Rightarrow> Inr (MapVal T (Some (entries(name \<mapsto> y))))))"

text \<open>
  \<open>structFieldByName\<close>: a field goes by the first part of its tag, or by its name when that is
  empty; of two fields with one key the later one wins. The field can be set when the
  struct is addressable and the field is exported.
\<close>

definition field_key :: "(string \<times> string \<times> bool) \<Rightarrow> string" where
  "field_key = (\<lambda>(name, tag, exported).
     let first = takeWhile (\<lambda>c. c \<noteq> CHR '','') tag in if first \<noteq> [] then first else name)"

definition settable_field ::
  "bool \<Rightarrow> string \<Rightarrow> (((string \<times> string \<times> bool) \<times> gotype) \<times> goval) list \<Rightarrow> nat option" where
  "settable_field addr name fs =
     (case find (\<lambda>i. field_key (fst (fst (fs ! i))) = name) (rev [0..<length fs]) of
        None \<Rightarrow> None
      | Some i \<Rightarrow> if addr \<and> snd (snd (fst (fst (fs ! i)))) then Some i else None)"

definition put_field ::
  "nat \<Rightarrow> goval \<Rightarrow> (((string \<times> string \<times> bool) \<times> gotype) \<times> goval) list \<Rightarrow> goval" where
  "put_field i x fs = StructVal (fs[i := (fst (fs ! i), x)])"

section \<open>Unmarshal\<close>

text \<open>
  The first part of \<open>Unmarshal\<close>: one pointer is followed, an interface gets a new map, and what
  is reached must be a struct or a map. The result is whether it is addressable, the
  container, and how the variable is made from the container.
\<close>

definition focus_any :: "bool \<Rightarrow> goval \<Rightarrow> (bool \<times> goval \<times> (goval \<Rightarrow> goval)) option" where
  "focus_any addr v =
     (case v of
        AnyVal x \<Rightarrow> Some (False, MapVal GoAny (Some Map.empty), \<lambda>c. AnyVal (Some c))
      | StructVal fs \<Rightarrow> Some (addr, v, \<lambda>c. c)
      | MapVal T m \<Rightarrow> Some (addr, v, \<lambda>c. c)
      | _ \<Rightarrow> None)"

definition focus :: "bool \<Rightarrow> goval \<Rightarrow> (bool \<times> goval \<times> (goval \<Rightarrow> goval)) option" where
  "focus addr v =
     (case v of
        PtrVal T None \<Rightarrow> None
      | PtrVal T (Some w) \<Rightarrow>
          map_option (\<lambda>(addr', c, wrap). (addr', c, \<lambda>c. PtrVal T (Some (wrap c)))) (focus_any True w)
      | _ \<Rightarrow> focus_any addr v)"

text \<open>The cases of the switch that end in \<open>setPrimitive\<close>: how the value is read.\<close>

definition slice_of :: "gotype \<Rightarrow> ('a \<Rightarrow> goval) \<Rightarrow> exit + 'a list \<Rightarrow> exit + goval" where
  "slice_of T f = map_sum id (\<lambda>xs. SliceVal T (map f xs))"

definition primitive :: "NVType \<Rightarrow> (NVListReader \<Rightarrow> exit + goval) option" where
  "primitive token =
     (if token = TypeBoolean then Some (\<lambda>r. Inr (BoolVal True))
      else if token = TypeInt16 then Some (\<lambda>r. map_sum id Int16Val (Int16 r))
      else if token = TypeUint16 then Some (\<lambda>r. map_sum id Uint16Val (UInt16 r))
      else if token = TypeInt32 then Some (\<lambda>r. map_sum id Int32Val (Int32 r))
      else if token = TypeUint32 then Some (\<lambda>r. map_sum id Uint32Val (UInt32 r))
      else if token = TypeInt64 then Some (\<lambda>r. map_sum id Int64Val (Int64 r))
      else if token = TypeUint64 then Some (\<lambda>r. map_sum id Uint64Val (UInt64 r))
      else if token = TypeInt8 then Some (\<lambda>r. map_sum id Int8Val (Int8 r))
      else if token = TypeUint8 then Some (\<lambda>r. map_sum id Uint8Val (UInt8 r))
      else if token = TypeByte then Some (\<lambda>r. map_sum id Uint8Val (Byte r))
      else if token = TypeString then Some (\<lambda>r. map_sum id StringVal (NV_String r))
      else if token = TypeBooleanValue then Some (\<lambda>r. map_sum id BoolVal (Boolean r))
      else if token = TypeInt8Array then Some (\<lambda>r. slice_of GoInt8 Int8Val (Int8Array r))
      else if token = TypeUint8Array then Some (\<lambda>r. slice_of GoUint8 Uint8Val (UInt8Array r))
      else if token = TypeInt16Array then Some (\<lambda>r. slice_of GoInt16 Int16Val (Int16Array r))
      else if token = TypeUint16Array then Some (\<lambda>r. slice_of GoUint16 Uint16Val (UInt16Array r))
      else if token = TypeInt32Array then Some (\<lambda>r. slice_of GoInt32 Int32Val (Int32Array r))
      else if token = TypeUint32Array then Some (\<lambda>r. slice_of GoUint32 Uint32Val (UInt32Array r))
      else if token = TypeInt64Array then Some (\<lambda>r. slice_of GoInt64 Int64Val (Int64Array r))
      else if token = TypeUint64Array then Some (\<lambda>r. slice_of GoUint64 Uint64Val (UInt64Array r))
      else if token = TypeByteArray then Some (\<lambda>r. slice_of GoUint8 Uint8Val (ByteArray r))
      else if token = TypeStringArray then Some (\<lambda>r. slice_of GoString StringVal (StringArraySafe r))
      else if token = TypeBooleanArray then Some (\<lambda>r. slice_of GoBool BoolVal (BooleanArray r))
      else None)"

definition setPrimitive :: "bool \<Rightarrow> string \<Rightarrow> goval \<Rightarrow> goval \<Rightarrow> exit + goval" where
  "setPrimitive addr name x v =
     (case v of
        StructVal fs \<Rightarrow>
          (case settable_field addr name fs of
             None \<Rightarrow> Inr v
           | Some i \<Rightarrow>
               (case assignTo (snd (fst (fs ! i))) x of Inl e \<Rightarrow> Inl e | Inr y \<Rightarrow> Inr (put_field i y fs)))
      | MapVal T m \<Rightarrow> set_index T m name x
      | _ \<Rightarrow> Inr v)"

text \<open>A nested list: into the field of a struct, or into a new element of a map.\<close>

definition fresh_element :: "gotype \<Rightarrow> goval option" where
  "fresh_element T =
     (case T of
        GoAny \<Rightarrow> Some (MapVal GoAny (Some Map.empty))
      | GoStruct fs \<Rightarrow> Some (PtrVal T (Some (zero_of T)))
      | GoMap E \<Rightarrow> Some (MapVal E (Some Map.empty))
      | _ \<Rightarrow> None)"

definition element_of :: "goval \<Rightarrow> goval" where
  "element_of v = (case v of PtrVal T (Some w) \<Rightarrow> w | _ \<Rightarrow> v)"

definition unmarshal_nvlist ::
  "(bool \<Rightarrow> goval \<Rightarrow> (NVListReader, goval) proc) \<Rightarrow> bool \<Rightarrow> string \<Rightarrow> goval \<Rightarrow> (NVListReader, goval) proc" where
  "unmarshal_nvlist recur addr name v =
     (case v of
        StructVal fs \<Rightarrow>
          (case settable_field addr name fs of
             None \<Rightarrow> ret v
           | Some i \<Rightarrow> bindE (recur True (snd (fs ! i))) (\<lambda>w. ret (put_field i w fs)))
      | MapVal T m \<Rightarrow>
          (case fresh_element T of
             None \<Rightarrow> fail (Errorf ''complex hybrid types not supported'')
           | Some w \<Rightarrow> bindE (recur False w) (\<lambda>w'. query (\<lambda>_. set_index T m name (element_of w'))))
      | _ \<Rightarrow> fail (Errorf ''invalid pair type (not map or struct)''))"

text \<open>An array of lists: only into a map, as a slice of new maps.\<close>

definition unmarshal_nvlists ::
  "(bool \<Rightarrow> goval \<Rightarrow> (NVListReader, goval) proc) \<Rightarrow> string \<Rightarrow> goval \<Rightarrow> (NVListReader, goval) proc" where
  "unmarshal_nvlists recur name v =
     (case v of
        StructVal fs \<Rightarrow> fail (Errorf ''deserializing NVListArrays into structs currently unsupported'')
      | MapVal T m \<Rightarrow>
          bindE (gets NumElements) (\<lambda>numElements.
          bindE (collectE numElements (recur True (MapVal GoAny (Some Map.empty)))) (\<lambda>ws.
          query (\<lambda>_. set_index T m name (SliceVal (GoMap GoAny) ws))))
      | _ \<Rightarrow> fail (Errorf ''invalid pair type (not map or struct)''))"

definition unmarshal_step ::
  "(bool \<Rightarrow> goval \<Rightarrow> (NVListReader, goval) proc) \<Rightarrow> bool \<Rightarrow> NVType \<Rightarrow> goval \<Rightarrow> (NVListReader, goval) proc" where
  "unmarshal_step recur addr token v =
     bindE (gets Name) (\<lambda>name.
     if token = TypeUnknown then fail ErrInvalidData
     else (case primitive token of
        Some f \<Rightarrow> bindE (query f) (\<lambda>x. query (\<lambda>_. setPrimitive addr name x v))
      | None \<Rightarrow>
          if token = TypeNvlist then unmarshal_nvlist recur addr name v
          else if token = TypeNvlistArray then unmarshal_nvlists recur name v
          else ret v))"

fun unmarshal_fuel :: "nat \<Rightarrow> bool \<Rightarrow> goval \<Rightarrow> (NVListReader, goval) proc" where
  "unmarshal_fuel n addr v =
     (case focus addr v of
        None \<Rightarrow> fail ErrInvalidData
      | Some (addr', c, wrap) \<Rightarrow>
          bindE (forNext Next n (\<lambda>k. unmarshal_step (unmarshal_fuel k) addr') c) (\<lambda>c'. ret (wrap c')))"

declare unmarshal_fuel.simps [simp del]

text \<open>The method on a reader, and the function on a buffer.\<close>

definition unmarshal :: "bool \<Rightarrow> goval \<Rightarrow> (NVListReader, goval) proc" where
  "unmarshal addr v = unbounded remaining (\<lambda>n. unmarshal_fuel n addr v)"

definition Unmarshal :: "byte list \<Rightarrow> goval \<Rightarrow> exit + goval" where
  "Unmarshal data val = fst (unmarshal False val (new_reader data))"

section \<open>Termination\<close>

lemma settled_case_option:
  "(x = None \<Longrightarrow> settled rem m n s) \<Longrightarrow> (\<And>a. x = Some a \<Longrightarrow> settled rem (\<lambda>k. f k a) n s) \<Longrightarrow>
   settled rem (\<lambda>k. case x of None \<Rightarrow> m k | Some a \<Rightarrow> f k a) n s"
  by (cases x) simp_all

lemma map_sum_total: "x \<noteq> Inl OutOfFuel \<Longrightarrow> map_sum id f x \<noteq> Inl OutOfFuel"
  by (cases x) auto

lemma go_index_total: "go_index xs i \<noteq> Inl OutOfFuel"
  by (simp add: go_index_def)

lemma scalar_total: "scalar n r \<noteq> Inl OutOfFuel"
  by (simp add: scalar_def pair_data_def go_slice_def native_uint_def)

lemma pair_data_total: "pair_data r \<noteq> Inl OutOfFuel"
  by (simp add: pair_data_def go_slice_def)

lemma unsafe_array_total: "unsafe_array w r \<noteq> Inl OutOfFuel"
  by (simp add: unsafe_array_def pair_data_def go_slice_def)

lemma Boolean_total: "Boolean r \<noteq> Inl OutOfFuel"
  using scalar_total [of 4 r, where ?'a = 32] by (auto simp: Boolean_def Int32_def split: sum.split)

lemma append_times_total: "(\<And>r. f r \<noteq> Inl OutOfFuel) \<Longrightarrow> append_times n f dst r \<noteq> Inl OutOfFuel"
  by (auto simp: append_times_const split: sum.split)

lemma primitive_total: "primitive token = Some f \<Longrightarrow> f r \<noteq> Inl OutOfFuel"
  by (auto simp: primitive_def slice_of_def Int16_def UInt16_def Int32_def UInt32_def Int64_def UInt64_def
      Int8_def UInt8_def Byte_def Int8Array_def UInt8Array_def Int16Array_def UInt16Array_def
      Int32Array_def UInt32Array_def Int64Array_def UInt64Array_def ByteArray_def StringArraySafe_def
      BooleanArray_def go_index_total scalar_total pair_data_total unsafe_array_total NV_String_total
      Boolean_total append_times_total
      intro!: map_sum_total split: if_splits)

lemma set_index_total: "set_index T m name x \<noteq> Inl OutOfFuel"
  by (auto simp: set_index_def assignTo_def split: option.split)

lemma setPrimitive_total: "setPrimitive addr name x v \<noteq> Inl OutOfFuel"
  using set_index_total by (auto simp: setPrimitive_def assignTo_def split: goval.split option.split)

lemma settled_query_const: "q \<noteq> Inl OutOfFuel \<Longrightarrow> settled rem (\<lambda>n. query (\<lambda>_. q)) n s"
  by (rule settled_query)

lemma settled_unmarshal_nvlist:
  assumes "\<And>addr v. settled remaining (\<lambda>n. recur n addr v) n r"
  shows "settled remaining (\<lambda>n. unmarshal_nvlist (recur n) addr name v) n r"
  unfolding unmarshal_nvlist_def
  by (cases v) (auto intro!: settled_case_option settled_bindE settled_query_const set_index_total assms)

lemma settled_unmarshal_nvlists:
  assumes "\<And>r' addr v. remaining r' \<le> remaining r \<Longrightarrow> settled remaining (\<lambda>n. recur n addr v) n r'"
  shows "settled remaining (\<lambda>n. unmarshal_nvlists (recur n) name v) n r"
  unfolding unmarshal_nvlists_def
  by (cases v) (auto intro!: settled_bindE settled_gets settled_collectE settled_query_const set_index_total assms)

lemma settled_unmarshal_step:
  assumes "\<And>r' addr v. remaining r' \<le> remaining r \<Longrightarrow> settled remaining (\<lambda>n. recur n addr v) n r'"
  shows "settled remaining (\<lambda>n. unmarshal_step (recur n) addr token v) n r"
  unfolding unmarshal_step_def
proof (rule settled_bindE [OF settled_gets], rule settled_if [OF settled_fail], rule settled_case_option)
  fix name r' assume le: "remaining r' \<le> remaining r"
  have sub: "remaining r'' \<le> remaining r' \<Longrightarrow> settled remaining (\<lambda>n. recur n addr v) n r''" for r'' addr v
    using assms le by simp
  show "settled remaining (\<lambda>k. if token = TypeNvlist then unmarshal_nvlist (recur k) addr name v
      else if token = TypeNvlistArray then unmarshal_nvlists (recur k) name v else ret v) n r'"
    by (intro settled_if settled_unmarshal_nvlist settled_unmarshal_nvlists settled_ret sub) simp_all
  show "settled remaining (\<lambda>k. bindE (query f) (\<lambda>x. query (\<lambda>_. setPrimitive addr name x v))) n r'"
    if "primitive token = Some f" for f
    using primitive_total [OF that]
    by (intro settled_bindE settled_query settled_query_const setPrimitive_total)
qed

text \<open>The loop of the source on a container, with its bound.\<close>

definition unmarshal_loop_fuel :: "nat \<Rightarrow> bool \<Rightarrow> goval \<Rightarrow> (NVListReader, goval) proc" where
  "unmarshal_loop_fuel n addr = forNext Next n (\<lambda>k. unmarshal_step (unmarshal_fuel k) addr)"

lemma unmarshal_fuel_eq:
  "unmarshal_fuel n addr v =
     (case focus addr v of
        None \<Rightarrow> fail ErrInvalidData
      | Some (addr', c, wrap) \<Rightarrow> bindE (unmarshal_loop_fuel n addr' c) (\<lambda>c'. ret (wrap c')))"
  unfolding unmarshal_loop_fuel_def by (rule unmarshal_fuel.simps)

lemma settled_unmarshal_fuel: "remaining r < n \<Longrightarrow> settled remaining (\<lambda>n. unmarshal_fuel n addr v) n r"
proof (induction n arbitrary: r addr v rule: less_induct)
  case (less n)
  have "settled remaining (\<lambda>k. unmarshal_step (unmarshal_fuel k) addr token c) k r'"
    if "k < n" "remaining r' < k" for k addr token c r'
    by (rule settled_unmarshal_step, rule less.IH) (use that in auto)
  from nv.settled_forNext [OF less.prems this]
  have loop: "settled remaining (\<lambda>n. unmarshal_loop_fuel n addr c) n r" for addr c
    by (simp only: unmarshal_loop_fuel_def)
  have "settled remaining (\<lambda>n. case focus addr v of
        None \<Rightarrow> fail ErrInvalidData
      | Some (addr', c, wrap) \<Rightarrow> bindE (unmarshal_loop_fuel n addr' c) (\<lambda>c'. ret (wrap c'))) n r"
    by (auto intro!: settled_case_option settled_bindE loop split: prod.split)
  then show ?case unfolding unmarshal_fuel_eq [symmetric] .
qed

lemma bounded_unmarshal: "bounded_by remaining (\<lambda>n. unmarshal_fuel n addr v)"
  by (simp add: bounded_by_def settled_unmarshal_fuel)

lemma unmarshal_total: "fst (unmarshal addr v r) \<noteq> Inl OutOfFuel"
  using unbounded_terminates [OF bounded_unmarshal] by (metis unmarshal_def prod.collapse)

text \<open>The loop without a bound, and its equation.\<close>

definition unmarshal_loop :: "bool \<Rightarrow> goval \<Rightarrow> (NVListReader, goval) proc" where
  "unmarshal_loop addr c r = unmarshal_loop_fuel (Suc (remaining r)) addr c r"

lemma unmarshal_eq:
  "unmarshal addr v =
     (case focus addr v of
        None \<Rightarrow> fail ErrInvalidData
      | Some (addr', c, wrap) \<Rightarrow> bindE (unmarshal_loop addr' c) (\<lambda>c'. ret (wrap c')))"
  by (auto simp: fun_eq_iff unmarshal_def unbounded_def unmarshal_fuel_eq unmarshal_loop_def bindE_def
      split: option.split)

lemma unmarshal_step_unbounded:
  assumes "remaining r < n"
  shows "unmarshal_step (unmarshal_fuel n) addr token v r = unmarshal_step unmarshal addr token v r"
proof -
  have eq: "unmarshal_fuel n addr' w r = unmarshal addr' w r" for addr' w
    using unbounded_eq [OF bounded_unmarshal assms] by (simp add: unmarshal_def)
  have "collectE k (unmarshal_fuel n addr' w) r = collectE k (unmarshal addr' w) r" for k addr' w
    using collectE_unbounded [OF bounded_unmarshal assms] by (simp add: unmarshal_def [abs_def])
  then have "unmarshal_nvlists (unmarshal_fuel n) name v r = unmarshal_nvlists unmarshal name v r" for name
    by (auto simp: unmarshal_nvlists_def bindE_def gets_apply split: goval.split)
  moreover have "unmarshal_nvlist (unmarshal_fuel n) addr name v r = unmarshal_nvlist unmarshal addr name v r" for name
    by (auto simp: unmarshal_nvlist_def bindE_def eq split: goval.split option.split)
  ultimately show ?thesis
    by (auto simp: unmarshal_step_def bindE_gets split: option.split)
qed

lemma unmarshal_loop_unfold:
  "unmarshal_loop addr c r =
     (case Next r of
        (Inl e, r') \<Rightarrow> if e = Err EOF then (Inr c, r') else (Inl e, r')
      | (Inr token, r') \<Rightarrow> bindE (unmarshal_step unmarshal addr token c) (unmarshal_loop addr) r')"
  by (rule nv.loop_unfold [where body = "\<lambda>k. unmarshal_step (unmarshal_fuel k) addr"])
    (auto simp: unmarshal_loop_def unmarshal_loop_fuel_def unmarshal_step_unbounded
      intro!: settled_unmarshal_step settled_unmarshal_fuel)

lemma next_loop_unmarshal: "next_loop (unmarshal_step unmarshal addr) (unmarshal_loop addr)"
  by (simp add: next_loop_def unmarshal_loop_unfold)

end
