(* ===== verification/NV_Unmarshal_Spec.thy ===== *)
theory NV_Unmarshal_Spec
  imports NV_Unmarshal
begin

text \<open>
  What \<open>Unmarshal\<close> makes of encoded lists: into a \<open>map[string]any\<close> it decodes every pair of
  a type the reader takes apart, nested lists included; into a struct it stores the leaves
  that have a field, and loses its place at a nested list that has none.
\<close>

section \<open>Encoded values\<close>

text \<open>
  The value that the reader delivers for a leaf, by its type; \<open>None\<close> for payloads that do not fit the type
  and for arrays of strings. A byte array is delivered with its padding, an array of booleans as
  its first element, repeated; what they stand for is \<open>leaf_meaning\<close> below.
\<close>

definition word_slice :: "nat \<Rightarrow> gotype \<Rightarrow> ('a::len word \<Rightarrow> goval) \<Rightarrow> nat \<Rightarrow> byte list \<Rightarrow> goval option" where
  "word_slice w T f n bs =
     (if length bs = w * n then Some (SliceVal T (map f (map bytes_word (chunks w n bs)))) else None)"

definition word_value :: "nat \<Rightarrow> ('a::len word \<Rightarrow> goval) \<Rightarrow> byte list \<Rightarrow> goval option" where
  "word_value w f bs = (if length bs = w then Some (f (bytes_word bs)) else None)"

definition leaf_value :: "NVType \<Rightarrow> nat \<Rightarrow> byte list \<Rightarrow> goval option" where
  "leaf_value t n bs =
     (if t = TypeBoolean then Some (BoolVal True)
      else if t = TypeInt16 then word_value 2 Int16Val bs
      else if t = TypeUint16 then word_value 2 Uint16Val bs
      else if t = TypeInt32 then word_value 4 Int32Val bs
      else if t = TypeUint32 then word_value 4 Uint32Val bs
      else if t = TypeInt64 then word_value 8 Int64Val bs
      else if t = TypeUint64 then word_value 8 Uint64Val bs
      else if t = TypeInt8 \<and> bs \<noteq> [] then Some (Int8Val (hd bs))
      else if (t = TypeUint8 \<or> t = TypeByte) \<and> bs \<noteq> [] then Some (Uint8Val (hd bs))
      else if t = TypeString \<and> 0 \<in> set bs then Some (StringVal (string_of_bytes (takeWhile (\<lambda>b. b \<noteq> 0) bs)))
      else if t = TypeBooleanValue \<and> length bs = 4 \<and> (bytes_word bs :: 32 word) \<le> 1
        then Some (BoolVal ((bytes_word bs :: 32 word) = 1))
      else if t = TypeInt8Array then word_slice 1 GoInt8 Int8Val n bs
      else if t = TypeUint8Array then word_slice 1 GoUint8 Uint8Val n bs
      else if t = TypeInt16Array then word_slice 2 GoInt16 Int16Val n bs
      else if t = TypeUint16Array then word_slice 2 GoUint16 Uint16Val n bs
      else if t = TypeInt32Array then word_slice 4 GoInt32 Int32Val n bs
      else if t = TypeUint32Array then word_slice 4 GoUint32 Uint32Val n bs
      else if t = TypeInt64Array then word_slice 8 GoInt64 Int64Val n bs
      else if t = TypeUint64Array then word_slice 8 GoUint64 Uint64Val n bs
      else if t = TypeByteArray then Some (SliceVal GoUint8 (map Uint8Val (bs @ padding (length bs))))
      else if t = TypeBooleanArray \<and> length bs = 4 * n \<and> list_all (\<lambda>c. (bytes_word c :: 32 word) \<le> 1) (chunks 4 n bs)
        then Some (SliceVal GoBool (replicate n (BoolVal ((bytes_word (take 4 bs) :: 32 word) = 1))))
      else None)"

lemma unsafe_array_at_value:
  assumes v: "at_value r (bs @ pad) post" and n: "numElements r = n" "length bs = w * n"
  shows "unsafe_array w r = Inr (map bytes_word (chunks w n bs))"
proof -
  have "drop (dataPos r) (Data r) = bs @ pad @ post" using v by (simp add: at_value_def)
  then have "chunks w n (drop (dataPos r) (Data r)) = chunks w n bs" using n(2) by (simp add: chunks_append)
  with at_value_length [OF v] at_value_pair_data [OF v] n show ?thesis by (simp add: unsafe_array_def)
qed

lemma go_index_at_value: "at_value r (bs @ pad) post \<Longrightarrow> bs \<noteq> [] \<Longrightarrow> go_index (Data r) (int (dataPos r)) = Inr (hd bs)"
proof -
  assume v: "at_value r (bs @ pad) post" and "bs \<noteq> []"
  then have "dataPos r < length (Data r)" using at_value_length [OF v] by (cases bs) auto
  moreover have "Data r ! dataPos r = hd bs"
    using v \<open>bs \<noteq> []\<close> hd_drop_conv_nth [OF calculation] by (simp add: at_value_def)
  ultimately show ?thesis by (simp add: go_index_def)
qed

lemma leaf_read:
  assumes at: "at_pair r (Leaf nm t n bs) post" and x: "leaf_value t n bs = Some x"
  shows "\<exists>f. primitive t = Some f \<and> f r = Inr x"
proof -
  have "t \<noteq> TypeStringArray" using x by (auto simp: leaf_value_def NVType_defs split: if_splits)
  with at have v: "at_value r (bs @ padding (length bs)) post" and n: "numElements r = n"
    by (simp_all add: at_pair_def NumElements_def)
  note sc = scalar_at_value [OF v]
  note ar = unsafe_array_at_value [OF v n]
  note ix = go_index_at_value [OF v]
  have str: "NV_String r = Inr (string_of_bytes (takeWhile (\<lambda>b. b \<noteq> 0) bs))" if "t = TypeString" "0 \<in> set bs"
    using at_pair_string [OF at, of "string_of_bytes (takeWhile (\<lambda>b. b \<noteq> 0) bs)"] that by simp
  have bool: "Boolean r = Inr ((bytes_word (take 4 bs) :: 32 word) = 1)"
    if "4 \<le> length bs" "(bytes_word (take 4 bs) :: 32 word) \<le> 1"
  proof -
    have "1 \<le> w" if "w \<noteq> 0" for w :: "32 word"
      using that by (simp add: word_le_nat_alt unat_gt_0 Suc_le_eq)
    then have "(bytes_word (take 4 bs) :: 32 word) = 0 \<or> (bytes_word (take 4 bs) :: 32 word) = 1"
      using that(2) order_antisym by blast
    moreover have "at_value r (take 4 bs @ (drop 4 bs @ padding (length bs))) post"
      using v append_take_drop_id [of 4 bs] by (metis append.assoc)
    from scalar_at_value [OF this, of 4, where ?'a = 32] have "Int32 r = Inr (bytes_word (take 4 bs))"
      using that(1) by (simp add: Int32_def)
    ultimately show ?thesis by (auto simp: Boolean_def)
  qed
  have bools: "BooleanArray r = Inr (replicate n ((bytes_word (take 4 bs) :: 32 word) = 1))"
    if "length bs = 4 * n" "list_all (\<lambda>c. (bytes_word c :: 32 word) \<le> 1) (chunks 4 n bs)"
  proof (cases n)
    case (Suc k)
    with that bool show ?thesis using at by (simp add: BooleanArray_def append_times_const at_pair_def)
  qed (use at in \<open>simp add: BooleanArray_def at_pair_def\<close>)
  have bytes: "ByteArray r = Inr (bs @ padding (length bs))"
    by (simp add: ByteArray_def at_value_pair_data [OF v])
  show ?thesis
    using x unfolding leaf_value_def word_value_def word_slice_def
    by (simp split: if_split_asm)
      (auto simp: sc ar ix str bool bools bytes primitive_def NVType_defs slice_of_def Int16_def UInt16_def Int32_def UInt32_def Int64_def
        UInt64_def Int8_def UInt8_def Byte_def Int8Array_def UInt8Array_def Int16Array_def
        UInt16Array_def Int32Array_def UInt32Array_def Int64Array_def UInt64Array_def)
qed

section \<open>Maps\<close>

text \<open>What an encoded list is as a \<open>map[string]any\<close>: the last pair of a name counts.\<close>

fun any_of :: "nvpair \<Rightarrow> goval" where
  "any_of (Leaf nm t n bs) = the (leaf_value t n bs)"
| "any_of (Embedded nm ps) =
     MapVal GoAny (Some (fold (\<lambda>p m. m(pair_name p \<mapsto> AnyVal (Some (any_of p)))) ps Map.empty))"
| "any_of (EmbeddedArray nm pss) = SliceVal (GoMap GoAny)
     (map (\<lambda>ps. MapVal GoAny (Some (fold (\<lambda>p m. m(pair_name p \<mapsto> AnyVal (Some (any_of p)))) ps Map.empty))) pss)"

definition entry_of :: "nvpair \<Rightarrow> (string \<Rightarrow> goval option) \<Rightarrow> string \<Rightarrow> goval option" where
  "entry_of p m = m(pair_name p \<mapsto> AnyVal (Some (any_of p)))"

definition map_of_pairs :: "nvpair list \<Rightarrow> string \<Rightarrow> goval option" where
  "map_of_pairs ps = fold entry_of ps Map.empty"

fun any_ok :: "nvpair \<Rightarrow> bool" where
  "any_ok (Leaf nm t n bs) = (leaf_value t n bs \<noteq> None)"
| "any_ok (Embedded nm ps) = list_all any_ok ps"
| "any_ok (EmbeddedArray nm pss) = list_all (list_all any_ok) pss"

definition any_map :: "(string \<Rightarrow> goval option) \<Rightarrow> goval" where
  "any_map m = MapVal GoAny (Some m)"

lemma any_of_lists:
  "any_of (Embedded nm ps) = any_map (map_of_pairs ps)"
  "any_of (EmbeddedArray nm pss) = SliceVal (GoMap GoAny) (map (\<lambda>ps. any_map (map_of_pairs ps)) pss)"
  by (simp_all add: any_map_def map_of_pairs_def entry_of_def [abs_def])

lemma leaf_value_typed: "leaf_value t n bs = Some x \<Longrightarrow> typeof x \<noteq> GoAny"
  by (auto simp: leaf_value_def word_value_def word_slice_def split: if_splits)

lemma any_of_typed: "any_ok p \<Longrightarrow> typeof (any_of p) \<noteq> GoAny"
  using leaf_value_typed by (cases p) auto

lemma set_index_any: "typeof x \<noteq> GoAny \<Longrightarrow> set_index GoAny (Some m) nm x = Inr (any_map (m(nm \<mapsto> AnyVal (Some x))))"
  by (simp add: set_index_def assignTo_def any_map_def)

lemma unmarshal_any_map: "unmarshal addr (any_map m) = bindE (unmarshal_loop addr (any_map m)) ret"
  by (simp add: unmarshal_eq focus_def focus_any_def any_map_def)

lemma primitive_lists: "primitive TypeNvlist = None" "primitive TypeNvlistArray = None"
  by (simp_all add: primitive_def NVType_defs)

lemma list_tags: "TypeNvlist \<noteq> TypeUnknown" "TypeNvlistArray \<noteq> TypeUnknown" "TypeNvlistArray \<noteq> TypeNvlist"
  by (simp_all add: NVType_defs)

text \<open>One pair read into a map.\<close>

definition enters_map :: "nvpair \<Rightarrow> bool" where
  "enters_map p \<longleftrightarrow> (\<forall>addr m r rest. before r (pair_tail p @ rest) \<longrightarrow> rest \<noteq> [] \<longrightarrow>
     at_pair r p (pair_tail p @ rest) \<longrightarrow>
     (\<exists>r'. unmarshal_step unmarshal addr (pair_tag p) (any_map m) r = (Inr (any_map (entry_of p m)), r') \<and> before r' rest))"

lemma unmarshal_map_passes:
  assumes wf: "list_all wf_pair ps" and step: "list_all enters_map ps"
  shows "passes (unmarshal addr (any_map m)) (any_map (fold entry_of ps m)) (encode_list ps) 0"
proof -
  let ?I = "\<lambda>c. \<exists>m. c = any_map m"
  define upd where "upd p c = (case c of MapVal T (Some m) \<Rightarrow> any_map (entry_of p m) | _ \<Rightarrow> c)" for p c
  have upd: "upd p (any_map m) = any_map (entry_of p m)" for p m by (simp add: upd_def any_map_def)
  have "passes (unmarshal_loop addr (any_map m)) (fold upd ps (any_map m)) (encode_list ps) 0"
    by (rule pairs_loop_inv [OF next_loop_unmarshal wf, where I = ?I])
      (use step upd in \<open>auto simp: list_all_iff enters_map_def\<close>)
  moreover have "fold upd ps (any_map m) = any_map (fold entry_of ps m)"
    by (induction ps arbitrary: m) (simp_all add: upd)
  ultimately show ?thesis
    using passes_bindE [OF _ passes_ret] by (fastforce simp: unmarshal_any_map)
qed

lemma enters_map_leaf: "any_ok (Leaf nm t n bs) \<Longrightarrow> t \<noteq> TypeUnknown \<Longrightarrow> enters_map (Leaf nm t n bs)"
  unfolding enters_map_def
proof (intro allI impI)
  fix addr m r rest
  assume "any_ok (Leaf nm t n bs)" and t: "t \<noteq> TypeUnknown" and r: "before r (pair_tail (Leaf nm t n bs) @ rest)"
    and at: "at_pair r (Leaf nm t n bs) (pair_tail (Leaf nm t n bs) @ rest)"
  then obtain x where x: "leaf_value t n bs = Some x" by auto
  from leaf_read [OF at x] obtain f where f: "primitive t = Some f" "f r = Inr x" by blast
  have "unmarshal_step unmarshal addr t (any_map m) r = (set_index GoAny (Some m) nm x, r)"
    using t f at_pair_name [OF at]
    by (simp add: unmarshal_step_def bindE_gets bindE_query setPrimitive_def any_map_def query_apply)
  with r x set_index_any [OF leaf_value_typed [OF x]]
  show "\<exists>r'. unmarshal_step unmarshal addr (pair_tag (Leaf nm t n bs)) (any_map m) r =
      (Inr (any_map (entry_of (Leaf nm t n bs) m)), r') \<and> before r' rest"
    by (simp add: entry_of_def)
qed

lemma enters_map_list:
  assumes "passes (unmarshal False (any_map Map.empty)) (any_map (map_of_pairs ps)) (encode_list ps) 0"
  shows "enters_map (Embedded nm ps)"
  unfolding enters_map_def
proof (intro allI impI)
  fix addr m r rest
  assume r: "before r (pair_tail (Embedded nm ps) @ rest)" and rest: "rest \<noteq> []"
    and at: "at_pair r (Embedded nm ps) (pair_tail (Embedded nm ps) @ rest)"
  from r rest have "before r (encode_list ps @ rest)" and "0 < length rest" by simp_all
  then obtain r' where run: "unmarshal False (any_map Map.empty) r = (Inr (any_map (map_of_pairs ps)), r')"
      and r': "before r' rest" by (rule passesD [OF assms])
  have "typeof (any_map (map_of_pairs ps)) \<noteq> GoAny" by (simp add: any_map_def)
  note entered = set_index_any [OF this, of m nm]
  have "unmarshal_step unmarshal addr TypeNvlist (any_map m) r =
      bindE (unmarshal False (any_map Map.empty)) (\<lambda>w. query (\<lambda>_. set_index GoAny (Some m) nm (element_of w))) r"
    using at_pair_name [OF at] primitive_lists list_tags
    by (simp add: unmarshal_step_def bindE_gets unmarshal_nvlist_def any_map_def fresh_element_def)
  also have "\<dots> = (Inr (any_map (entry_of (Embedded nm ps) m)), r')"
    by (simp add: bindE_Inr [of "unmarshal False (any_map Map.empty)", OF run] query_apply)
      (simp add: element_of_def any_map_def entered [unfolded any_map_def] entry_of_def
        any_of_lists [unfolded any_map_def] del: any_of.simps)
  finally show "\<exists>r'. unmarshal_step unmarshal addr (pair_tag (Embedded nm ps)) (any_map m) r =
      (Inr (any_map (entry_of (Embedded nm ps) m)), r') \<and> before r' rest"
    using r' by simp
qed

lemma enters_map_lists:
  assumes "\<And>ps. ps \<in> set pss \<Longrightarrow> passes (unmarshal True (any_map Map.empty)) (any_map (map_of_pairs ps)) (encode_list ps) 0"
  shows "enters_map (EmbeddedArray nm pss)"
  unfolding enters_map_def
proof (intro allI impI)
  fix addr m r rest
  let ?p = "EmbeddedArray nm pss" and ?ms = "map (\<lambda>ps. any_map (map_of_pairs ps)) pss"
  assume r: "before r (pair_tail ?p @ rest)" and rest: "rest \<noteq> []" and at: "at_pair r ?p (pair_tail ?p @ rest)"
  have "list_all2 (\<lambda>a s. passes (unmarshal True (any_map Map.empty)) a s 0) ?ms (map encode_list pss)"
    using assms by (auto simp: list_all2_conv_all_nth)
  from passes_collectE [OF this]
  have "passes (collectE (length pss) (unmarshal True (any_map Map.empty))) ?ms (concat (map encode_list pss)) 0" by simp
  moreover have "before r (concat (map encode_list pss) @ rest)" and "0 < length rest" using r rest by simp_all
  ultimately obtain r' where run: "collectE (length pss) (unmarshal True (any_map Map.empty)) r = (Inr ?ms, r')"
      and r': "before r' rest" by (rule passesD)
  have "typeof (any_of ?p) \<noteq> GoAny" by simp
  note entered = set_index_any [OF this, of m nm]
  have "unmarshal_step unmarshal addr TypeNvlistArray (any_map m) r =
      bindE (collectE (length pss) (unmarshal True (any_map Map.empty)))
        (\<lambda>ws. query (\<lambda>_. set_index GoAny (Some m) nm (SliceVal (GoMap GoAny) ws))) r"
    using at_pair_name [OF at] at_pair_count [OF at] primitive_lists list_tags
    by (simp add: unmarshal_step_def bindE_gets unmarshal_nvlists_def any_map_def)
  also have "\<dots> = (Inr (any_map (entry_of ?p m)), r')"
    using entered by (simp add: bindE_Inr [of "collectE (length pss) (unmarshal True (any_map Map.empty))", OF run]
        query_apply entry_of_def any_of_lists del: any_of.simps)
  finally show "\<exists>r'. unmarshal_step unmarshal addr (pair_tag ?p) (any_map m) r =
      (Inr (any_map (entry_of ?p m)), r') \<and> before r' rest"
    using r' by simp
qed

lemma any_ok_known: "any_ok (Leaf nm t n bs) \<Longrightarrow> t \<noteq> TypeUnknown"
  by (auto simp: leaf_value_def NVType_defs)

lemma enters_map_pair: "wf_pair p \<Longrightarrow> any_ok p \<Longrightarrow> enters_map p"
proof (induction p)
  case (Leaf nm t n bs)
  then show ?case by (intro enters_map_leaf any_ok_known)
next
  case (Embedded nm ps)
  have "passes (unmarshal False (any_map Map.empty)) (any_map (map_of_pairs ps)) (encode_list ps) 0"
    unfolding map_of_pairs_def by (rule unmarshal_map_passes) (use Embedded in \<open>auto simp: list_all_iff\<close>)
  then show ?case by (rule enters_map_list)
next
  case (EmbeddedArray nm pss)
  have "passes (unmarshal True (any_map Map.empty)) (any_map (map_of_pairs ps)) (encode_list ps) 0"
    if "ps \<in> set pss" for ps
    unfolding map_of_pairs_def
    by (rule unmarshal_map_passes) (use EmbeddedArray that in \<open>auto simp: list_all_iff\<close>)
  then show ?case by (rule enters_map_lists)
qed

lemma unmarshal_map:
  assumes "list_all wf_pair ps" and "list_all any_ok ps"
  shows "passes (unmarshal addr (any_map m)) (any_map (fold entry_of ps m)) (encode_list ps) 0"
  using assms by (intro unmarshal_map_passes) (auto simp: list_all_iff intro: enters_map_pair)

section \<open>Meanings\<close>

text \<open>
  What a pair stands for, for every type that the format has a payload for: a byte array for its own bytes, an array of booleans
  for its booleans, an array of strings for the strings behind its pointers, the other types
  for what the reader delivers. \<open>typed\<close> pairs have payloads that fit their types.
\<close>

fun c_strings :: "nat \<Rightarrow> byte list \<Rightarrow> string list" where
  "c_strings 0 bs = []"
| "c_strings (Suc n) bs =
     (let s = takeWhile (\<lambda>b. b \<noteq> 0) bs in string_of_bytes s # c_strings n (drop (Suc (length s)) bs))"

definition leaf_meaning :: "NVType \<Rightarrow> nat \<Rightarrow> byte list \<Rightarrow> goval option" where
  "leaf_meaning t n bs =
     (if t = TypeByteArray then if length bs = n then Some (SliceVal GoUint8 (map Uint8Val bs)) else None
      else if t = TypeBooleanArray then
        if length bs = 4 * n \<and> list_all (\<lambda>c. (bytes_word c :: 32 word) \<le> 1) (chunks 4 n bs)
        then Some (SliceVal GoBool (map (\<lambda>c. BoolVal ((bytes_word c :: 32 word) = 1)) (chunks 4 n bs))) else None
      else if t = TypeStringArray then
        if 8 * n \<le> length bs \<and> n \<le> length (filter (\<lambda>b. b = 0) (drop (8 * n) bs))
        then Some (SliceVal GoString (map StringVal (c_strings n (drop (8 * n) bs)))) else None
      else leaf_value t n bs)"

fun meaning :: "nvpair \<Rightarrow> goval" where
  "meaning (Leaf nm t n bs) = the (leaf_meaning t n bs)"
| "meaning (Embedded nm ps) =
     MapVal GoAny (Some (fold (\<lambda>p m. m(pair_name p \<mapsto> AnyVal (Some (meaning p)))) ps Map.empty))"
| "meaning (EmbeddedArray nm pss) = SliceVal (GoMap GoAny)
     (map (\<lambda>ps. MapVal GoAny (Some (fold (\<lambda>p m. m(pair_name p \<mapsto> AnyVal (Some (meaning p)))) ps Map.empty))) pss)"

definition add_meaning :: "nvpair \<Rightarrow> (string \<Rightarrow> goval option) \<Rightarrow> string \<Rightarrow> goval option" where
  "add_meaning p m = m(pair_name p \<mapsto> AnyVal (Some (meaning p)))"

fun typed :: "nvpair \<Rightarrow> bool" where
  "typed (Leaf nm t n bs) = (leaf_meaning t n bs \<noteq> None)"
| "typed (Embedded nm ps) = list_all typed ps"
| "typed (EmbeddedArray nm pss) = list_all (list_all typed) pss"

text \<open>
  The arrays that the reader does not deliver as they are: of more than one boolean, of strings, and
  of bytes in a number that is not a multiple of 8, wherever they stand in the list.
\<close>

fun no_damaged_array :: "nvpair \<Rightarrow> bool" where
  "no_damaged_array (Leaf nm t n bs) \<longleftrightarrow> t \<noteq> TypeStringArray \<and> (t = TypeBooleanArray \<longrightarrow> n \<le> 1) \<and>
     (t = TypeByteArray \<longrightarrow> 8 dvd length bs)"
| "no_damaged_array (Embedded nm ps) = list_all no_damaged_array ps"
| "no_damaged_array (EmbeddedArray nm pss) = list_all (list_all no_damaged_array) pss"

lemma leaf_as_meant:
  assumes "leaf_meaning t n bs = Some x" and "no_damaged_array (Leaf nm t n bs)"
  shows "leaf_value t n bs = Some x"
proof -
  consider "t = TypeByteArray" | "t = TypeBooleanArray" | "t \<noteq> TypeByteArray" "t \<noteq> TypeBooleanArray" by blast
  then show ?thesis
  proof cases
    case 1
    then have "padding (length bs) = []" using assms(2) by (simp add: padding_def)
    with assms(1) 1 show ?thesis by (simp add: leaf_meaning_def leaf_value_def NVType_defs split: if_splits)
  next
    case 2
    then have "n = 0 \<or> n = 1" using assms(2) by auto
    with assms(1) 2 show ?thesis by (auto simp: leaf_meaning_def leaf_value_def NVType_defs split: if_splits)
  qed (use assms in \<open>auto simp: leaf_meaning_def split: if_splits\<close>)
qed

lemma fold_entries_cong:
  "(\<And>p. p \<in> set ps \<Longrightarrow> f p = g p) \<Longrightarrow>
   fold (\<lambda>p m. m(pair_name p \<mapsto> AnyVal (Some (f p)))) ps m = fold (\<lambda>p m. m(pair_name p \<mapsto> AnyVal (Some (g p)))) ps m"
  by (intro List.fold_cong refl) simp

lemma pair_as_meant: "typed p \<Longrightarrow> no_damaged_array p \<Longrightarrow> any_ok p \<and> any_of p = meaning p"
proof (induction p)
  case (Leaf nm t n bs)
  then show ?case using leaf_as_meant by fastforce
next
  case (Embedded nm ps)
  then have "any_ok p \<and> any_of p = meaning p" if "p \<in> set ps" for p
    using that by (auto simp: list_all_iff)
  then show ?case using fold_entries_cong [of ps any_of meaning Map.empty] by (simp add: list_all_iff)
next
  case (EmbeddedArray nm pss)
  then have *: "any_ok p \<and> any_of p = meaning p" if "ps \<in> set pss" "p \<in> set ps" for p ps
    using that by (auto simp: list_all_iff)
  then show ?case using fold_entries_cong [of _ any_of meaning Map.empty] by (simp add: list_all_iff)
qed

lemma pairs_as_meant:
  assumes "list_all typed ps" and "list_all no_damaged_array ps"
  shows "list_all any_ok ps" and "fold entry_of ps m = fold add_meaning ps m"
proof -
  have *: "any_ok p \<and> any_of p = meaning p" if "p \<in> set ps" for p
    using assms that by (intro pair_as_meant) (auto simp: list_all_iff)
  then show "list_all any_ok ps" by (simp add: list_all_iff)
  show "fold entry_of ps m = fold add_meaning ps m"
    using * by (intro List.fold_cong refl) (simp add: entry_of_def add_meaning_def fun_eq_iff)
qed

section \<open>Structs\<close>

text \<open>
  Leaves that fit the fields of a struct, and the struct they make. A leaf without a field that
  can be set is passed over.
\<close>

type_synonym fields = "(((string \<times> string \<times> bool) \<times> gotype) \<times> goval) list"

fun fits_struct :: "bool \<Rightarrow> fields \<Rightarrow> nvpair \<Rightarrow> bool" where
  "fits_struct addr fs (Leaf nm t n bs) \<longleftrightarrow> leaf_value t n bs \<noteq> None \<and>
     (case settable_field addr nm fs of
        None \<Rightarrow> True
      | Some i \<Rightarrow> snd (fst (fs ! i)) = GoAny \<or> snd (fst (fs ! i)) = typeof (the (leaf_value t n bs)))"
| "fits_struct addr fs _ = False"

definition store_leaf :: "bool \<Rightarrow> nvpair \<Rightarrow> goval \<Rightarrow> goval" where
  "store_leaf addr p v = (case setPrimitive addr (pair_name p) (any_of p) v of Inr v' \<Rightarrow> v' | Inl e \<Rightarrow> v)"

lemma find_in: "find P xs = Some x \<Longrightarrow> x \<in> set xs"
  by (induction xs) (auto split: if_splits)

lemma settable_bound: "settable_field addr nm fs = Some i \<Longrightarrow> i < length fs"
  by (auto simp: settable_field_def split: option.splits if_splits dest: find_in)

lemma find_conv: "(\<And>x. x \<in> set xs \<Longrightarrow> P x = Q x) \<Longrightarrow> find P xs = find Q xs"
  by (induction xs) auto

lemma settable_infos:
  assumes "map fst fs = map fst fs'"
  shows "settable_field addr nm fs = settable_field addr nm fs'"
    and "i < length fs \<Longrightarrow> fst (fs ! i) = fst (fs' ! i)"
proof -
  have len: "length fs = length fs'" using assms by (metis length_map)
  show eq: "i < length fs \<Longrightarrow> fst (fs ! i) = fst (fs' ! i)" for i
    using assms len by (metis nth_map)
  have "find (\<lambda>i. field_key (fst (fst (fs ! i))) = nm) (rev [0..<length fs]) =
      find (\<lambda>i. field_key (fst (fst (fs' ! i))) = nm) (rev [0..<length fs'])"
    unfolding len by (rule find_conv) (simp add: eq len)
  moreover have "find (\<lambda>i. field_key (fst (fst (fs ! i))) = nm) (rev [0..<length fs]) = Some i \<Longrightarrow> i < length fs" for i
    by (auto dest: find_in)
  ultimately show "settable_field addr nm fs = settable_field addr nm fs'"
    by (auto simp: settable_field_def eq split: option.splits)
qed

lemma setPrimitive_struct:
  assumes fits: "fits_struct addr fs (Leaf nm t n bs)" and infos: "map fst fs' = map fst fs"
  shows "\<exists>fs2. setPrimitive addr nm (the (leaf_value t n bs)) (StructVal fs') = Inr (StructVal fs2) \<and>
    map fst fs2 = map fst fs"
proof (cases "settable_field addr nm fs")
  case None
  with settable_infos(1) [OF infos] infos show ?thesis by (simp add: setPrimitive_def)
next
  case (Some i)
  have i: "i < length fs'" using settable_bound [OF Some] infos by (metis length_map)
  have "fst (fs' ! i) = fst (fs ! i)" using settable_infos(2) [OF infos i] .
  with fits Some obtain y where "assignTo (snd (fst (fs' ! i))) (the (leaf_value t n bs)) = Inr y"
    by (cases "typeof (the (leaf_value t n bs)) = snd (fst (fs ! i))") (auto simp: assignTo_def)
  moreover have "map fst (fs'[i := (fst (fs' ! i), y)]) = map fst fs" for y
    unfolding map_update fst_conv nth_map [OF i, of fst, symmetric] by (simp add: infos)
  ultimately show ?thesis using settable_infos(1) [OF infos] Some by (simp add: setPrimitive_def put_field_def)
qed

lemma unmarshal_struct: "unmarshal addr (StructVal fs) = bindE (unmarshal_loop addr (StructVal fs)) ret"
  by (simp add: unmarshal_eq focus_def focus_any_def)

lemma struct_loop_passes:
  assumes wf: "list_all wf_pair ps" and fits: "list_all (fits_struct addr fs) ps"
  shows "passes (unmarshal_loop addr (StructVal fs)) (fold (store_leaf addr) ps (StructVal fs)) (encode_list ps) 0"
proof (rule pairs_loop_inv [OF next_loop_unmarshal wf, where I = "\<lambda>v. \<exists>fs'. v = StructVal fs' \<and> map fst fs' = map fst fs"])
  fix p v assume p: "p \<in> set ps" and "\<exists>fs'. v = StructVal fs' \<and> map fst fs' = map fst fs"
  then obtain fs' where v: "v = StructVal fs'" "map fst fs' = map fst fs" by blast
  obtain nm t n bs where leaf: "p = Leaf nm t n bs" and fit: "fits_struct addr fs (Leaf nm t n bs)"
    using fits p by (cases p) (auto simp: list_all_iff)
  obtain fs2 where set: "setPrimitive addr nm (the (leaf_value t n bs)) v = Inr (StructVal fs2)"
      and infos: "map fst fs2 = map fst fs"
    using setPrimitive_struct [OF fit v(2)] v(1) by blast
  have stored: "store_leaf addr p v = StructVal fs2" using set by (simp add: store_leaf_def leaf)
  with infos show "\<exists>fs'. store_leaf addr p v = StructVal fs' \<and> map fst fs' = map fst fs" by blast
  fix r rest assume r: "before r (pair_tail p @ rest)" and at: "at_pair r p (pair_tail p @ rest)"
  obtain x where x: "leaf_value t n bs = Some x" using fit by auto
  from leaf_read [OF at [unfolded leaf] x] obtain f where f: "primitive t = Some f" "f r = Inr x" by blast
  have "t \<noteq> TypeUnknown" using x by (auto simp: leaf_value_def NVType_defs)
  with f at_pair_name [OF at] set x have "unmarshal_step unmarshal addr (pair_tag p) v r = (Inr (StructVal fs2), r)"
    by (simp add: leaf unmarshal_step_def bindE_gets bindE_query query_apply)
  with stored r leaf show "\<exists>r'. unmarshal_step unmarshal addr (pair_tag p) v r = (Inr (store_leaf addr p v), r') \<and> before r' rest"
    by simp
qed auto

lemma unmarshal_struct_passes:
  assumes "list_all wf_pair ps" and "list_all (fits_struct addr fs) ps"
  shows "passes (unmarshal addr (StructVal fs)) (fold (store_leaf addr) ps (StructVal fs)) (encode_list ps) 0"
  using passes_bindE [OF struct_loop_passes [OF assms] passes_ret] by (simp add: unmarshal_struct)

text \<open>
  Which leaf ends up in a field: the last one that goes by its key; a field of type \<open>any\<close> holds it
  with its type. A field without a leaf keeps its value.
\<close>

definition as_field :: "gotype \<Rightarrow> goval \<Rightarrow> goval" where
  "as_field T x = (if typeof x = T then x else AnyVal (Some x))"

definition field_value :: "bool \<Rightarrow> fields \<Rightarrow> nvpair list \<Rightarrow> nat \<Rightarrow> goval" where
  "field_value addr fs ps i =
     (case find (\<lambda>p. settable_field addr (pair_name p) fs = Some i) (rev ps) of
        None \<Rightarrow> snd (fs ! i)
      | Some p \<Rightarrow> as_field (snd (fst (fs ! i))) (any_of p))"

definition filled :: "bool \<Rightarrow> fields \<Rightarrow> nvpair list \<Rightarrow> fields" where
  "filled addr fs ps = map (\<lambda>i. (fst (fs ! i), field_value addr fs ps i)) [0..<length fs]"

lemma length_filled [simp]: "length (filled addr fs ps) = length fs"
  by (simp add: filled_def)

lemma filled_infos: "map fst (filled addr fs ps) = map fst fs"
  by (rule nth_equalityI) (simp_all add: filled_def)

lemma filled_Nil: "filled addr fs [] = fs"
  by (rule nth_equalityI) (simp_all add: filled_def field_value_def)

lemma filled_snoc:
  "filled addr fs (ps @ [p]) =
     (case settable_field addr (pair_name p) fs of
        None \<Rightarrow> filled addr fs ps
      | Some i \<Rightarrow> (filled addr fs ps)[i := (fst (fs ! i), as_field (snd (fst (fs ! i))) (any_of p))])"
proof (cases "settable_field addr (pair_name p) fs")
  case None
  then show ?thesis by (simp add: filled_def field_value_def)
next
  case (Some i)
  then show ?thesis
    using settable_bound [OF Some]
    by (intro nth_equalityI) (auto simp: filled_def field_value_def nth_list_update split: option.split)
qed

lemma store_leaf_filled:
  assumes "fits_struct addr fs p"
  shows "store_leaf addr p (StructVal (filled addr fs ps)) = StructVal (filled addr fs (ps @ [p]))"
proof -
  obtain nm t n bs where p: "p = Leaf nm t n bs" using assms by (cases p) auto
  show ?thesis
  proof (cases "settable_field addr nm fs")
    case None
    then show ?thesis
      by (simp add: store_leaf_def setPrimitive_def settable_infos(1) [OF filled_infos] p filled_snoc)
  next
    case (Some i)
    have i: "i < length fs" by (rule settable_bound [OF Some])
    have "fst (filled addr fs ps ! i) = fst (fs ! i)" using i by (simp add: filled_def)
    moreover have "assignTo (snd (fst (fs ! i))) (the (leaf_value t n bs)) =
        Inr (as_field (snd (fst (fs ! i))) (the (leaf_value t n bs)))"
      using assms Some by (auto simp: p assignTo_def as_field_def)
    ultimately show ?thesis
      using Some by (simp add: store_leaf_def setPrimitive_def settable_infos(1) [OF filled_infos] p filled_snoc put_field_def)
  qed
qed

lemma fold_store_leaf:
  "list_all (fits_struct addr fs) ps \<Longrightarrow> fold (store_leaf addr) ps (StructVal fs) = StructVal (filled addr fs ps)"
proof (induction ps rule: rev_induct)
  case Nil
  then show ?case by (simp add: filled_Nil)
next
  case (snoc p ps)
  then show ?case by (simp add: store_leaf_filled)
qed

text \<open>
  A nested list without a field is not skipped: its leaves are taken for the struct's, and its
  end for the end of the struct's list.
\<close>

lemma unmarshal_unknown_list:
  assumes wf: "wf_pair (Embedded nm ps)" and no: "settable_field addr nm fs = None"
    and fits: "list_all (fits_struct addr fs) ps"
  shows "passes (unmarshal addr (StructVal fs)) (fold (store_leaf addr) ps (StructVal fs)) (encode (Embedded nm ps)) 0"
proof (rule passesI)
  fix r rest
  assume r: "before r (encode (Embedded nm ps) @ rest)" and rest: "0 < length rest"
  have "4 < length (pair_tail (Embedded nm ps) @ rest)"
    using length_encode_list [of ps] rest unfolding pair_tail.simps length_append by linarith
  from Next_encode [OF r wf this] obtain r1 where nxt: "Next r = (Inr TypeNvlist, r1)"
      and r1: "before r1 (encode_list ps @ rest)" and name: "Name r1 = nm" by auto
  have "list_all wf_pair ps" using wf by simp
  then obtain r2 where run: "unmarshal_loop addr (StructVal fs) r1 = (Inr (fold (store_leaf addr) ps (StructVal fs)), r2)"
      and r2: "before r2 rest"
    using passesD [OF struct_loop_passes [OF _ fits] r1 rest] by blast
  have "unmarshal_step unmarshal addr TypeNvlist (StructVal fs) r1 = (Inr (StructVal fs), r1)"
    using name no primitive_lists list_tags
    by (simp add: unmarshal_step_def bindE_gets unmarshal_nvlist_def ret_apply)
  with nxt run have "unmarshal_loop addr (StructVal fs) r = (Inr (fold (store_leaf addr) ps (StructVal fs)), r2)"
    by (simp add: unmarshal_loop_unfold [of addr "StructVal fs" r] bindE_def)
  then have "unmarshal addr (StructVal fs) r = (Inr (fold (store_leaf addr) ps (StructVal fs)), r2)"
    by (simp add: unmarshal_struct bindE_def ret_apply)
  with r2 show "\<exists>r'. unmarshal addr (StructVal fs) r = (Inr (fold (store_leaf addr) ps (StructVal fs)), r') \<and> before r' rest"
    by blast
qed

text \<open>Through a pointer: the struct it points at, which is addressable.\<close>

lemma unmarshal_pointer:
  "unmarshal addr (PtrVal T (Some (StructVal fs))) = bindE (unmarshal True (StructVal fs)) (\<lambda>c. ret (PtrVal T (Some c)))"
  by (simp add: unmarshal_eq focus_def focus_any_def bindE_assoc)
    (simp add: fun_eq_iff bindE_def ret_apply split: prod.split sum.split)

end
