(* ===== verification/Unmarshal_Properties.thy ===== *)
theory Unmarshal_Properties
  imports NV_Unmarshal_Spec
begin

text \<open>
  The properties of \<open>Unmarshal\<close> in zfs/nvlist/decode.go.
\<close>

lemma Unmarshal_passes:
  assumes "passes (unmarshal False v) v' (encode_list ps) 0" and "post \<noteq> []"
  shows "Unmarshal (encode_stream ps @ post) v = Inr v'"
proof -
  have "0 < length post" using assms(2) by simp
  with before_stream [OF assms(2), of ps] obtain r'
    where "unmarshal False v (new_reader (encode_stream ps @ post)) = (Inr v', r')"
    by (rule passesD [OF assms(1)])
  then show ?thesis by (simp add: Unmarshal_def)
qed





text \<open>
  C14. Into a struct, a nested list without a field of its own is not skipped: its leaves are
  stored in the fields of the outer struct, and its end is taken for the end of the whole
  list, so that no pair \<open>qs\<close> behind it is read.
\<close>

theorem Unmarshal_unknown_list:
  assumes "list_all wf_pair (Embedded nm ps # qs)" and "settable_field True nm fs = None"
    and "list_all (fits_struct True fs) ps"
  shows "Unmarshal (encode_stream (Embedded nm ps # qs)) (PtrVal T (Some (StructVal fs))) =
    Inr (PtrVal T (Some (fold (store_leaf True) ps (StructVal fs))))"
proof -
  have "encode_list qs \<noteq> []" using length_encode_list [of qs] by auto
  then have rest: "0 < length (encode_list qs)" by simp
  have "encode_list (Embedded nm ps # qs) = encode (Embedded nm ps) @ encode_list qs" by (rule encode_list_Cons)
  then have r: "before (new_reader (encode_stream (Embedded nm ps # qs))) (encode (Embedded nm ps) @ encode_list qs)"
    using before_new [of "encode (Embedded nm ps) @ encode_list qs"] rest by (simp add: encode_stream_def)
  have "wf_pair (Embedded nm ps)" using assms(1) by simp
  from passesD [OF unmarshal_unknown_list [OF this assms(2,3)] r rest] obtain r'
    where "unmarshal True (StructVal fs) (new_reader (encode_stream (Embedded nm ps # qs))) =
      (Inr (fold (store_leaf True) ps (StructVal fs)), r')" by blast
  then show ?thesis by (simp add: Unmarshal_def unmarshal_pointer bindE_def ret_apply)
qed

text \<open>A struct for the name and the guid of a pool, against a list with the features first.\<close>

definition pool_struct :: fields where
  "pool_struct =
    [(((''Name'', ''name,omitempty'', True), GoString), StringVal []),
     (((''guid'', [], True), GoUint64), Uint64Val 0)]"

theorem Unmarshal_unknown_list_witness:
  "Unmarshal (encode_stream [Embedded ''features'' [uint64_leaf ''guid'' 1], string_leaf ''name'' ''tank'', uint64_leaf ''guid'' 42])
     (PtrVal (GoStruct (map fst pool_struct)) (Some (StructVal pool_struct))) =
   Inr (PtrVal (GoStruct (map fst pool_struct)) (Some (StructVal
     [(((''Name'', ''name,omitempty'', True), GoString), StringVal []),
      (((''guid'', [], True), GoUint64), Uint64Val 1)])))"
proof -
  let ?qs = "[string_leaf ''name'' ''tank'', uint64_leaf ''guid'' 42]"
  have wf: "list_all wf_pair (Embedded ''features'' [uint64_leaf ''guid'' 1] # ?qs)"
    by (simp add: wf_leaves wire_fits_def wire_size_def name_end_def padding_def)
  have keys: "settable_field True ''features'' pool_struct = None" "settable_field True ''guid'' pool_struct = Some 1"
    by (simp_all add: settable_field_def pool_struct_def field_key_def Let_def)
  have guid: "leaf_value TypeUint64 1 (word_bytes 8 (1 :: 64 word)) = Some (Uint64Val 1)"
    by (simp add: leaf_value_def word_value_def NVType_defs le64.dec_enc)
  have "list_all (fits_struct True pool_struct) [uint64_leaf ''guid'' 1]"
    using keys(2) guid by (simp add: uint64_leaf_def) (simp add: pool_struct_def)
  from Unmarshal_unknown_list [OF wf keys(1) this, of "GoStruct (map fst pool_struct)"]
  have "Unmarshal (encode_stream (Embedded ''features'' [uint64_leaf ''guid'' 1] # ?qs))
      (PtrVal (GoStruct (map fst pool_struct)) (Some (StructVal pool_struct))) =
      Inr (PtrVal (GoStruct (map fst pool_struct)) (Some (store_leaf True (uint64_leaf ''guid'' 1) (StructVal pool_struct))))"
    by simp
  moreover have "store_leaf True (uint64_leaf ''guid'' 1) (StructVal pool_struct) =
      put_field 1 (Uint64Val 1) pool_struct"
    using keys(2) guid
    by (simp add: store_leaf_def uint64_leaf_def setPrimitive_def) (simp add: pool_struct_def assignTo_def)
  ultimately show ?thesis by (simp add: put_field_def pool_struct_def)
qed

text \<open>
  C38. Round trip into structs, through a pointer: from a stream of leaves whose values fit the fields, with
  anything behind it, each field gets the value of the last leaf that goes by the first part of
  its tag, or by its name when there is none; the other fields keep what they held.
\<close>

theorem Unmarshal_struct_roundtrip:
  assumes "list_all wf_pair ps" and "list_all (fits_struct True fs) ps" and "post \<noteq> []"
  shows "Unmarshal (encode_stream ps @ post) (PtrVal T (Some (StructVal fs))) =
    Inr (PtrVal T (Some (StructVal (map (\<lambda>i. (fst (fs ! i), field_value True fs ps i)) [0..<length fs]))))"
proof -
  have "passes (unmarshal False (PtrVal T (Some (StructVal fs)))) (PtrVal T (Some (StructVal (filled True fs ps)))) (encode_list ps) 0"
    using passes_bindE [OF unmarshal_struct_passes [OF assms(1,2)] passes_ret] fold_store_leaf [OF assms(2)]
    by (simp add: unmarshal_pointer)
  from Unmarshal_passes [OF this assms(3)] show ?thesis by (simp add: filled_def)
qed

theorem Unmarshal_struct_roundtrip_witness:
  "Unmarshal (encode_stream [string_leaf ''name'' ''tank'', uint64_leaf ''guid'' 42, uint64_leaf ''txg'' 7] @ [0])
     (PtrVal (GoStruct (map fst pool_struct)) (Some (StructVal pool_struct))) =
   Inr (PtrVal (GoStruct (map fst pool_struct)) (Some (StructVal
     [(((''Name'', ''name,omitempty'', True), GoString), StringVal ''tank''),
      (((''guid'', [], True), GoUint64), Uint64Val 42)])))"
proof -
  let ?ps = "[string_leaf ''name'' ''tank'', uint64_leaf ''guid'' 42, uint64_leaf ''txg'' 7]"
  have wf: "list_all wf_pair ?ps"
    by (simp add: wf_leaves wire_fits_def wire_size_def name_end_def padding_def)
  have keys: "settable_field True ''name'' pool_struct = Some 0" "settable_field True ''guid'' pool_struct = Some 1"
    "settable_field True ''txg'' pool_struct = None"
    by (simp_all add: settable_field_def pool_struct_def field_key_def Let_def)
  have nums: "leaf_value TypeUint64 1 (word_bytes 8 w) = Some (Uint64Val w)" for w :: "64 word"
    by (simp add: leaf_value_def word_value_def NVType_defs le64.dec_enc)
  obtain n bs where leaf: "string_leaf ''name'' ''tank'' = Leaf ''name'' TypeString n bs"
    by (simp add: string_leaf_def)
  have "leaf_value (pair_tag (string_leaf ''name'' ''tank'')) (pair_count (string_leaf ''name'' ''tank''))
      (pair_payload (string_leaf ''name'' ''tank'')) = Some (StringVal ''tank'')"
    by (simp add: string_leaf_def leaf_value_def NVType_defs) code_simp
  then have str: "leaf_value TypeString n bs = Some (StringVal ''tank'')" by (simp add: leaf)
  have "list_all (fits_struct True pool_struct) ?ps"
    using keys nums str by (simp add: uint64_leaf_def leaf) (simp add: pool_struct_def)
  from Unmarshal_struct_roundtrip [OF wf this, of "[0]" "GoStruct (map fst pool_struct)"]
  have "Unmarshal (encode_stream ?ps @ [0]) (PtrVal (GoStruct (map fst pool_struct)) (Some (StructVal pool_struct))) =
      Inr (PtrVal (GoStruct (map fst pool_struct)) (Some (StructVal
        (map (\<lambda>i. (fst (pool_struct ! i), field_value True pool_struct ?ps i)) [0..<length pool_struct]))))"
    by simp
  moreover have "field_value True pool_struct ?ps 0 = StringVal ''tank''" "field_value True pool_struct ?ps 1 = Uint64Val 42"
    using keys nums str by (simp_all add: field_value_def uint64_leaf_def leaf) (simp_all add: as_field_def pool_struct_def)
  moreover have "[0..<length pool_struct] = [0, 1]" by (simp add: pool_struct_def upt_rec)
  ultimately show ?thesis by (simp add: pool_struct_def)
qed

text \<open>
  Two of the kinds of arrays that come out damaged: a byte array is decoded with the padding behind it, so
  that the slice has a multiple of 8 elements; an array of booleans is decoded as its first element, repeated.
\<close>

theorem Unmarshal_damages_arrays:
  assumes "wire_fits nm k bs" and "wire_fits nm n cs" and "post \<noteq> []"
    and "length cs = 4 * n" and "list_all (\<lambda>c. (bytes_word c :: 32 word) \<le> 1) (chunks 4 n cs)"
  shows "Unmarshal (encode_stream [Leaf nm TypeByteArray k bs] @ post) (MapVal GoAny (Some Map.empty)) =
      Inr (MapVal GoAny (Some [nm \<mapsto> AnyVal (Some (SliceVal GoUint8
        (map Uint8Val (bs @ replicate ((8 - length bs mod 8) mod 8) 0))))])) \<and>
    Unmarshal (encode_stream [Leaf nm TypeBooleanArray n cs] @ post) (MapVal GoAny (Some Map.empty)) =
      Inr (MapVal GoAny (Some [nm \<mapsto> AnyVal (Some (SliceVal GoBool
        (replicate n (BoolVal ((bytes_word (take 4 cs) :: 32 word) = 1)))))]))"
proof -
  have one: "Unmarshal (encode_stream [Leaf nm t i ds] @ post) (MapVal GoAny (Some Map.empty)) =
      Inr (MapVal GoAny (Some [nm \<mapsto> AnyVal (Some x)]))"
    if "leaf_value t i ds = Some x" "wf_pair (Leaf nm t i ds)" for t i ds x
    using Unmarshal_passes [OF unmarshal_map assms(3), of "[Leaf nm t i ds]" Map.empty] that
    by (simp add: any_map_def entry_of_def)
  show ?thesis
  proof
    show "Unmarshal (encode_stream [Leaf nm TypeByteArray k bs] @ post) (MapVal GoAny (Some Map.empty)) =
      Inr (MapVal GoAny (Some [nm \<mapsto> AnyVal (Some (SliceVal GoUint8
        (map Uint8Val (bs @ replicate ((8 - length bs mod 8) mod 8) 0))))]))"
      by (rule one) (use assms(1) in \<open>simp_all add: leaf_value_def padding_def NVType_defs\<close>)
    show "Unmarshal (encode_stream [Leaf nm TypeBooleanArray n cs] @ post) (MapVal GoAny (Some Map.empty)) =
      Inr (MapVal GoAny (Some [nm \<mapsto> AnyVal (Some (SliceVal GoBool
        (replicate n (BoolVal ((bytes_word (take 4 cs) :: 32 word) = 1)))))]))"
      by (rule one) (use assms(2,4,5) in \<open>simp_all add: leaf_value_def NVType_defs\<close>)
  qed
qed

theorem Unmarshal_damages_arrays_witness:
  "Unmarshal (encode_stream [Leaf ''k'' TypeByteArray 3 [1, 2, 3]] @ [0]) (MapVal GoAny (Some Map.empty)) =
     Inr (MapVal GoAny (Some [''k'' \<mapsto> AnyVal (Some (SliceVal GoUint8 (map Uint8Val [1, 2, 3, 0, 0, 0, 0, 0])))])) \<and>
   Unmarshal (encode_stream [Leaf ''k'' TypeBooleanArray 2 [1, 0, 0, 0, 0, 0, 0, 0]] @ [0]) (MapVal GoAny (Some Map.empty)) =
     Inr (MapVal GoAny (Some [''k'' \<mapsto> AnyVal (Some (SliceVal GoBool [BoolVal True, BoolVal True]))]))"
proof -
  have pad: "replicate 5 (0 :: byte) = [0, 0, 0, 0, 0]" by code_simp
  have words: "(bytes_word [1, 0, 0, 0] :: 32 word) = 1" "(bytes_word [0, 0, 0, 0] :: 32 word) = 0"
    by (simp_all add: bytes_word_def)
  have "wire_fits ''k'' 3 [1, 2, 3]" "wire_fits ''k'' 2 [1, 0, 0, 0, 0, 0, 0, 0]"
    by (simp_all add: wire_fits_def wire_size_def name_end_def padding_def)
  from Unmarshal_damages_arrays [OF this, of "[0]"] show ?thesis
    by (simp add: pad words numeral_2_eq_2)
qed

text \<open>
  C39. \<open>Unmarshal\<close> ends on every input and for every destination: destinations that are
  neither structs nor maps, after one pointer or interface, are refused with invalid data,
  and on the others it is the loop of the source, with its recursive calls and no bound.
\<close>

theorem unmarshal_terminates:
  "fst (unmarshal addr v r) \<noteq> Inl OutOfFuel \<and>
   unmarshal addr v =
     (case focus addr v of
        None \<Rightarrow> fail ErrInvalidData
      | Some (addr', c, wrap) \<Rightarrow> bindE (unmarshal_loop addr' c) (\<lambda>c'. ret (wrap c'))) \<and>
   unmarshal_loop addr c r =
     (case Next r of
        (Inl e, r') \<Rightarrow> if e = Err EOF then (Inr c, r') else (Inl e, r')
      | (Inr token, r') \<Rightarrow> bindE (unmarshal_step unmarshal addr token c) (unmarshal_loop addr) r')"
  using unmarshal_total unmarshal_eq unmarshal_loop_unfold by blast

end
