(* ===== verification/Parsers_Agree.thy ===== *)
theory Parsers_Agree
  imports Exporter_Properties Unmarshal_Properties
begin

text \<open>
  Two ways to read the properties of a dataset: \<open>parseProps\<close> of main.go, which walks the tokens
  of the list and stores what it knows as it goes, and \<open>Unmarshal\<close> of package nvlist, which
  builds maps of the whole list, from which the same fields can be looked up. On lists in which
  no property stands twice both give the same record.
\<close>

section \<open>Looking up a property\<close>

text \<open>\<open>m[name].(map[string]any)["value"].(uint64)\<close>\<close>

definition map_value :: "(string \<Rightarrow> goval option) \<Rightarrow> 64 word option" where
  "map_value entries =
     (case entries ''value'' of Some (AnyVal (Some (Uint64Val w))) \<Rightarrow> Some w | _ \<Rightarrow> None)"

definition read_value :: "(string \<Rightarrow> goval option) \<Rightarrow> string \<Rightarrow> 64 word option" where
  "read_value m name =
     (case m name of Some (AnyVal (Some (MapVal T (Some entries)))) \<Rightarrow> map_value entries | _ \<Rightarrow> None)"

definition or_old :: "64 word \<Rightarrow> 64 word option \<Rightarrow> 64 word" where
  "or_old old x = (case x of None \<Rightarrow> old | Some w \<Rightarrow> w)"

definition props_of_map :: "(string \<Rightarrow> goval option) \<Rightarrow> datasetProps \<Rightarrow> datasetProps" where
  "props_of_map m d = d
     \<lparr>objsetid := or_old (objsetid d) (read_value m ''objsetid''),
       available := or_old (available d) (read_value m ''available''),
       compressratio := or_old (compressratio d) (read_value m ''compressratio''),
       used := or_old (used d) (read_value m ''used''),
       usedbychildren := or_old (usedbychildren d) (read_value m ''usedbychildren''),
       usedbydataset := or_old (usedbydataset d) (read_value m ''usedbydataset''),
       usedbyrefreservation := or_old (usedbyrefreservation d) (read_value m ''usedbyrefreservation''),
       usedbysnapshots := or_old (usedbysnapshots d) (read_value m ''usedbysnapshots''),
       referenced := or_old (referenced d) (read_value m ''referenced''),
       refcompressratio := or_old (refcompressratio d) (read_value m ''refcompressratio''),
       logicalreferenced := or_old (logicalreferenced d) (read_value m ''logicalreferenced''),
       logicalused := or_old (logicalused d) (read_value m ''logicalused'')\<rparr>"

section \<open>Setters\<close>

text \<open>The same record, made with the setters of the parser.\<close>

definition put_prop :: "string \<Rightarrow> 64 word option \<Rightarrow> datasetProps \<Rightarrow> datasetProps" where
  "put_prop name x d =
     (case prop_setter name of
        None \<Rightarrow> d
      | Some assign_field \<Rightarrow> (case x of None \<Rightarrow> d | Some w \<Rightarrow> assign_field w d))"

lemma put_prop_fields:
  "put_prop ''objsetid'' v d = d\<lparr>objsetid := or_old (objsetid d) v\<rparr>"
  "put_prop ''available'' v d = d\<lparr>available := or_old (available d) v\<rparr>"
  "put_prop ''compressratio'' v d = d\<lparr>compressratio := or_old (compressratio d) v\<rparr>"
  "put_prop ''used'' v d = d\<lparr>used := or_old (used d) v\<rparr>"
  "put_prop ''usedbychildren'' v d = d\<lparr>usedbychildren := or_old (usedbychildren d) v\<rparr>"
  "put_prop ''usedbydataset'' v d = d\<lparr>usedbydataset := or_old (usedbydataset d) v\<rparr>"
  "put_prop ''usedbyrefreservation'' v d = d\<lparr>usedbyrefreservation := or_old (usedbyrefreservation d) v\<rparr>"
  "put_prop ''usedbysnapshots'' v d = d\<lparr>usedbysnapshots := or_old (usedbysnapshots d) v\<rparr>"
  "put_prop ''referenced'' v d = d\<lparr>referenced := or_old (referenced d) v\<rparr>"
  "put_prop ''refcompressratio'' v d = d\<lparr>refcompressratio := or_old (refcompressratio d) v\<rparr>"
  "put_prop ''logicalreferenced'' v d = d\<lparr>logicalreferenced := or_old (logicalreferenced d) v\<rparr>"
  "put_prop ''logicalused'' v d = d\<lparr>logicalused := or_old (logicalused d) v\<rparr>"
  by (simp_all add: put_prop_def prop_setter_def or_old_def split: option.split)

lemma props_of_map_fold: "props_of_map m = fold (\<lambda>name. put_prop name (read_value m name)) prop_names"
  by (simp add: fun_eq_iff props_of_map_def prop_names_def put_prop_fields)

lemma put_prop_None [simp]: "put_prop name None d = d"
  by (simp add: put_prop_def split: option.split)

lemma put_prop_commute:
  "name \<noteq> name' \<Longrightarrow> put_prop name x (put_prop name' y d) = put_prop name' y (put_prop name x d)"
  by (auto simp: put_prop_def prop_setter_commute split: option.split)

lemma fold_put_commute:
  "name \<notin> set ns \<Longrightarrow>
   put_prop name x (fold (\<lambda>n. put_prop n (g n)) ns d) = fold (\<lambda>n. put_prop n (g n)) ns (put_prop name x d)"
  by (induction ns arbitrary: d) (auto simp: put_prop_commute)

lemma fold_put_fresh:
  assumes "distinct ns" and "name \<in> set ns" and "g name = None"
  shows "put_prop name x (fold (\<lambda>n. put_prop n (g n)) ns d) = fold (\<lambda>n. put_prop n ((g(name := x)) n)) ns d"
  using assms
proof (induction ns arbitrary: d)
  case (Cons n ns)
  show ?case
  proof (cases "n = name")
    case True
    then have "fold (\<lambda>n. put_prop n (g n)) ns d' = fold (\<lambda>n. put_prop n ((g(name := x)) n)) ns d'" for d'
      using Cons.prems(1) by (intro List.fold_cong refl) auto
    with True Cons.prems show ?thesis by (simp add: fold_put_commute)
  qed (use Cons in simp)
qed simp

section \<open>Both parsers\<close>

lemma map_of_pairs_snoc: "map_of_pairs (ps @ [p]) = entry_of p (map_of_pairs ps)"
  by (simp add: map_of_pairs_def)

lemma value_of_pairs:
  assumes "list_all (value_ok name) ps" and "prop_setter name = Some f"
  shows "fold (apply_value name) ps d = put_prop name (map_value (map_of_pairs ps)) d"
  using assms(1)
proof (induction ps rule: rev_induct)
  case Nil
  then show ?case by (simp add: map_of_pairs_def map_value_def)
next
  case (snoc p ps)
  let ?m = "map_of_pairs ps"
  note m = map_of_pairs_snoc [of ps p]
  show ?case
  proof (cases "pair_name p = ''value''")
    case True
    then obtain w where w: "leaf_uint64 p = Some w" using snoc.prems assms(2) by (auto simp: value_ok_def)
    then have "any_of p = Uint64Val w"
      by (cases p) (auto simp: leaf_value_def word_value_def NVType_defs split: if_splits)
    with True have "map_value (entry_of p ?m) = Some w" by (simp add: map_value_def entry_of_def)
    with True snoc w show ?thesis
      by (simp add: m apply_value_def put_prop_def assms(2) prop_setter_overwrites [OF assms(2)] split: option.split)
  next
    case False
    then have "map_value (entry_of p ?m) = map_value ?m" by (simp add: map_value_def entry_of_def)
    with False snoc show ?thesis by (simp add: m apply_value_def assms(2))
  qed
qed

lemma fold_props_map:
  assumes "list_all prop_ok ps" and "distinct (map pair_name ps)"
  shows "fold apply_prop ps d = props_of_map (map_of_pairs ps) d"
  using assms
proof (induction ps rule: rev_induct)
  case Nil
  then show ?case by (simp add: props_of_map_def map_of_pairs_def read_value_def or_old_def)
next
  case (snoc p ps)
  then obtain nm qs where p: "p = Embedded nm qs" and ok: "list_all (value_ok nm) qs" by (cases p) auto
  have "map_of_pairs ps nm = None" if "nm \<notin> set (map pair_name ps)"
    using that by (induction ps rule: rev_induct) (auto simp: map_of_pairs_def entry_of_def)
  then have fresh: "read_value (map_of_pairs ps) nm = None"
    using snoc.prems(2) by (auto simp: p read_value_def)
  let ?x = "map_value (map_of_pairs qs)"
  have m: "read_value (map_of_pairs (ps @ [p])) = (read_value (map_of_pairs ps))(nm := ?x)"
  proof -
    have "map_of_pairs (ps @ [p]) = (map_of_pairs ps)(nm \<mapsto> AnyVal (Some (any_map (map_of_pairs qs))))"
      by (simp add: map_of_pairs_snoc p entry_of_def any_of_lists del: any_of.simps)
    then show ?thesis by (auto simp: fun_eq_iff read_value_def any_map_def)
  qed
  have "fold apply_prop (ps @ [p]) d = fold (apply_value nm) qs (props_of_map (map_of_pairs ps) d)"
    using snoc by (simp add: p)
  also have "\<dots> = props_of_map (map_of_pairs (ps @ [p])) d"
  proof (cases "nm \<in> set prop_names")
    case True
    then obtain f where f: "prop_setter nm = Some f" using prop_setter_names by blast
    have "distinct prop_names" by (simp add: prop_names_def)
    from fold_put_fresh [where g = "read_value (map_of_pairs ps)", OF this True fresh]
    show ?thesis by (simp only: value_of_pairs [OF ok f] props_of_map_fold m)
  next
    case False
    then have no: "prop_setter nm = None" using prop_setter_names by blast
    then have "fold (apply_value nm) qs d' = d'" for d'
      by (induction qs) (simp_all add: apply_value_def)
    moreover have "props_of_map (map_of_pairs (ps @ [p])) d = props_of_map (map_of_pairs ps) d"
      unfolding props_of_map_fold m using False by (intro List.fold_cong refl) auto
    ultimately show ?thesis by simp
  qed
  finally show ?case .
qed

text \<open>
  C15. Equivalence of the two readers of a property list: when no property stands twice, \<open>parseProps\<close> on the
  stream of tokens gives the record that one gets by \<open>Unmarshal\<close> into a \<open>map[string]any\<close> and looking up
  each property's \<open>value\<close> in the maps.
\<close>

theorem parseProps_like_Unmarshal:
  assumes "list_all wf_pair ps" and "list_all prop_ok ps" and "list_all any_ok ps"
    and "distinct (map pair_name ps)" and "post \<noteq> []"
  shows "\<exists>m. Unmarshal (encode_stream ps @ post) (MapVal GoAny (Some Map.empty)) = Inr (MapVal GoAny (Some m)) \<and>
    fst (parseProps d (new_reader (encode_stream ps @ post))) = Inr (props_of_map m d)"
  using Unmarshal_passes [OF unmarshal_map [OF assms(1,3)] assms(5), of Map.empty]
    prop_lists.reads_stream [OF assms(1,2,5), of d] fold_props_map [OF assms(2,4), of d]
  by (simp add: any_map_def map_of_pairs_def)

theorem parseProps_like_Unmarshal_witness:
  "\<exists>m. Unmarshal (encode_stream sample_props @ [0]) (MapVal GoAny (Some Map.empty)) = Inr (MapVal GoAny (Some m)) \<and>
    fst (parseProps zero_props (new_reader (encode_stream sample_props @ [0]))) = Inr (props_of_map m zero_props)"
proof (rule parseProps_like_Unmarshal [OF sample_props_ok])
  show "list_all any_ok sample_props"
    by (simp add: sample_props_def string_leaf_def uint64_leaf_def leaf_value_def word_value_def NVType_defs)
  show "distinct (map pair_name sample_props)" by (simp add: sample_props_def)
qed simp

end
