(* ===== verification/Readings.thy ===== *)
theory Readings
  imports Collection_Properties
begin

text \<open>
  What the metrics of a scrape say, without the exporter's tables: a reading is a metric by its name,
  its type, its value as a fraction of integers, and its labels as pairs of name and value. The readings of a
  vdev tree, a dataset and a pool are listed from their contents, and the handlers send, after
  \<open>Describe\<close>, exactly the metrics that the library makes of them, in this order, with values that are
  correctly rounded.
\<close>

section \<open>Readings\<close>

type_synonym reading = "string \<times> ValueType \<times> nat \<times> nat \<times> (string \<times> string) list"

text \<open>
  A float for \<open>n / d\<close>: no further off than \<open>2 ^ -51\<close> of the value, and correctly rounded for integers
  and for numerators that have an exact float.
\<close>

definition approximates :: "float64 \<Rightarrow> nat \<Rightarrow> nat \<Rightarrow> bool" where
  "approximates v n d \<longleftrightarrow> \<bar>float_val v - real n / real d\<bar> \<le> real n / real d / 2 ^ 51 \<and>
     (d = 1 \<or> n < 2 ^ 53 \<longrightarrow> nearest_even v (real n / real d))"

text \<open>A metric for a reading: its descriptor has the name and the label names, and it the label values.\<close>

definition measured :: "('d, 'm) prometheus \<Rightarrow> reading \<Rightarrow> 'm \<Rightarrow> bool" where
  "measured P = (\<lambda>(name, vt, n, d, labels) m. \<exists>v. approximates v n d \<and>
     NewConstMetric P (NewDesc P name [] (map fst labels)) vt v (map snd labels) = Inr m)"

definition one_if :: "bool \<Rightarrow> nat" where
  "one_if b = (if b then 1 else 0)"

section \<open>Vdevs\<close>

text \<open>The local name of a vdev, and the vdevs of a tree in preorder with their paths from the root.\<close>

definition node_name :: "string \<Rightarrow> vdev \<Rightarrow> string" where
  "node_name pool v =
     (if vpath v \<noteq> '''' then path_Base (vpath v)
      else if vdevType v = ''root'' then pool
      else vdevType v @ ''-'' @ show_nat (unat (vid v)))"

fun vdevs_below :: "string \<Rightarrow> string list \<Rightarrow> vdev \<Rightarrow> (string list \<times> vdev) list" where
  "vdevs_below pool anc (Vdev ty i p cs st) =
     (let here = anc @ [node_name pool (Vdev ty i p cs st)]
      in (here, Vdev ty i p cs st) # concat (map (vdevs_below pool here) cs))"

fun slashed :: "string list \<Rightarrow> string" where
  "slashed [] = ''''"
| "slashed [x] = x"
| "slashed (x # xs) = x @ ''/'' @ slashed xs"

definition vdev_columns :: "(string \<times> ValueType \<times> (vdevStats \<Rightarrow> 64 word)) list" where
  "vdev_columns =
     [(''zfs_pool_vdev_alloc_space'', GaugeValue, alloc),
      (''zfs_pool_vdev_total_space'', GaugeValue, vsize),
      (''zfs_pool_vdev_read_ops'', CounterValue, readOperations),
      (''zfs_pool_vdev_read_bytes'', CounterValue, bytesRead),
      (''zfs_pool_vdev_read_errors'', CounterValue, readErrors),
      (''zfs_pool_vdev_write_ops'', CounterValue, writeOperations),
      (''zfs_pool_vdev_write_bytes'', CounterValue, bytesWritten),
      (''zfs_pool_vdev_write_errors'', CounterValue, writeErrors),
      (''zfs_pool_vdev_checksum_errors'', CounterValue, checksumErrors)]"

definition node_labels :: "string \<Rightarrow> string list \<times> vdev \<Rightarrow> (string \<times> string) list" where
  "node_labels pool = (\<lambda>(path, v). [(''pool'', pool), (''vdev'', slashed path), (''vdev_type'', vdevType v)])"

definition node_readings :: "string \<Rightarrow> string list \<times> vdev \<Rightarrow> reading list" where
  "node_readings pool node =
     map (\<lambda>state. (''zfs_pool_vdev_state'', GaugeValue, one_if (state = vstate (stats (snd node))), 1,
         node_labels pool node @ [(''state'', state)]))
       [''OFFLINE'', ''REMOVED'', ''FAULTED'', ''SPLIT'', ''UNAVAIL'', ''DEGRADED'', ''ONLINE'', ''UNKNOWN''] @
     map (\<lambda>(name, vt, field). (name, vt, unat (field (stats (snd node))), 1, node_labels pool node)) vdev_columns"

definition vdev_readings :: "string \<Rightarrow> vdev \<Rightarrow> reading list" where
  "vdev_readings pool v = concat (map (node_readings pool) (vdevs_below pool [] v))"

section \<open>Datasets and pools\<close>

text \<open>The ratios come from the kernel in percent.\<close>

definition dataset_columns :: "(string \<times> ValueType \<times> (datasetProps \<Rightarrow> 64 word) \<times> nat) list" where
  "dataset_columns =
     [(''zfs_dataset_available'', GaugeValue, available, 1),
      (''zfs_dataset_compress_ratio'', GaugeValue, compressratio, 100),
      (''zfs_dataset_used'', GaugeValue, used, 1),
      (''zfs_dataset_used_by_children'', GaugeValue, usedbychildren, 1),
      (''zfs_dataset_used_by_dataset'', GaugeValue, usedbydataset, 1),
      (''zfs_dataset_used_by_ref_reservation'', GaugeValue, usedbyrefreservation, 1),
      (''zfs_dataset_used_by_snapshots'', GaugeValue, usedbysnapshots, 1),
      (''zfs_dataset_referenced'', GaugeValue, referenced, 1),
      (''zfs_dataset_ref_compress_ratio'', GaugeValue, refcompressratio, 100),
      (''zfs_dataset_logical_referenced'', GaugeValue, logicalreferenced, 1),
      (''zfs_dataset_logical_used'', GaugeValue, logicalused, 1),
      (''zfs_dataset_writes'', CounterValue, writes, 1),
      (''zfs_dataset_nwritten'', CounterValue, nwritten, 1),
      (''zfs_dataset_reads'', CounterValue, reads, 1),
      (''zfs_dataset_nread'', CounterValue, nread, 1),
      (''zfs_dataset_nunlinks'', CounterValue, nunlinks, 1),
      (''zfs_dataset_nunlinked'', CounterValue, nunlinked, 1)]"

definition dataset_readings :: "string \<Rightarrow> string \<Rightarrow> datasetProps \<Rightarrow> reading list" where
  "dataset_readings pool name props =
     map (\<lambda>(metric, vt, field, d). (metric, vt, unat (field props), d, [(''name'', name), (''pool'', pool)])) dataset_columns"

fun tree_readings :: "string \<Rightarrow> dataset \<Rightarrow> reading list" where
  "tree_readings pool (Dataset nm ps k ds) =
     dataset_readings pool nm (ds_final ps k) @ concat (map (tree_readings pool) ds)"

definition state_readings :: "string \<Rightarrow> pool_stats \<Rightarrow> reading list" where
  "state_readings pool st =
     map (\<lambda>state. (''zfs_pool_state'', GaugeValue, one_if (state = pool_state st), 1, [(''pool'', pool), (''state'', state)]))
       [''ACTIVE'', ''EXPORTED'', ''DESTROYED'', ''SPARE'', ''L2CACHE'', ''UNINITIALIZED'', ''UNAVAIL'',
        ''POTENTIALLY_ACTIVE'', ''UNKNOWN''] @
     [(''zfs_pool_error_count'', CounterValue, unat (pool_errors st), 1, [(''pool'', pool)])]"

definition pool_readings :: "pool \<Rightarrow> reading list" where
  "pool_readings p =
     (let st = pool_stats_of (pl_stats p)
      in state_readings (pl_name p) st @
         (case pool_vdev st of None \<Rightarrow> [] | Some v \<Rightarrow> vdev_readings (pl_name p) v) @
         concat (map (tree_readings (pl_name p)) (pl_datasets p)))"

section \<open>Values\<close>

lemma powers: "(2 :: real) ^ 53 = 9007199254740992" "(2 :: real) ^ 51 = 2251799813685248"
  by simp_all

lemma approximates_integer: "approximates (float64_of w) (unat w) 1"
proof -
  have "\<bar>float_val (float64_of w) - real (unat w)\<bar> \<le> real (unat w) / 2 ^ 53" by (rule float64_of_error)
  also have "\<dots> \<le> real (unat w) / 2 ^ 51" unfolding powers using of_nat_0_le_iff [of "unat w", where ?'a = real] by linarith
  finally show ?thesis using nearest_float64_of by (simp add: approximates_def)
qed

lemma approximates_percent: "approximates (div_100 (float64_of w)) (unat w) 100"
proof -
  let ?x = "float64_of w" and ?n = "real (unat w)"
  have x: "\<bar>float_val ?x - ?n\<bar> \<le> ?n / 2 ^ 53" by (rule float64_of_error)
  have v: "\<bar>float_val (div_100 ?x) - float_val ?x / 100\<bar> \<le> float_val ?x / 100 / 2 ^ 53" by (rule div_100_error)
  have "0 \<le> ?n" by (rule of_nat_0_le_iff)
  with x v have "\<bar>float_val (div_100 ?x) - ?n / 100\<bar> \<le> ?n / 100 / 2 ^ 51"
    unfolding powers abs_le_iff by linarith
  moreover have "nearest_even (div_100 ?x) (?n / 100)" if "unat w < 2 ^ 53"
    using nearest_div_100 [of ?x] float64_of_exact [OF that] by simp
  ultimately show ?thesis by (simp add: approximates_def)
qed

lemma approximates_gauge: "approximates (gauge a b) (one_if (a = b)) 1"
proof -
  have "representable (1 * 2 powi 0)" "representable (0 * 2 powi 0)"
    unfolding representable_def by (intro exI [of _ "1 :: nat"] exI [of _ "0 :: int"], simp)
      (intro exI [of _ "0 :: nat"] exI [of _ "0 :: int"], simp)
  then show ?thesis
    by (auto simp: approximates_def gauge_def one_if_def float_0_1 nearest_even_def)
qed

section \<open>Exports and readings\<close>

definition shows_reading :: "('d, 'm) prometheus \<Rightarrow> reading \<Rightarrow> 'd item \<Rightarrow> bool" where
  "shows_reading P = (\<lambda>(name, vt, n, d, labels) item. \<exists>w v. approximates v n d \<and>
     item = (w, NewDesc P name [] (map fst labels), vt, v, map snd labels))"

lemma shows_reading_iff: "shows_reading P (name, vt, n, d, labels) (w, desc, vt', v, vs) \<longleftrightarrow>
    approximates v n d \<and> desc = NewDesc P name [] (map fst labels) \<and> vt' = vt \<and> vs = map snd labels"
  by (auto simp: shows_reading_def)

lemmas approximates_values = approximates_integer approximates_integer [unfolded One_nat_def]
  approximates_percent approximates_gauge approximates_gauge [unfolded One_nat_def]

lemma measured_items:
  assumes "list_all2 (shows_reading P) rs items" and "list_all2 (accepts P) items ms"
  shows "list_all2 (measured P) rs ms"
  using assms by (rule list_all2_trans [rotated]) (auto simp: shows_reading_def accepts_def measured_def)

lemma concat_nested: "concat (map f (concat (map g xs))) = concat (map (\<lambda>x. concat (map f (g x))) xs)"
  by (induction xs) simp_all

lemma list_all2_concat_map:
  "list_all2 (\<lambda>x y. list_all2 R (f x) (g y)) xs ys \<Longrightarrow> list_all2 R (concat (map f xs)) (concat (map g ys))"
  by (induction rule: list_all2_induct) (simp_all add: list_all2_appendI)

lemma slashed_snoc: "xs \<noteq> [] \<Longrightarrow> slashed (xs @ [y]) = slashed xs @ ''/'' @ y"
  by (induction xs rule: slashed.induct) auto

lemma vdev_name_slashed:
  assumes "prefix = (if anc = [] then '''' else slashed anc @ ''/'')"
  shows "vdev_name pool prefix v = slashed (anc @ [node_name pool v])"
proof -
  have "vdev_name pool prefix v = prefix @ node_name pool v" by (simp add: vdev_name_def node_name_def)
  then show ?thesis using slashed_snoc [of anc "node_name pool v"] by (simp add: assms)
qed

lemma node_items_shown:
  "list_all2 (shows_reading P) (node_readings pool (path, v))
    (state_items (described P) [pool, slashed path, vdevType v] (stats v) @
     value_items [pool, slashed path, vdevType v] (vdev_values (described P) (stats v)))"
  unfolding node_readings_def
  by (intro list_all2_appendI)
    (simp_all add: state_items_def VDevStates_def value_items_def vdev_values_def vdev_columns_def described_def
      shows_reading_iff node_labels_def vdev_labels_def approximates_values)

lemma vdev_items_shown:
  assumes "prefix = (if anc = [] then '''' else slashed anc @ ''/'')"
  shows "list_all2 (shows_reading P) (concat (map (node_readings pool) (vdevs_below pool anc v)))
    (vdev_items (described P) pool prefix v)"
  using assms
proof (induction v arbitrary: anc prefix)
  case (Vdev ty i p cs st)
  let ?v = "Vdev ty i p cs st"
  let ?here = "anc @ [node_name pool ?v]"
  have name: "vdev_name pool prefix ?v = slashed ?here" by (rule vdev_name_slashed [OF Vdev.prems])
  have "list_all2 (shows_reading P) (concat (map (node_readings pool) (vdevs_below pool ?here c)))
      (vdev_items (described P) pool (slashed ?here @ ''/'') c)" if "c \<in> set cs" for c
    by (rule Vdev.IH [OF that]) simp
  then have "list_all2 (shows_reading P)
      (concat (map (\<lambda>c. concat (map (node_readings pool) (vdevs_below pool ?here c))) cs))
      (concat (map (vdev_items (described P) pool (slashed ?here @ ''/'')) cs))"
    by (intro list_all2_concat_map) (simp add: list_all2_same)
  then show ?case
    using node_items_shown [of P pool ?here ?v] name
    by (simp add: Let_def concat_nested list_all2_appendI del: append_assoc flip: append_assoc)
qed

lemma dataset_items_shown:
  "list_all2 (shows_reading P) (dataset_readings pool nm props) (dataset_items (described P) pool nm props)"
  by (simp add: dataset_readings_def dataset_columns_def dataset_items_def value_items_def dataset_values_def
      described_def shows_reading_iff dataset_labels_def approximates_values)

lemma tree_items_shown: "list_all2 (shows_reading P) (tree_readings pool t) (tree_items (described P) pool t)"
proof (induction t)
  case (Dataset nm ps k ds)
  then have "list_all2 (shows_reading P) (concat (map (tree_readings pool) ds)) (concat (map (tree_items (described P) pool) ds))"
    by (intro list_all2_concat_map) (simp add: list_all2_same)
  then show ?case by (simp add: list_all2_appendI dataset_items_shown)
qed

lemma state_items_shown: "list_all2 (shows_reading P) (state_readings pool st) (pool_items (described P) pool st)"
  by (simp add: state_readings_def pool_items_def PoolStates_def described_def shows_reading_iff approximates_values)

lemma pool_exports_shown: "list_all2 (shows_reading P) (pool_readings p) (pool_exports (described P) p)"
proof -
  have "list_all2 (shows_reading P) (concat (map (tree_readings pool) ds)) (forest_items (described P) pool ds)" for pool ds
    unfolding forest_items_def by (intro list_all2_concat_map) (simp add: list_all2_same tree_items_shown)
  moreover have "list_all2 (shows_reading P) (vdev_readings pool v) (vdev_items (described P) pool [] v)" for pool v
    unfolding vdev_readings_def by (rule vdev_items_shown) simp
  ultimately show ?thesis
    by (simp add: pool_readings_def pool_exports_def Let_def list_all2_appendI state_items_shown split: option.split)
qed

text \<open>A library that accepts what has the right number of labels makes a metric of every reading.\<close>

lemma readings_measured:
  assumes "list_all2 (shows_reading P) rs items" and "checks_arity P"
  obtains ms where "list_all2 (measured P) rs ms" and "list_all2 (accepts P) items ms"
proof -
  have "list_all (item_fits P) items"
    using assms(1)
  proof (induction rule: list_all2_induct)
    case (Cons r rs item items)
    then have "item_fits P item"
      by (cases r) (auto simp: shows_reading_def intro!: item_fits_I [OF refl])
    with Cons show ?case by simp
  qed simp
  with fitting_all [OF assms(2)] obtain ms where ms: "list_all2 (accepts P) items ms" by blast
  with measured_items [OF assms(1)] that show ?thesis by blast
qed

section \<open>What is sent\<close>

text \<open>
  A library that keeps everything it is given: a metric is its name, type, value and labels.
\<close>

definition keeping_library :: "(string \<times> string list, string \<times> ValueType \<times> float64 \<times> (string \<times> string) list) prometheus" where
  "keeping_library = \<lparr>
     NewDesc = (\<lambda>name help labels. (name, labels)),
     NewConstMetric = (\<lambda>(name, labels) vt v vs.
       if length vs = length labels then Inr (name, vt, v, zip labels vs) else Inl (Errorf ''inconsistent label cardinality''))\<rparr>"

lemma keeping_library_arity: "checks_arity keeping_library"
  by (simp add: checks_arity_def keeping_library_def)

lemma measured_kept: "measured keeping_library (name, vt, n, d, labels) m \<Longrightarrow>
    \<exists>v. m = (name, vt, v, labels) \<and> approximates v n d"
  by (auto simp: measured_def keeping_library_def zip_map_fst_snd)

text \<open>
  C11. The metrics of a vdev tree. After \<open>Describe\<close>, and with a library that accepts metrics with
  the right number of labels, \<open>handleVdev\<close> on the root of a pool sends, for each vdev of the tree in preorder,
  a state gauge for each of the eight states, which is 1 for the vdev's state and 0 for the others, and
  the nine statistics under the names that belong to them, correctly rounded; each is labelled with the pool,
  the path of the vdev from the root and its type. Nothing else is sent.
\<close>

theorem handleVdev_refines:
  assumes "checks_arity P"
  shows "\<exists>ms. list_all2 (measured P) (vdev_readings pool v) ms \<and>
    handleVdev P (fst (Describe P c dch)) pool [] v ch = (Inr (), send_all ms ch)"
proof -
  have "list_all2 (shows_reading P) (vdev_readings pool v) (vdev_items (described P) pool [] v)"
    unfolding vdev_readings_def by (rule vdev_items_shown) simp
  then show ?thesis using assms
    by (rule readings_measured) (auto simp: Describe_eq handleVdev_items emit_all)
qed

definition faulty_disk :: vdev where
  "faulty_disk = Vdev ''disk'' 3 [] [] (zero_vdevStats\<lparr>readErrors := 5, writeErrors := 7, vstate := ''ONLINE''\<rparr>)"

definition empty_channel :: "'a chan" where
  "empty_channel = \<lparr>chan_open = True, sent = []\<rparr>"

theorem handleVdev_refines_witness:
  "\<exists>ms v w. handleVdev keeping_library (fst (Describe keeping_library (described keeping_library) empty_channel))
       ''tank'' [] faulty_disk empty_channel = (Inr (), \<lparr>chan_open = True, sent = ms\<rparr>) \<and>
     length ms = 17 \<and>
     ms ! 12 = (''zfs_pool_vdev_read_errors'', CounterValue, v, [(''pool'', ''tank''), (''vdev'', ''disk-3''), (''vdev_type'', ''disk'')]) \<and>
     approximates v 5 1 \<and>
     ms ! 15 = (''zfs_pool_vdev_write_errors'', CounterValue, w, [(''pool'', ''tank''), (''vdev'', ''disk-3''), (''vdev_type'', ''disk'')]) \<and>
     approximates w 7 1"
proof -
  let ?P = keeping_library and ?rs = "vdev_readings ''tank'' faulty_disk"
  let ?labels = "[(''pool'', ''tank''), (''vdev'', ''disk-3''), (''vdev_type'', ''disk'')]"
  have three: "show_nat 3 = ''3''" by code_simp
  obtain ms where ms: "list_all2 (measured ?P) ?rs ms"
      and run: "handleVdev ?P (fst (Describe ?P (described ?P) empty_channel)) ''tank'' [] faulty_disk empty_channel =
        (Inr (), send_all ms empty_channel)"
    using handleVdev_refines [OF keeping_library_arity, of "''tank''" faulty_disk "described ?P" empty_channel empty_channel]
    by blast
  have rs: "length ?rs = 17" "?rs ! 12 = (''zfs_pool_vdev_read_errors'', CounterValue, 5, 1, ?labels)"
    "?rs ! 15 = (''zfs_pool_vdev_write_errors'', CounterValue, 7, 1, ?labels)"
    by (simp_all add: vdev_readings_def node_readings_def vdev_columns_def faulty_disk_def node_labels_def node_name_def
        Let_def three)
  have len: "length ms = 17" using list_all2_lengthD [OF ms] rs(1) by simp
  have "measured ?P (?rs ! 12) (ms ! 12)" "measured ?P (?rs ! 15) (ms ! 15)"
    using ms rs(1) by (auto intro: list_all2_nthD)
  then obtain v w where "ms ! 12 = (''zfs_pool_vdev_read_errors'', CounterValue, v, ?labels)" "approximates v 5 1"
      "ms ! 15 = (''zfs_pool_vdev_write_errors'', CounterValue, w, ?labels)" "approximates w 7 1"
    unfolding rs using measured_kept by blast
  with run len show ?thesis by (simp add: send_all_def empty_channel_def)
qed

text \<open>
  C29. The metrics of a dataset. After \<open>Describe\<close>, and with a library that accepts metrics with the right
  number of labels, \<open>handleDataset\<close> sends exactly the seventeen values of the record under the names that belong
  to them, labelled with the dataset and the pool. Integers are rounded correctly; the two ratios, which
  the kernel gives in percent, are divided by 100 as fractions and not as integers, correctly rounded
  below \<open>2 ^ 53\<close> percent and within \<open>2 ^ -51\<close> of the value above.
\<close>

theorem handleDataset_readings:
  assumes "checks_arity P"
  shows "\<exists>ms. list_all2 (measured P) (dataset_readings pool name props) ms \<and>
    handleDataset P (fst (Describe P c dch)) pool name props ch = (Inr (), send_all ms ch)"
  using dataset_items_shown assms
  by (rule readings_measured) (auto simp: Describe_eq handleDataset_items emit_all)

theorem handleDataset_readings_witness:
  "\<exists>ms v. handleDataset keeping_library (fst (Describe keeping_library (described keeping_library) empty_channel))
       ''tank'' ''tank/a'' (zero_props\<lparr>compressratio := 137\<rparr>) empty_channel = (Inr (), \<lparr>chan_open = True, sent = ms\<rparr>) \<and>
     length ms = 17 \<and>
     ms ! 1 = (''zfs_dataset_compress_ratio'', GaugeValue, v, [(''name'', ''tank/a''), (''pool'', ''tank'')]) \<and>
     nearest_even v (137 / 100)"
proof -
  let ?P = keeping_library and ?rs = "dataset_readings ''tank'' ''tank/a'' (zero_props\<lparr>compressratio := 137\<rparr>)"
  let ?labels = "[(''name'', ''tank/a''), (''pool'', ''tank'')]"
  obtain ms where ms: "list_all2 (measured ?P) ?rs ms"
      and run: "handleDataset ?P (fst (Describe ?P (described ?P) empty_channel)) ''tank'' ''tank/a''
        (zero_props\<lparr>compressratio := 137\<rparr>) empty_channel = (Inr (), send_all ms empty_channel)"
    using handleDataset_readings [OF keeping_library_arity, of "''tank''" "''tank/a''" "zero_props\<lparr>compressratio := 137\<rparr>"
        "described ?P" empty_channel empty_channel] by blast
  have rs: "length ?rs = 17" "?rs ! 1 = (''zfs_dataset_compress_ratio'', GaugeValue, 137, 100, ?labels)"
    by (simp_all add: dataset_readings_def dataset_columns_def)
  have len: "length ms = 17" using list_all2_lengthD [OF ms] rs(1) by simp
  have "measured ?P (?rs ! 1) (ms ! 1)" using ms rs(1) by (auto intro: list_all2_nthD)
  then obtain v where "ms ! 1 = (''zfs_dataset_compress_ratio'', GaugeValue, v, ?labels)" "approximates v 137 100"
    unfolding rs using measured_kept by blast
  with run len show ?thesis by (simp add: send_all_def empty_channel_def approximates_def)
qed

text \<open>
  C37. A whole scrape, from the answers of the kernel to the named values. When the kernel and the file system
  answer for a list of pools, and the library accepts metrics with the right number of labels, \<open>Collect\<close> sends
  exactly the metrics of the readings of all pools: the states and the error count of each pool, the
  states and statistics of its vdevs by their paths, and the properties and counters of its
  datasets, each under its own name, in the order of the answers.
\<close>

theorem Collect_readings:
  assumes "answers E first ps" and "0 < rounds" and "\<forall>p\<in>set ps. pool_bound p \<le> n" and "checks_arity P"
  shows "\<exists>w' ms. list_all2 (measured P) (concat (map pool_readings ps)) ms \<and>
    Collect n rounds E first P (fst (Describe P c dch)) s =
      (Inr (), s\<lparr>run_io := (run_io s)\<lparr>io_world := w'\<rparr>, run_ch := send_all ms (run_ch s)\<rparr>)"
proof -
  have "list_all2 (shows_reading P) (concat (map pool_readings ps)) (concat (map (pool_exports (described P)) ps))"
    by (intro list_all2_concat_map) (simp add: list_all2_same pool_exports_shown)
  then obtain ms where ms: "list_all2 (measured P) (concat (map pool_readings ps)) ms"
      and "list_all2 (accepts P) (concat (map (pool_exports (described P)) ps)) ms"
    using assms(4) by (rule readings_measured)
  from collect_answered [OF assms(1-3) this(2), of s] obtain w' where
    "collect n rounds E first P (described P) s =
      (Inr (), s\<lparr>run_io := (run_io s)\<lparr>io_world := w'\<rparr>, run_ch := send_all ms (run_ch s)\<rparr>)" by blast
  with ms show ?thesis by (intro exI [of _ w'] exI [of _ ms]) (simp add: Describe_eq Collect_def)
qed

theorem Collect_readings_witness:
  "\<exists>w' ms. Collect 3 1 sample_system ZFS_IOC_FIRST_most label_library
       (fst (Describe label_library (described label_library) empty_channel)) sample_run =
     (Inr (), sample_run\<lparr>run_io := (run_io sample_run)\<lparr>io_world := w'\<rparr>, run_ch := send_all ms (run_ch sample_run)\<rparr>) \<and>
     list_all2 (measured label_library) (pool_readings sample_pool) ms"
proof -
  have bound: "\<forall>p\<in>set [sample_pool]. pool_bound p \<le> 3"
    by (simp add: pool_bound_def sample_pool_def sample_datasets_def forest_count_def)
  from Collect_readings [OF sample_answers _ bound label_library_arity, of 1 "described label_library" empty_channel sample_run]
  show ?thesis by auto
qed

end
