(* ===== verification/Setup.thy ===== *)
theory Setup
  imports Go_Prelude
begin

text \<open>
  zfs/ioctl/ioctl.go, \<open>NewZFSHandle\<close>, and main.go, \<open>setup\<close> and \<open>main\<close>: opening the device node, after an
  attempt to create it when it is missing, registering the collectors, and serving. The file system,
  the flags, the registry of the Prometheus library and the HTTP server are parameters; a file is its
  descriptor.
\<close>

section \<open>The device handle\<close>

record 'w device_files =
  os_open :: "string \<Rightarrow> 'w \<Rightarrow> (error + nat) \<times> 'w"
  unix_mknod :: "string \<Rightarrow> nat \<Rightarrow> nat \<Rightarrow> 'w \<Rightarrow> error option \<times> 'w"
  unix_mkdev :: "nat \<Rightarrow> nat \<Rightarrow> nat"
  os_is_not_exist :: "error \<Rightarrow> bool"

text \<open>The error of \<open>Mknod\<close> is dropped, and so is the file of a first \<open>Open\<close> that succeeds.\<close>

definition NewZFSHandleWithPath :: "('w, 'm) device_files_scheme \<Rightarrow> string \<Rightarrow> ('w, nat) proc" where
  "NewZFSHandleWithPath F path w =
     (case os_open F path w of (opened, w1) \<Rightarrow>
      case (case opened of
              Inl e \<Rightarrow>
                if os_is_not_exist F e then snd (unix_mknod F path 666 (unix_mkdev F 10 54) w1) else w1
            | Inr zfsHandle \<Rightarrow> w1) of w2 \<Rightarrow>
      case os_open F path w2 of
        (Inl e, w3) \<Rightarrow> (Inl (Err (Errorf ''Failed to open or create ZFS device node: %v'')), w3)
      | (Inr zfsHandle, w3) \<Rightarrow> (Inr zfsHandle, w3))"

definition NewZFSHandle :: "('w, 'm) device_files_scheme \<Rightarrow> ('w, nat) proc" where
  "NewZFSHandle F = NewZFSHandleWithPath F ''/dev/zfs''"

text \<open>
  A node that exists is opened twice: the handle is the second file, and nothing holds the first.
\<close>

lemma NewZFSHandle_opens_twice:
  assumes "os_open F path w = (Inr h1, w1)" and "os_open F path w1 = (Inr h2, w2)"
  shows "NewZFSHandleWithPath F path w = (Inr h2, w2)"
  using assms by (simp add: NewZFSHandleWithPath_def)

text \<open>
  A missing node is created first, and the outcome of that is seen by the second \<open>Open\<close> only.
  The mode is the decimal number 666, whose file type bits are all 0: what is made is not a
  character device, and its owner may write it but neither read nor execute it.
\<close>

lemma NewZFSHandle_creates:
  assumes "os_open F path w = (Inl e, w1)" and "os_is_not_exist F e"
    and "unix_mknod F path 666 (unix_mkdev F 10 54) w1 = (err, w2)"
  shows "NewZFSHandleWithPath F path w = (case os_open F path w2 of
      (Inl e, w3) \<Rightarrow> (Inl (Err (Errorf ''Failed to open or create ZFS device node: %v'')), w3)
    | (Inr h, w3) \<Rightarrow> (Inr h, w3))"
  using assms by (simp add: NewZFSHandleWithPath_def)

lemma mknod_mode: "(666 :: nat) div 4096 mod 16 = 0" "(666 :: nat) div 64 mod 8 = 2"
  by simp_all

text \<open>Any other failure of the first \<open>Open\<close> is tried again as well.\<close>

lemma NewZFSHandle_fails:
  assumes "os_open F path w = (Inl e, w1)" and "\<not> os_is_not_exist F e" and "os_open F path w1 = (Inl e', w2)"
  shows "NewZFSHandleWithPath F path w =
    (Inl (Err (Errorf ''Failed to open or create ZFS device node: %v'')), w2)"
  using assms by (simp add: NewZFSHandleWithPath_def)

section \<open>Setup\<close>

text \<open>What is registered: the collector with its handle, and two of the library's own.\<close>

datatype registrant = ZFSRegistrant nat | ProcessRegistrant | GoRegistrant

record 'w setup_env = "'w device_files" +
  reg_Register :: "registrant \<Rightarrow> 'w \<Rightarrow> error option \<times> 'w"

definition register :: "('w, 'm) setup_env_scheme \<Rightarrow> registrant \<Rightarrow> ('w, unit) proc" where
  "register F c w =
     (case reg_Register F c w of (None, w') \<Rightarrow> (Inr (), w') | (Some e, w') \<Rightarrow> (Inl (Err e), w'))"

definition setup_exporter :: "('w, 'm) setup_env_scheme \<Rightarrow> ('w, unit) proc" where
  "setup_exporter F =
     bindE (wrapE ''error creating zfs handle: %w'' (NewZFSHandle F)) (\<lambda>zfsHandle.
     bindE (wrapE ''error registering zfs collector: %w'' (register F (ZFSRegistrant zfsHandle))) (\<lambda>_.
     bindE (wrapE ''error registering process collector: %w'' (register F ProcessRegistrant)) (\<lambda>_.
     wrapE ''error registering go collector: %w'' (register F GoRegistrant))))"

text \<open>Without a device node nothing is registered.\<close>

lemma setup_without_device:
  assumes "NewZFSHandle F w = (Inl (Err e), w')"
  shows "setup_exporter F w = (Inl (Err (Wrapf ''error creating zfs handle: %w'' e)), w')"
  using assms by (simp add: setup_exporter_def bindE_def wrapE_def)

text \<open>What a successful setup has done, and in which order; a failed one has stopped at its first error.\<close>

lemma register_None: "register F c w = (Inr (), w') \<longleftrightarrow> reg_Register F c w = (None, w')"
  by (auto simp: register_def split: prod.split option.split)

lemma wrapE_Inr: "wrapE msg m w = (Inr x, w') \<longleftrightarrow> m w = (Inr x, w')"
  by (auto simp: wrapE_def split: prod.splits sum.splits exit.splits)

lemma bindE_Inr_iff: "bindE m f w = (Inr y, w') \<longleftrightarrow> (\<exists>x w1. m w = (Inr x, w1) \<and> f x w1 = (Inr y, w'))"
  by (auto simp: bindE_def split: prod.splits sum.splits)

lemma setup_succeeds:
  "setup_exporter F w = (Inr (), w') \<longleftrightarrow>
     (\<exists>zfsHandle w1 w2 w3. NewZFSHandle F w = (Inr zfsHandle, w1) \<and>
        reg_Register F (ZFSRegistrant zfsHandle) w1 = (None, w2) \<and>
        reg_Register F ProcessRegistrant w2 = (None, w3) \<and> reg_Register F GoRegistrant w3 = (None, w'))"
  by (simp add: setup_exporter_def bindE_Inr_iff wrapE_Inr register_None)

lemma returns_wrapE: "returns (fst (wrapE msg m w)) = returns (fst (m w))"
  by (auto simp: wrapE_def split: prod.split sum.split exit.split)

lemma returns_Inl: "returns (Inl x) \<longleftrightarrow> (\<exists>e. x = Err e)"
  by (cases x) simp_all

lemma returns_bindE: "returns (fst (m w)) \<Longrightarrow> (\<And>x w'. returns (fst (f x w'))) \<Longrightarrow> returns (fst (bindE m f w))"
  by (auto simp: bindE_def returns_Inl split: prod.split sum.split)

lemma NewZFSHandle_returns: "returns (fst (NewZFSHandle F w))"
  by (auto simp: NewZFSHandle_def NewZFSHandleWithPath_def split: prod.split sum.split)

lemma setup_returns: "returns (fst (setup_exporter F w))"
  unfolding setup_exporter_def
  by (intro returns_bindE) (auto simp: returns_wrapE NewZFSHandle_returns register_def split: prod.split option.split)

section \<open>The process\<close>

text \<open>
  \<open>flag.Parse\<close> delivers the value of a string flag, or ends the process with a status; \<open>ListenAndServe\<close>
  serves and does not come back (\<open>None\<close>), or comes back with an error; \<open>log.Fatal\<close> prints and ends
  the process with status 1.
\<close>

record 'w main_env = "'w setup_env" +
  flag_parse :: "string \<Rightarrow> string \<Rightarrow> 'w \<Rightarrow> (nat + string) \<times> 'w"
  new_registry :: "'w \<Rightarrow> 'w"
  http_handle :: "string \<Rightarrow> 'w \<Rightarrow> 'w"
  listen_and_serve :: "string \<Rightarrow> 'w \<Rightarrow> error option \<times> 'w"
  log_print :: "error \<Rightarrow> 'w \<Rightarrow> 'w"

datatype ended = Serving | Exited nat | Died exit

definition log_fatal :: "'w main_env \<Rightarrow> error \<Rightarrow> 'w \<Rightarrow> ended \<times> 'w" where
  "log_fatal F e w = (Exited 1, log_print F e w)"

definition exporter_main :: "'w main_env \<Rightarrow> 'w \<Rightarrow> ended \<times> 'w" where
  "exporter_main F w =
     (case flag_parse F ''listen-addr'' ''127.0.0.1:9901'' w of
        (Inl status, w1) \<Rightarrow> (Exited status, w1)
      | (Inr listenAddr, w1) \<Rightarrow>
          (case setup_exporter F (new_registry F w1) of
             (Inl (Err e), w2) \<Rightarrow> log_fatal F e w2
           | (Inl x, w2) \<Rightarrow> (Died x, w2)
           | (Inr u, w2) \<Rightarrow>
               (case listen_and_serve F listenAddr (http_handle F ''/metrics'' w2) of
                  (None, w3) \<Rightarrow> (Serving, w3)
                | (Some e, w3) \<Rightarrow> log_fatal F e w3)))"

section \<open>The order of the effects\<close>

text \<open>
  An environment that also keeps a record of the calls with their results: what the process does to
  the outside, seen from there.
\<close>

datatype call =
    ParseFlags "nat + string" | NewRegistry | Open string "error + nat" | Mknod string nat nat
  | Register registrant "error option" | Handle string | Serve string "error option" | Log error

definition traced :: "'w main_env \<Rightarrow> ('w \<times> call list) main_env" where
  "traced F = \<lparr>
     os_open = (\<lambda>path (w, cs). case os_open F path w of (r, w') \<Rightarrow> (r, (w', cs @ [Open path r]))),
     unix_mknod = (\<lambda>path mode dev (w, cs).
       case unix_mknod F path mode dev w of (r, w') \<Rightarrow> (r, (w', cs @ [Mknod path mode dev]))),
     unix_mkdev = unix_mkdev F,
     os_is_not_exist = os_is_not_exist F,
     reg_Register = (\<lambda>c (w, cs). case reg_Register F c w of (r, w') \<Rightarrow> (r, (w', cs @ [Register c r]))),
     flag_parse = (\<lambda>name def (w, cs). case flag_parse F name def w of (r, w') \<Rightarrow> (r, (w', cs @ [ParseFlags r]))),
     new_registry = (\<lambda>(w, cs). (new_registry F w, cs @ [NewRegistry])),
     http_handle = (\<lambda>path (w, cs). (http_handle F path w, cs @ [Handle path])),
     listen_and_serve = (\<lambda>addr (w, cs). case listen_and_serve F addr w of (r, w') \<Rightarrow> (r, (w', cs @ [Serve addr r]))),
     log_print = (\<lambda>e (w, cs). (log_print F e w, cs @ [Log e]))\<rparr>"

text \<open>
  The calls for the device node, by what the two attempts to open it deliver: it is made in between
  when it was missing, and only then.
\<close>

definition device_calls :: "'w main_env \<Rightarrow> error + nat \<Rightarrow> error + nat \<Rightarrow> call list" where
  "device_calls F o1 o2 = [Open ''/dev/zfs'' o1] @
     (case o1 of
        Inl e \<Rightarrow> if os_is_not_exist F e then [Mknod ''/dev/zfs'' 666 (unix_mkdev F 10 54)] else []
      | Inr h \<Rightarrow> []) @ [Open ''/dev/zfs'' o2]"

text \<open>What is registered, in order, and what a refused registration is reported as.\<close>

definition registrations :: "nat \<Rightarrow> (registrant \<times> string) list" where
  "registrations h =
     [(ZFSRegistrant h, ''error registering zfs collector: %w''),
      (ProcessRegistrant, ''error registering process collector: %w''),
      (GoRegistrant, ''error registering go collector: %w'')]"

definition all_registered :: "(registrant \<times> string) list \<Rightarrow> call list" where
  "all_registered rs = map (\<lambda>(c, msg). Register c None) rs"

definition one_refused :: "(registrant \<times> string) list \<Rightarrow> registrant \<times> string \<Rightarrow> error \<Rightarrow> call list" where
  "one_refused rs c e = all_registered rs @ [Register (fst c) (Some e), Log (Wrapf (snd c) e)]"

lemma NewZFSHandle_traced:
  "\<exists>o1 o2 w'. NewZFSHandle F w = (case o2 of
        Inl e \<Rightarrow> Inl (Err (Errorf ''Failed to open or create ZFS device node: %v'')) | Inr h \<Rightarrow> Inr h, w') \<and>
     NewZFSHandle (traced F) (w, cs) = (fst (NewZFSHandle F w), (w', cs @ device_calls F o1 o2))"
proof -
  obtain o1 w1 where o1: "os_open F ''/dev/zfs'' w = (o1, w1)" by fastforce
  define w2 where "w2 = (case o1 of
      Inl e \<Rightarrow> if os_is_not_exist F e then snd (unix_mknod F ''/dev/zfs'' 666 (unix_mkdev F 10 54) w1) else w1
    | Inr h \<Rightarrow> w1)"
  obtain o2 w3 where o2: "os_open F ''/dev/zfs'' w2 = (o2, w3)" by fastforce
  show ?thesis
    using o1 o2 by (intro exI [of _ o1] exI [of _ o2] exI [of _ w3], cases o1; cases o2)
      (auto simp: NewZFSHandle_def NewZFSHandleWithPath_def traced_def w2_def device_calls_def
        split: prod.splits if_splits)
qed

lemma register_traced:
  "(\<exists>w'. register F c w = (Inr (), w') \<and> register (traced F) c (w, cs) = (Inr (), (w', cs @ [Register c None]))) \<or>
   (\<exists>e w'. register F c w = (Inl (Err e), w') \<and>
      register (traced F) c (w, cs) = (Inl (Err e), (w', cs @ [Register c (Some e)])))"
  by (cases "reg_Register F c w"; cases "fst (reg_Register F c w)") (auto simp: register_def traced_def)

text \<open>The three registrations are one loop over the list of them, which stops at the first refusal.\<close>

fun register_each :: "('w, 'm) setup_env_scheme \<Rightarrow> (registrant \<times> string) list \<Rightarrow> ('w, unit) proc" where
  "register_each F [] w = (Inr (), w)"
| "register_each F ((c, msg) # rs) w = bindE (wrapE msg (register F c)) (\<lambda>_. register_each F rs) w"

lemma bindE_unit: "bindE m (\<lambda>_. \<lambda>w. (Inr (), w)) = (m :: ('w, unit) proc)"
  by (rule ext) (auto simp: bindE_def split: prod.split sum.split)

lemma setup_registers_each:
  "setup_exporter F = bindE (wrapE ''error creating zfs handle: %w'' (NewZFSHandle F))
     (\<lambda>h. register_each F (registrations h))"
proof -
  have "register_each F [] = (\<lambda>w. (Inr (), w))" by (rule ext) simp
  moreover have "register_each F ((c, msg) # rs) =
      bindE (wrapE msg (register F c)) (\<lambda>_. register_each F rs)" for c msg rs by (rule ext) simp
  ultimately show ?thesis by (simp add: setup_exporter_def registrations_def bindE_unit)
qed

lemma register_each_traced:
  "(\<exists>w'. register_each F rs w = (Inr (), w') \<and>
      register_each (traced F) rs (w, cs) = (Inr (), (w', cs @ all_registered rs))) \<or>
   (\<exists>rs1 c rs2 e w'. rs = rs1 @ c # rs2 \<and> register_each F rs w = (Inl (Err (Wrapf (snd c) e)), w') \<and>
      register_each (traced F) rs (w, cs) =
        (Inl (Err (Wrapf (snd c) e)), (w', cs @ all_registered rs1 @ [Register (fst c) (Some e)])))"
proof (induction rs arbitrary: w cs)
  case (Cons r rs)
  obtain c msg where r: "r = (c, msg)" by fastforce
  from register_traced [of F c w cs] show ?case
  proof (elim disjE exE conjE)
    fix e w' assume "register F c w = (Inl (Err e), w')"
      "register (traced F) c (w, cs) = (Inl (Err e), (w', cs @ [Register c (Some e)]))"
    then show ?case
      by (intro disjI2 exI [of _ "[]"] exI [of _ r] exI [of _ rs] exI [of _ e] exI [of _ w'])
        (simp add: r bindE_def wrapE_def all_registered_def)
  next
    fix w1 assume ok: "register F c w = (Inr (), w1)"
      "register (traced F) c (w, cs) = (Inr (), (w1, cs @ [Register c None]))"
    then have step: "register_each F (r # rs) w = register_each F rs w1"
      "register_each (traced F) (r # rs) (w, cs) = register_each (traced F) rs (w1, cs @ [Register c None])"
      by (simp_all add: r bindE_def wrapE_def)
    from Cons.IH [of w1 "cs @ [Register c None]"] show ?case
    proof (elim disjE exE conjE)
      fix rs1 d rs2 e w' assume "rs = rs1 @ d # rs2" "register_each F rs w1 = (Inl (Err (Wrapf (snd d) e)), w')"
        "register_each (traced F) rs (w1, cs @ [Register c None]) = (Inl (Err (Wrapf (snd d) e)),
          (w', (cs @ [Register c None]) @ all_registered rs1 @ [Register (fst d) (Some e)]))"
      then have "r # rs = (r # rs1) @ d # rs2 \<and>
          register_each F (r # rs) w = (Inl (Err (Wrapf (snd d) e)), w') \<and>
          register_each (traced F) (r # rs) (w, cs) = (Inl (Err (Wrapf (snd d) e)),
            (w', cs @ all_registered (r # rs1) @ [Register (fst d) (Some e)]))"
        unfolding step by (simp add: r all_registered_def)
      then show ?case by blast
    qed (simp only: step, simp add: r all_registered_def)
  qed
qed (simp add: all_registered_def)

lemma setup_traced:
  "\<exists>r w' o1 o2 rest. setup_exporter F w = (r, w') \<and>
     setup_exporter (traced F) (w, cs) = (r, (w', cs @ device_calls F o1 o2 @ rest)) \<and>
     (case o2 of
        Inl e \<Rightarrow> rest = [] \<and> r = Inl (Err (Wrapf ''error creating zfs handle: %w''
          (Errorf ''Failed to open or create ZFS device node: %v'')))
      | Inr h \<Rightarrow> rest = all_registered (registrations h) \<and> r = Inr () \<or>
          (\<exists>rs c rs' e. registrations h = rs @ c # rs' \<and>
             rest @ [Log (Wrapf (snd c) e)] = one_refused rs c e \<and> r = Inl (Err (Wrapf (snd c) e))))"
proof -
  obtain o1 o2 w1 where o: "NewZFSHandle F w = (case o2 of
        Inl e \<Rightarrow> Inl (Err (Errorf ''Failed to open or create ZFS device node: %v'')) | Inr h \<Rightarrow> Inr h, w1)"
      "NewZFSHandle (traced F) (w, cs) = (fst (NewZFSHandle F w), (w1, cs @ device_calls F o1 o2))"
    using NewZFSHandle_traced [of F w cs] by blast
  show ?thesis
  proof (cases o2)
    case (Inl e)
    with o show ?thesis
      by (intro exI [of _ o1] exI [of _ o2] exI [of _ w1] exI) (simp add: setup_registers_each bindE_def wrapE_def)
  next
    case (Inr h)
    let ?cs = "cs @ device_calls F o1 o2"
    have step: "setup_exporter F w = register_each F (registrations h) w1"
      "setup_exporter (traced F) (w, cs) = register_each (traced F) (registrations h) (w1, ?cs)"
      using o Inr by (simp_all add: setup_registers_each bindE_def wrapE_def)
    from register_each_traced [of F "registrations h" w1 ?cs] show ?thesis
    proof (elim disjE exE conjE)
      fix w2 assume "register_each F (registrations h) w1 = (Inr (), w2)"
        "register_each (traced F) (registrations h) (w1, ?cs) = (Inr (), (w2, ?cs @ all_registered (registrations h)))"
      then show ?thesis
        by (intro exI [of _ "Inr ()"] exI [of _ w2] exI [of _ o1] exI [of _ o2]
              exI [of _ "all_registered (registrations h)"]) (simp add: step Inr)
    next
      fix rs1 c rs2 e w2 assume split: "registrations h = rs1 @ c # rs2"
        and "register_each F (registrations h) w1 = (Inl (Err (Wrapf (snd c) e)), w2)"
        "register_each (traced F) (registrations h) (w1, ?cs) =
          (Inl (Err (Wrapf (snd c) e)), (w2, ?cs @ all_registered rs1 @ [Register (fst c) (Some e)]))"
      then have "setup_exporter F w = (Inl (Err (Wrapf (snd c) e)), w2) \<and>
          setup_exporter (traced F) (w, cs) = (Inl (Err (Wrapf (snd c) e)),
            (w2, cs @ device_calls F o1 o2 @ (all_registered rs1 @ [Register (fst c) (Some e)])))"
        by (simp add: step)
      with split show ?thesis
        by (intro exI [of _ "Inl (Err (Wrapf (snd c) e))"] exI [of _ w2] exI [of _ o1] exI [of _ o2]
              exI [of _ "all_registered rs1 @ [Register (fst c) (Some e)]"])
          (simp add: Inr one_refused_def, blast)
    qed
  qed
qed

text \<open>
  What may be seen of a process that ends so: only its flags, or the calls for the device node with one
  of four continuations.
\<close>

definition history :: "'w main_env \<Rightarrow> ended \<Rightarrow> call list \<Rightarrow> bool" where
  "history F r cs \<longleftrightarrow>
     (\<exists>status. cs = [ParseFlags (Inl status)] \<and> r = Exited status) \<or>
     (\<exists>addr o1 o2 rest. cs = [ParseFlags (Inr addr), NewRegistry] @ device_calls F o1 o2 @ rest \<and>
       (case o2 of
          Inl e \<Rightarrow> r = Exited 1 \<and> rest = [Log (Wrapf ''error creating zfs handle: %w''
            (Errorf ''Failed to open or create ZFS device node: %v''))]
        | Inr h \<Rightarrow>
            (\<exists>rs c rs' e. registrations h = rs @ c # rs' \<and> rest = one_refused rs c e \<and> r = Exited 1) \<or>
            rest = all_registered (registrations h) @ [Handle ''/metrics'', Serve addr None] \<and> r = Serving \<or>
            (\<exists>e. rest = all_registered (registrations h) @ [Handle ''/metrics'', Serve addr (Some e), Log e] \<and>
               r = Exited 1)))"

lemma history_flags: "history F (Exited status) [ParseFlags (Inl status)]"
  by (simp add: history_def)

lemma history_no_device: "history F (Exited 1) ([ParseFlags (Inr addr), NewRegistry] @ device_calls F o1 (Inl e) @
    [Log (Wrapf ''error creating zfs handle: %w'' (Errorf ''Failed to open or create ZFS device node: %v''))])"
  unfolding history_def by (intro disjI2 exI conjI, rule refl) simp

lemma history_refused:
  assumes "registrations h = rs @ c # rs'"
  shows "history F (Exited 1) ([ParseFlags (Inr addr), NewRegistry] @ device_calls F o1 (Inr h) @ one_refused rs c e)"
proof -
  from assms have x: "\<exists>rs1 c1 rs2 e1. registrations h = rs1 @ c1 # rs2 \<and>
      one_refused rs c e = one_refused rs1 c1 e1" by blast
  show ?thesis unfolding history_def by (intro disjI2 exI conjI, rule refl) (simp only: sum.case x simp_thms)
qed

lemma history_serving: "history F Serving ([ParseFlags (Inr addr), NewRegistry] @ device_calls F o1 (Inr h) @
    all_registered (registrations h) @ [Handle ''/metrics'', Serve addr None])"
  unfolding history_def by (intro disjI2 exI conjI, rule refl) simp

lemma history_server_failed: "history F (Exited 1) ([ParseFlags (Inr addr), NewRegistry] @ device_calls F o1 (Inr h) @
    all_registered (registrations h) @ [Handle ''/metrics'', Serve addr (Some e), Log e])"
  unfolding history_def by (intro disjI2 exI conjI, rule refl) simp

text \<open>
  C40. The history of the process, whatever the outside answers: it ends at its flags, or calls for
  the device node and then has one of four continuations. Without a device it logs that and exits;
  a refused registration ends it after those before it, in the order collector, process, runtime, with
  the error under its own message; when all three went through it serves the metrics at the address of
  the flag, and goes on serving or logs the error of that and exits. It serves in no other history, the
  collector's handle is the file of the second attempt to open the device, and there is no panic.
\<close>

theorem process_history:
  "\<exists>r w' cs. exporter_main F w = (r, w') \<and> exporter_main (traced F) (w, []) = (r, (w', cs)) \<and> history F r cs"
proof (cases "flag_parse F ''listen-addr'' ''127.0.0.1:9901'' w")
  case (Pair p w1)
  show ?thesis
  proof (cases p)
    case (Inl status)
    with Pair show ?thesis by (simp add: exporter_main_def traced_def history_flags)
  next
    case (Inr addr)
    let ?cs = "[ParseFlags (Inr addr), NewRegistry]"
    obtain r w2 o1 o2 rest where s: "setup_exporter F (new_registry F w1) = (r, w2)"
        "setup_exporter (traced F) (new_registry F w1, ?cs) = (r, (w2, ?cs @ device_calls F o1 o2 @ rest))"
      and how: "case o2 of
        Inl e \<Rightarrow> rest = [] \<and> r = Inl (Err (Wrapf ''error creating zfs handle: %w''
          (Errorf ''Failed to open or create ZFS device node: %v'')))
      | Inr h \<Rightarrow> rest = all_registered (registrations h) \<and> r = Inr () \<or>
          (\<exists>rs c rs' e. registrations h = rs @ c # rs' \<and>
             rest @ [Log (Wrapf (snd c) e)] = one_refused rs c e \<and> r = Inl (Err (Wrapf (snd c) e)))"
      using setup_traced [of F "new_registry F w1" ?cs] by blast
    let ?calls = "?cs @ device_calls F o1 o2"
    have parsed: "flag_parse (traced F) ''listen-addr'' ''127.0.0.1:9901'' (w, []) = (Inr addr, (w1, [ParseFlags (Inr addr)]))"
      "new_registry (traced F) (w1, [ParseFlags (Inr addr)]) = (new_registry F w1, ?cs)"
      using Pair Inr by (simp_all add: traced_def)
    have logged: "exporter_main F w = (Exited 1, log_print F e w2) \<and>
        exporter_main (traced F) (w, []) = (Exited 1, (log_print F e w2, ?calls @ rest @ [Log e]))"
      if "r = Inl (Err e)" for e
    proof -
      have "log_print (traced F) e (w2, ?calls @ rest) = (log_print F e w2, ?calls @ rest @ [Log e])"
        by (simp add: traced_def)
      with that s parsed Pair Inr show ?thesis by (simp add: exporter_main_def log_fatal_def)
    qed
    have served: "\<exists>w3. exporter_main F w = (Serving, w3) \<and>
          exporter_main (traced F) (w, []) = (Serving, (w3, ?calls @ rest @ [Handle ''/metrics'', Serve addr None])) \<or>
        (\<exists>e. exporter_main F w = (Exited 1, w3) \<and>
          exporter_main (traced F) (w, []) =
            (Exited 1, (w3, ?calls @ rest @ [Handle ''/metrics'', Serve addr (Some e), Log e])))"
      if "r = Inr ()"
    proof -
      obtain out w3 where out: "listen_and_serve F addr (http_handle F ''/metrics'' w2) = (out, w3)" by fastforce
      then have "listen_and_serve (traced F) addr (http_handle (traced F) ''/metrics'' (w2, ?calls @ rest)) =
          (out, (w3, ?calls @ rest @ [Handle ''/metrics'', Serve addr out]))"
        by (simp add: traced_def)
      moreover have "log_print (traced F) e (w', cs) = (log_print F e w', cs @ [Log e])" for e w' cs
        by (simp add: traced_def)
      ultimately show ?thesis
        using that s parsed Pair Inr out by (cases out) (auto simp: exporter_main_def log_fatal_def)
    qed
    show ?thesis
    proof (cases o2)
      case (Inl e)
      with how logged history_no_device [of F addr o1 e] show ?thesis by simp
    next
      case (Inr h)
      with how consider "rest = all_registered (registrations h)" "r = Inr ()"
        | rs c rs' e where "registrations h = rs @ c # rs'" "rest @ [Log (Wrapf (snd c) e)] = one_refused rs c e"
          "r = Inl (Err (Wrapf (snd c) e))"
        by auto
      then show ?thesis
      proof cases
        case 1
        with served [OF 1(2)] Inr history_serving [of F addr o1 h] history_server_failed [of F addr o1 h]
        show ?thesis by (elim exE disjE) simp_all
      next
        case 2
        with logged [OF 2(3)] Inr history_refused [OF 2(1), of F addr o1 e] show ?thesis by simp
      qed
    qed
  qed
qed

end
