(* ===== verification/Spec2Isabelle.thy ===== *)
theory Spec2Isabelle
  imports Any_Kernel Scrape_Ends Parsers_Agree Readings Setup
begin

text \<open>
  A verification development for the ZFS exporter for Prometheus.

  \<^bold>\<open>The program.\<close> On a scrape the Prometheus client library calls \<open>Collect\<close> (main.go). It asks the
  kernel for the list of pools, for each pool for its statistics, and for the datasets of the pool
  one after the other, descending into each (\<open>collect\<close>, \<open>handlePool\<close>, \<open>findDatasetsRecursive\<close>).
  Each question is an ioctl on /dev/zfs (package zfs/ioctl); each answer is an nvlist, read token
  by token (package zfs/nvlist) by \<open>parseVdevs\<close> and \<open>parseProps\<close>; the input and output counters of
  a dataset come from a text file of the SPL kernel module (package zfs/kstat) by \<open>parseKStat\<close>.
  What has been read is exported as metrics by \<open>handleVdev\<close> and \<open>handleDataset\<close>. \<open>Describe\<close>
  creates the descriptors; \<open>main\<close> registers the collector (\<open>setup\<close>) and serves.

  \<^bold>\<open>How Go is modelled.\<close> \<open>Go_Prelude\<close>: a function that returns an error is of type \<open>exit + 'a\<close>,
  with returned errors, run-time panics and an exhausted bound kept apart; a method on a pointer
  is a \<open>proc\<close>, which takes the state of its receiver and returns it also when it fails. Integers
  are words of their width; indexing and slicing check their bounds and panic. \<open>Token_Loop\<close>: the
  loop \<open>for { token, err := r.Next(); ... }\<close> that all parsers share. \<open>Strconv\<close>, \<open>Go_Float\<close>: what
  the program uses of the standard library for numbers, \<open>ParseUint\<close>, hexadecimal printing, and
  \<open>float64\<close> as significand and exponent.

  \<^bold>\<open>Theories and sources.\<close>

  \<^item> \<open>NV_Consts\<close>: zfs/nvlist/consts.go, the type tags and \<open>NVType.String\<close>.
  \<^item> \<open>NV_Reader\<close>, \<open>NV_Values\<close>, \<open>NV_Skip\<close>: zfs/nvlist/decode.go, the state \<open>NVListReader\<close>,
    \<open>readNvHeader\<close> and \<open>Next\<close>; the typed accessors; \<open>Skip\<close> with its recursion.
  \<^item> \<open>NV_Unmarshal\<close>: zfs/nvlist/decode.go, \<open>Unmarshal\<close> into the values of \<open>goval\<close>, which has maps,
    structs with tags, pointers, interfaces, slices and scalars.
  \<^item> \<open>NV_Encode\<close>, \<open>NV_Walk\<close>, \<open>NV_Leaf\<close>, \<open>NV_Unmarshal_Spec\<close>: the specification of the wire format
    and of the values that its pairs stand for, and how procedures consume it.
  \<^item> \<open>KStat\<close>: zfs/kstat/decode.go. \<open>KStat_Table\<close>: the text of a kstat as its specification.
  \<^item> \<open>Ioctl_Consts\<close>, \<open>Ioctl_Cmd\<close>, \<open>Ioctl_States\<close>: zfs/ioctl/types.go, its two platform files,
    util.go, and of ioctl.go the methods of the command block. \<open>Ioctl_Call\<close>: ioctl.go, \<open>Ioctl\<close>
    with its retry loop.
  \<^item> \<open>Vdevs\<close>, \<open>Dataset_Props\<close>, \<open>Pool_Stats\<close>: the parsers of main.go: \<open>parseVdevs\<close> and
    \<open>parseVdevStats\<close>; \<open>parseProps\<close>, \<open>parseValue\<close> and \<open>parseKStat\<close>; the first loop of \<open>handlePool\<close>.
  \<^item> \<open>Metrics\<close>: main.go, \<open>zfsCollector\<close>, \<open>describe\<close>, \<open>export\<close>, \<open>handleVdev\<close>, \<open>handleDataset\<close>.
  \<^item> \<open>Collector\<close>: main.go, \<open>findDatasetsRecursive\<close>, \<open>handlePool\<close>, \<open>collect\<close>, \<open>Collect\<close>.
  \<^item> \<open>Enumeration\<close>, \<open>Collection\<close>: the specification of a collection, trees of datasets and lists of
    pools with the metrics that belong to them. \<open>Bounds\<close>: the bounds of the model.
  \<^item> \<open>Setup\<close>: ioctl.go, \<open>NewZFSHandle\<close>, and main.go, \<open>setup\<close> and \<open>main\<close>; a process may serve forever. The
    calls of the process to the outside are recorded by an environment around the given one (\<open>traced\<close>).
  \<^item> \<open>NV_Properties\<close>, \<open>Host_Properties\<close>, \<open>Exporter_Properties\<close>, \<open>Unmarshal_Properties\<close>,
    \<open>Collection_Properties\<close>: the properties, each with its number, and their witnesses.
  \<^item> \<open>Scrape_Series\<close>: the series of a scrape, as the registry compares them. \<open>Any_Kernel\<close>: what
    a scrape does against any kernel. \<open>Scrape_Ends\<close>: where a scrape can fail to end.
    \<open>Parsers_Agree\<close>: \<open>parseProps\<close> against \<open>Unmarshal\<close>.
  \<^item> \<open>Readings\<close>: the metrics of vdevs, datasets and pools as named readings, written down without the
    exporter's own tables, and the handlers and \<open>Collect\<close> against them.

  \<^bold>\<open>Interfaces.\<close> \<open>fixed_width_codec\<close> (integers of 2, 4 and 8 bytes), \<open>token_stream\<close> (a \<open>Next\<close> that
  consumes input; both readers are instances, and the reader of the list of pools together with the state
  that the loop body changes, and with it every token loop ends), \<open>list_parser\<close> (a
  token loop whose body reads the pairs that it knows; the three list parsers of main.go and the
  values of properties are instances), \<open>state_labels\<close> (a list of state names, of which exactly one
  is current; pools and vdevs are instances). \<open>stable\<close> in \<open>Bounds\<close> is the contract of procedures
  that do not observe their bound, \<open>appends\<close> in \<open>Any_Kernel\<close> that of procedures that only send,
  \<open>ends\<close> in \<open>Scrape_Ends\<close> that of procedures that end.

  \<^bold>\<open>What is shown.\<close> The reader of nvlists does not panic in \<open>Next\<close> or \<open>Skip\<close>, delivers what the
  wire format says, and refuses anything else with an error; \<open>Skip\<close> reads over one list exactly.
  Vdev trees, property lists, pool statistics and lists for \<open>Unmarshal\<close> are read back from their
  encodings, and kstats from their text; what a property list or a kstat says is specified name by name
  (\<open>props_listed\<close>, \<open>counters_listed\<close>), apart from the case distinctions of the parsers. Every parser ends on
  every input. Metrics match their descriptors. \<open>Ioctl\<close> answers ENOMEM with a larger buffer. Against a kernel and a file system
  that answer for given pools and datasets, \<open>Collect\<close> sends exactly their metrics, in preorder,
  and leaves the block and the buffer of its caller; each statistic, property and counter appears under the name
  that belongs to it; no two metrics are of the same series, and all are described. Against any kernel it only adds metrics that are described, and returns no error, and
  it ends when the retry loop of \<open>Ioctl\<close> and the enumeration of datasets end.
  \<open>parseProps\<close> gives what \<open>Unmarshal\<close> gives. Integers are
  rounded correctly, and the ratios are within \<open>2 ^ -51\<close> of the percentages divided by 100. The process
  serves only when all its collectors were registered.
  The properties also state where the code departs from its intent: a list that fills its buffer
  to the last byte is refused; an array of lists that is not known is passed over as if it were
  one list; arrays of strings and booleans repeat their first element, and arrays of bytes come with padding; a reply without a vdev tree, short
  statistics and short data panic; a pool that cannot be read ends the scrape without a sign; the
  retry of \<open>Ioctl\<close> can pass over a dataset.

  \<^bold>\<open>Bounds.\<close> The parsers recurse on the remaining input; the bound of each is one more than the
  number of bytes left, and \<open>token_stream\<close> shows that it is never exhausted, so that the parsers
  satisfy the equations of the source without a bound. The retry loop of \<open>Ioctl\<close> and the
  enumeration of datasets follow what the kernel answers and need not end; they keep an explicit
  bound. One more than the number of datasets of a pool is enough for its enumeration, one round
  is enough for a kernel whose replies fit the buffer and two for one that asks once for a larger
  buffer, and a collection that does not exhaust its bounds has the same result with any larger
  ones.

  \<^bold>\<open>Parameters.\<close> The kernel (\<open>sys_ioctl\<close>), memory allocation, the file system, the client library
  (\<open>prometheus\<close>), its registry, the flags, the HTTP server and \<open>binary.Decode\<close> are functions, most
  of them in records. What is assumed of them stands as a hypothesis in the theorems that need it,
  and a witness supplies a concrete one.

  \<^bold>\<open>Not modelled.\<close> Logging in \<open>Collect\<close>. The values that a failed \<open>Unmarshal\<close> has already stored.
  The input of cgo -godefs (types_gen.go), tests and build files. The goroutines of the client
  library: a scrape is sequential, and the channel is the list of what was sent on it. The
  arguments that format strings print into error messages, as far as they are not strings or
  causes. Addresses in a command block are numbers: the kernel gets the contents of the request
  and writes to the response buffer directly. Slices whose capacity exceeds their length. A destination of
  \<open>Unmarshal\<close> that is an untyped nil, or an interface that cannot be set. The unchecked slice behind the array
  accessors: a count of elements beyond the buffer is a panic of its own kind (\<open>UnsafeRead\<close>), where Go reads memory outside
  the buffer.
\<close>

end
